(* ===== verification/Prelude.thy ===== *)
theory Prelude
  imports Main "HOL-Library.State_Monad" "HOL-Library.Char_ord" "HOL-Library.List_Lexorder"
    "HOL-Library.Multiset"
begin

text \<open>
  Shared notions of the development: Go slices that may be nil, the errors the code returns,
  the world of a controller (the state of everything outside it, and the log of the calls it
  made), calls lifted into the state monad, properties of every position of a log, and the
  contract of client-go's \<open>retry.RetryOnConflict\<close>.
\<close>

section \<open>Collections of facts\<close>

named_theorems handler_defs \<open>the equations of the operations a reconcile runs\<close>
named_theorems log_simps \<open>how predicates on a call log read one more call\<close>

section \<open>Go data\<close>

text \<open>
  A Go slice is nil or holds elements. \<open>reflect.DeepEqual\<close> tells a nil slice from an empty
  one, so the two are different values here; \<open>range\<close> and \<open>len\<close> see no difference, and read
  the slice through \<open>elems\<close>. \<open>rest\<close> stands for the fields of an API object that the source
  only copies and compares as a whole: they are carried in serialised form.
\<close>

type_synonym 'a slice = "'a list option"
type_synonym rest = string
type_synonym key = "string \<times> string"

fun elems :: "'a slice \<Rightarrow> 'a list" where
  "elems None = []"
| "elems (Some xs) = xs"

fun append_slice :: "'a slice \<Rightarrow> 'a \<Rightarrow> 'a slice" where
  "append_slice None x = Some [x]"
| "append_slice (Some xs) x = Some (xs @ [x])"

lemma elems_append_slice [simp]: "elems (append_slice xs x) = elems xs @ [x]"
  by (cases xs) auto

lemma append_slice_ne_None [simp]: "append_slice xs x \<noteq> None"
  by (cases xs) auto

text \<open>Go's \<open>sort.Strings\<close> (the bytewise order is the lexicographic order on \<open>string\<close>).\<close>

definition sort_Strings :: "string slice \<Rightarrow> string slice" where
  "sort_Strings xs = map_option sort xs"

lemma elems_sort_Strings [simp]: "elems (sort_Strings xs) = sort (elems xs)"
  by (cases xs) (auto simp: sort_Strings_def)

lemma sort_Strings_Some [simp]: "sort_Strings (Some xs) = Some (sort xs)"
  by (simp add: sort_Strings_def)

text \<open>Go's \<open>strings.TrimPrefix\<close>.\<close>

fun strip :: "string \<Rightarrow> string \<Rightarrow> string option" where
  "strip [] s = Some s"
| "strip (p # ps) [] = None"
| "strip (p # ps) (c # s) = (if p = c then strip ps s else None)"

definition TrimPrefix :: "string \<Rightarrow> string \<Rightarrow> string" where
  "TrimPrefix s p = (case strip p s of None \<Rightarrow> s | Some t \<Rightarrow> t)"

lemma strip_append [simp]: "strip p (p @ s) = Some s"
  by (induction p) auto

lemma strip_SomeD: "strip p s = Some t \<Longrightarrow> s = p @ t"
  by (induction p s rule: strip.induct) (auto split: if_splits)

lemma TrimPrefix_prefix [simp]: "TrimPrefix (p @ s) p = s"
  by (simp add: TrimPrefix_def)

lemma TrimPrefix_other: "(\<And>t. s \<noteq> p @ t) \<Longrightarrow> TrimPrefix s p = s"
  by (auto simp: TrimPrefix_def split: option.splits dest: strip_SomeD)

section \<open>Errors\<close>

text \<open>
  The errors the source tells apart: an API error whose reason is NotFound
  (\<open>apierrors.IsNotFound\<close>) or Conflict (what \<open>RetryOnConflict\<close> retries), any other API error,
  an error the repository builds itself with \<open>fmt.Errorf\<close> or \<open>errors.Errorf\<close>, and the panic of
  a nil dereference. A panic unwinds to the caller of the handler as a returned error does: no
  code of the repository recovers from it or looks at it.
\<close>

datatype error = NotFound | Conflict | APIError string | Errorf string | Panic

fun error_of :: "error + 'a \<Rightarrow> error option" where
  "error_of (Inl e) = Some e"
| "error_of (Inr _) = None"

section \<open>Worlds, calls and logs\<close>

text \<open>
  A handler runs in a world: \<open>env\<close> is the state of everything outside the controller (the API
  server, its caches, the cloud), \<open>calls\<close> the calls the controller has made so far, in order.
  A call to the outside is an arbitrary function of \<open>env\<close>, and the log gets one entry.
\<close>

record ('w, 'c) world =
  env :: 'w
  calls :: "'c list"

abbreviation ret :: "'a \<Rightarrow> ('s, 'a) state" where
  "ret \<equiv> State_Monad.return"

definition lift_call :: "('w \<Rightarrow> 'r \<times> 'w) \<Rightarrow> ('r \<Rightarrow> 'c) \<Rightarrow> (('w, 'c) world, 'r) state" where
  "lift_call f entry = State (\<lambda>s. case f (env s) of
     (r, w) \<Rightarrow> (r, s\<lparr>env := w, calls := calls s @ [entry r]\<rparr>))"

lemma run_lift_call:
  "run_state (lift_call f entry) s = (case f (env s) of
     (r, w) \<Rightarrow> (r, s\<lparr>env := w, calls := calls s @ [entry r]\<rparr>))"
  by (simp add: lift_call_def)

definition note_call :: "'c \<Rightarrow> (('w, 'c) world, unit) state" where
  "note_call c = State (\<lambda>s. ((), s\<lparr>calls := calls s @ [c]\<rparr>))"

lemma run_note_call: "run_state (note_call c) s = ((), s\<lparr>calls := calls s @ [c]\<rparr>)"
  by (simp add: note_call_def)

lemma run_state_if [simp]:
  "run_state (if b then m else n) s = (if b then run_state m s else run_state n s)"
  by simp

lemma out2:
  obtains a b c where "x = ((a, b), c)"
  by (cases x) (metis surj_pair)

lemma out4:
  obtains a b c d e where "x = ((a, b, c, d), e)"
  by (cases x) (metis surj_pair)

text \<open>\<open>P\<close> holds of every entry of a log and the entries before it.\<close>

definition everywhere :: "('c list \<Rightarrow> 'c \<Rightarrow> bool) \<Rightarrow> 'c list \<Rightarrow> bool" where
  "everywhere P l \<longleftrightarrow> (\<forall>i < length l. P (take i l) (l ! i))"

text \<open>\<open>P\<close> holds of the entries that continue a log.\<close>

fun onward :: "('c list \<Rightarrow> 'c \<Rightarrow> bool) \<Rightarrow> 'c list \<Rightarrow> 'c list \<Rightarrow> bool" where
  "onward P l [] = True"
| "onward P l (c # cs) \<longleftrightarrow> P l c \<and> onward P (l @ [c]) cs"

lemma onward_iff: "onward P l cs \<longleftrightarrow> (\<forall>i < length cs. P (l @ take i cs) (cs ! i))"
proof (induction cs arbitrary: l)
  case (Cons c cs)
  then show ?case by (simp add: All_less_Suc2)
qed simp

lemma everywhere_Nil [simp]: "everywhere P []"
  by (simp add: everywhere_def)

lemma everywhere_append [log_simps]: "everywhere P (l @ cs) \<longleftrightarrow> everywhere P l \<and> onward P l cs"
proof (induction cs rule: rev_induct)
  case (snoc c cs)
  have "everywhere P ((l @ cs) @ [c]) \<longleftrightarrow> everywhere P (l @ cs) \<and> P (l @ cs) c"
    unfolding everywhere_def by (auto simp: less_Suc_eq nth_append)
  moreover have "onward P l (cs @ [c]) \<longleftrightarrow> onward P l cs \<and> P (l @ cs) c"
    by (auto simp: onward_iff less_Suc_eq nth_append)
  ultimately show ?case using snoc by simp
qed simp

lemma everywhereD: "everywhere P (p @ c # q) \<Longrightarrow> P p c"
  by (simp add: everywhere_append)

section \<open>Runs of a controller\<close>

text \<open>
  A controller's life: it starts with an empty log, and from then on a reconcile of some
  request runs to its end, or the outside moves on its own. The queue's order and the outside's
  moves are not determined.
\<close>

inductive life :: "('q \<Rightarrow> (('w, 'c) world, 'r) state) \<Rightarrow> ('w, 'c) world \<Rightarrow> bool"
  for reconcile where
  start: "life reconcile \<lparr>env = w, calls = []\<rparr>"
| handle: "life reconcile s \<Longrightarrow> life reconcile (snd (run_state (reconcile q) s))"
| outside: "life reconcile s \<Longrightarrow> life reconcile (s\<lparr>env := w\<rparr>)"

text \<open>
  The contract of a reconcile with respect to a property of logs, and what follows for a
  controller's life: the property holds of the whole log at any time.
\<close>

locale keeps_log =
  fixes reconcile :: "'q \<Rightarrow> (('w, 'c) world, 'r) state"
    and safe :: "'c list \<Rightarrow> bool"
  assumes safe_start: "safe []"
    and safe_handle: "safe (calls s) \<Longrightarrow> safe (calls (snd (run_state (reconcile q) s)))"
begin

lemma life_safe: "life reconcile s \<Longrightarrow> safe (calls s)"
  by (induction rule: life.induct) (auto simp: safe_start safe_handle)

end

section \<open>Retry on conflict\<close>

text \<open>
  client-go documents \<open>RetryOnConflict(backoff, fn)\<close>: \<open>fn\<close> runs; when it returns a Conflict
  error it may run again, and the last error is returned; any other outcome is returned at
  once. How often it runs again is up to the backoff. \<open>fn\<close>'s captured variable is passed as
  an explicit value.
\<close>

inductive retry_run ::
  "('v \<Rightarrow> ('s, error option \<times> 'v) state) \<Rightarrow> 'v \<Rightarrow> 's \<Rightarrow> (error option \<times> 'v) \<times> 's \<Rightarrow> bool"
  for fn where
  stop: "retry_run fn v s (run_state (fn v) s)"
    if "fst (fst (run_state (fn v) s)) \<noteq> Some Conflict"
| give_up: "retry_run fn v s (run_state (fn v) s)"
    if "fst (fst (run_state (fn v) s)) = Some Conflict"
| again: "retry_run fn v s out"
    if "run_state (fn v) s = ((Some Conflict, v'), s')" and "retry_run fn v' s' out"

type_synonym ('v, 's) retrier =
  "('v \<Rightarrow> ('s, error option \<times> 'v) state) \<Rightarrow> 'v \<Rightarrow> ('s, error option \<times> 'v) state"

definition retry_ok :: "('v, 's) retrier \<Rightarrow> bool" where
  "retry_ok retry \<longleftrightarrow> (\<forall>fn v s. retry_run fn v s (run_state (retry fn v) s))"

text \<open>An invariant of the attempts is an invariant of the whole retry.\<close>

lemma retry_run_invariant:
  assumes "retry_run fn v s out" and "I v s"
    and step: "\<And>v s e v' s'. I v s \<Longrightarrow> run_state (fn v) s = ((e, v'), s') \<Longrightarrow> I v' s'"
  shows "I (snd (fst out)) (snd out)"
  using assms(1,2)
proof (induction rule: retry_run.induct)
  case (stop v s)
  then show ?case by (metis prod.collapse step)
next
  case (give_up v s)
  then show ?case by (metis prod.collapse step)
next
  case (again v s v' s' out)
  then show ?case using step by blast
qed

text \<open>
  A retry that returns nil returned from an attempt that did, and that attempt started from a
  state the earlier attempts reached.
\<close>

lemma retry_run_success:
  assumes "retry_run fn v s out" and "I v s" and "fst (fst out) = None"
    and step: "\<And>v s v' s'. I v s \<Longrightarrow> run_state (fn v) s = ((Some Conflict, v'), s') \<Longrightarrow> I v' s'"
    and final: "\<And>v s v' s'. I v s \<Longrightarrow> run_state (fn v) s = ((None, v'), s') \<Longrightarrow> Q v' s'"
  shows "Q (snd (fst out)) (snd out)"
  using assms(1-3)
proof (induction rule: retry_run.induct)
  case (stop v s)
  then show ?case by (metis final prod.collapse)
next
  case (again v s v' s' out)
  then show ?case using step by blast
qed simp

text \<open>The same two facts for a retrier that meets the contract.\<close>

lemma retry_invariant:
  assumes "retry_ok retry" and run: "run_state (retry fn v) s = ((e, v'), s')" and "I v s"
    and step: "\<And>v s e v' s'. I v s \<Longrightarrow> run_state (fn v) s = ((e, v'), s') \<Longrightarrow> I v' s'"
  shows "I v' s'"
proof -
  have "retry_run fn v s ((e, v'), s')"
    using assms(1) run by (metis retry_ok_def)
  from retry_run_invariant [OF this, of I] show ?thesis
    using assms(3) step by simp
qed

lemma retry_success:
  assumes "retry_ok retry" and run: "run_state (retry fn v) s = ((None, v'), s')" and "I v s"
    and step: "\<And>v s v' s'. I v s \<Longrightarrow> run_state (fn v) s = ((Some Conflict, v'), s') \<Longrightarrow> I v' s'"
    and final: "\<And>v s v' s'. I v s \<Longrightarrow> run_state (fn v) s = ((None, v'), s') \<Longrightarrow> Q v' s'"
  shows "Q v' s'"
proof -
  have "retry_run fn v s ((None, v'), s')"
    using assms(1) run by (metis retry_ok_def)
  from retry_run_success [OF this, of I Q] show ?thesis
    using assms(3) step final by simp
qed

text \<open>An attempt that does not conflict is the only one.\<close>

lemma retry_once:
  assumes "retry_ok retry" and run: "run_state (fn v) s = ((e, v'), s')" and e: "e \<noteq> Some Conflict"
  shows "run_state (retry fn v) s = ((e, v'), s')"
proof -
  have "retry_run fn v s (run_state (retry fn v) s)"
    using assms(1) by (simp add: retry_ok_def)
  then show ?thesis by (cases rule: retry_run.cases) (use run e in auto)
qed

text \<open>A backoff of \<open>n\<close> further attempts meets the contract.\<close>

fun retry_upto :: "nat \<Rightarrow> ('v, 's) retrier" where
  "retry_upto 0 fn v = fn v"
| "retry_upto (Suc n) fn v = do {
     (e, v') \<leftarrow> fn v;
     if e = Some Conflict then retry_upto n fn v' else ret (e, v')
   }"

lemma retry_upto_numeral [simp]:
  "retry_upto (numeral k) fn v = do {
     (e, v') \<leftarrow> fn v;
     if e = Some Conflict then retry_upto (pred_numeral k) fn v' else ret (e, v')
   }"
  by (simp add: numeral_eq_Suc)

lemma retry_upto_run: "retry_run fn v s (run_state (retry_upto n fn v) s)"
proof (induction n arbitrary: v s)
  case 0
  show ?case by (cases "fst (fst (run_state (fn v) s)) = Some Conflict") (auto intro: retry_run.intros)
next
  case (Suc n)
  obtain e v' s' where r: "run_state (fn v) s = ((e, v'), s')" by (metis prod.collapse)
  show ?case
  proof (cases "e = Some Conflict")
    case True
    with r Suc.IH [of v' s'] show ?thesis by (auto intro: retry_run.again)
  next
    case False
    then show ?thesis using r retry_run.stop [of fn v s] by simp
  qed
qed

lemma retry_upto_ok: "retry_ok (retry_upto n)"
  by (simp add: retry_ok_def retry_upto_run)

end
