(* ===== verification/ApiTypes.thy ===== *)
theory ApiTypes
  imports Prelude
begin

text \<open>
  The API objects the controllers read and write, with the fields the source names. The types
  are declared in karmada and Kubernetes; as Go embeds \<open>ObjectMeta\<close> in every object, the
  records here extend \<open>ObjectMeta\<close>. A pointer field is an option, a slice whose nilness the
  source can see is a \<open>slice\<close>, and what the source never names is a \<open>rest\<close> field.
\<close>

section \<open>Object metadata\<close>

type_synonym OwnerReference = rest

record ObjectMeta =
  Namespace :: string
  Name :: string
  ResourceVersion :: string
  Annotations :: "string \<rightharpoonup> string"
  Labels :: "string \<rightharpoonup> string"
  Finalizers :: "string list"
  DeletionTimestamp :: "string option"
  OwnerReferences :: "OwnerReference list"

definition key_of :: "'a ObjectMeta_scheme \<Rightarrow> key" where
  "key_of o1 = (Namespace o1, Name o1)"

lemma key_of_update [simp]:
  "key_of (x\<lparr>Finalizers := fs\<rparr>) = key_of x"
  "key_of (x\<lparr>ResourceVersion := rv\<rparr>) = key_of x"
  by (simp_all add: key_of_def)

text \<open>\<open>DeletionTimestamp.IsZero()\<close>.\<close>

definition IsZero :: "string option \<Rightarrow> bool" where
  "IsZero t \<longleftrightarrow> t = None"

text \<open>The metadata of a Go literal that sets only the namespace and the name.\<close>

definition meta_literal :: "string \<Rightarrow> string \<Rightarrow> ObjectMeta" where
  "meta_literal ns n = \<lparr>Namespace = ns, Name = n, ResourceVersion = '''', Annotations = Map.empty,
     Labels = Map.empty, Finalizers = [], DeletionTimestamp = None, OwnerReferences = []\<rparr>"

section \<open>MultiClusterIngress\<close>

record IngressServiceBackend =
  ServiceName :: string
  ServicePort :: rest

record IngressBackend =
  BackendService :: "IngressServiceBackend option"
  BackendResource :: "rest option"

record HTTPIngressPath =
  PathMatch :: rest
  PathBackend :: IngressBackend

record IngressRule =
  RuleHost :: string
  RuleHTTP :: "HTTPIngressPath slice option"

record IngressTLS =
  TLSHosts :: rest
  SecretName :: string

record IngressSpec =
  IngressClassName :: "string option"
  DefaultBackend :: "IngressBackend option"
  TLS :: "IngressTLS slice"
  Rules :: "IngressRule slice"

record LoadBalancerIngress =
  IP :: string
  LBIngressRest :: rest

record LoadBalancerStatus =
  Ingress :: "LoadBalancerIngress slice"

record ServiceLocation =
  LocationName :: string
  LocationClusters :: "string slice"

record MCIStatus =
  statusLoadBalancer :: LoadBalancerStatus
  TrafficBlockClusters :: "string slice"
  ServiceLocations :: "ServiceLocation slice"

record MultiClusterIngress = ObjectMeta +
  mciSpec :: IngressSpec
  mciStatus :: MCIStatus

section \<open>MultiClusterService\<close>

record MCSSpec =
  Types :: "string slice"
  Ports :: "rest slice"
  mcsSpecRest :: rest

record MultiClusterService = ObjectMeta +
  mcsSpec :: MCSSpec
  mcsLoadBalancer :: LoadBalancerStatus

section \<open>Core objects and clusters\<close>

record Service = ObjectMeta +
  svcSpec :: rest

record Secret = ObjectMeta +
  Data :: "string \<rightharpoonup> rest"
  StringData :: "string \<rightharpoonup> string"

type_synonym EndpointSlice = ObjectMeta

record Cluster = ObjectMeta +
  RemedyActions :: "string slice"

record IngressClass = ObjectMeta +
  ClassController :: string

type_synonym ServiceExport = ObjectMeta

section \<open>Propagation policies and bindings\<close>

record ResourceSelector =
  SelectorAPIVersion :: string
  SelectorKind :: string
  SelectorName :: string

record Toleration =
  TolerationKey :: string
  TolerationOperator :: string
  TolerationEffect :: string

record ClusterAffinity =
  ClusterNames :: "string slice"
  AffinityRest :: rest

record Placement =
  PlacementAffinity :: "ClusterAffinity option"
  ClusterTolerations :: "Toleration list"

record PropagationSpec =
  ResourceSelectors :: "ResourceSelector list"
  SpecPlacement :: Placement

record Policy = ObjectMeta +
  policySpec :: PropagationSpec

record ObjectReference =
  RefAPIVersion :: string
  RefKind :: string
  RefNamespace :: string
  RefName :: string

record TargetCluster =
  TargetName :: string
  Replicas :: rest

record BindingSnapshot =
  SnapshotRest :: rest
  SnapshotClusters :: "TargetCluster slice"

record ResourceBindingSpec =
  Resource :: ObjectReference
  BindingClusters :: "TargetCluster slice"
  RequiredBy :: "BindingSnapshot slice"

record ResourceBinding = ObjectMeta +
  rbSpec :: ResourceBindingSpec

section \<open>Any object\<close>

text \<open>The log names the object of a call; this type joins the kinds it can have.\<close>

datatype obj =
    MCIObj MultiClusterIngress
  | MCSObj MultiClusterService
  | ServiceObj Service
  | ExportObj ServiceExport
  | PolicyObj Policy
  | ClusterPolicyObj Policy
  | BindingObj ResourceBinding
  | ClusterObj Cluster
  | ClassObj IngressClass

fun obj_meta :: "obj \<Rightarrow> ObjectMeta" where
  "obj_meta (MCIObj x) = ObjectMeta.truncate x"
| "obj_meta (MCSObj x) = ObjectMeta.truncate x"
| "obj_meta (ServiceObj x) = ObjectMeta.truncate x"
| "obj_meta (ExportObj x) = x"
| "obj_meta (PolicyObj x) = ObjectMeta.truncate x"
| "obj_meta (ClusterPolicyObj x) = ObjectMeta.truncate x"
| "obj_meta (BindingObj x) = ObjectMeta.truncate x"
| "obj_meta (ClusterObj x) = ObjectMeta.truncate x"
| "obj_meta (ClassObj x) = ObjectMeta.truncate x"

lemma truncate_fields [simp]:
  "Finalizers (ObjectMeta.truncate x) = Finalizers x"
  "key_of (ObjectMeta.truncate x) = key_of x"
  by (simp_all add: ObjectMeta.truncate_def key_of_def)

end
