(* ===== verification/ApiClient.thy ===== *)
theory ApiClient
  imports ApiTypes
begin

text \<open>
  What the controllers use of the libraries they import, as parameters: the functions and
  constants of the dependencies (\<open>deps\<close>, with their documented laws \<open>deps_ok\<close>) and the
  controller-runtime client (\<open>client\<close>, arbitrary functions of the world outside). Every use
  of the client is a call that the log records.
\<close>

section \<open>Functions and constants of the dependencies\<close>

text \<open>
  \<open>SetsList xs\<close> and \<open>SetsHas xs\<close> are \<open>List\<close> and \<open>Has\<close> of a \<open>sets.String\<close> into which
  \<open>xs\<close> were inserted. The finalizer functions of controllerutil act on the finalizer list of
  the object and return whether they changed it. The \<open>Semantic\<close> fields are
  \<open>equality.Semantic.DeepEqual\<close> at the types it is used at.
\<close>

record deps =
  SetsList :: "string list \<Rightarrow> string list"
  SetsHas :: "string list \<Rightarrow> string \<Rightarrow> bool"
  AddFinalizer :: "string list \<Rightarrow> string \<Rightarrow> bool \<times> string list"
  RemoveFinalizer :: "string list \<Rightarrow> string \<Rightarrow> bool \<times> string list"
  ContainsFinalizer :: "string list \<Rightarrow> string \<Rightarrow> bool"
  NamespacedNameString :: "key \<Rightarrow> string"
  GenerateBindingName :: "string \<Rightarrow> string \<Rightarrow> string"
  NewControllerRef :: "Service \<Rightarrow> string \<Rightarrow> OwnerReference"
  SemanticMap :: "(string \<rightharpoonup> string) \<Rightarrow> (string \<rightharpoonup> string) \<Rightarrow> bool"
  SemanticBool :: "bool \<Rightarrow> bool \<Rightarrow> bool"
  SemanticStrings :: "string slice \<Rightarrow> string slice \<Rightarrow> bool"
  SemanticRests :: "rest slice \<Rightarrow> rest slice \<Rightarrow> bool"
  SemanticData :: "(string \<rightharpoonup> rest) \<Rightarrow> (string \<rightharpoonup> rest) \<Rightarrow> bool"
  SemanticIngressSpec :: "IngressSpec \<Rightarrow> IngressSpec \<Rightarrow> bool"
  SemanticMCSSpec :: "MCSSpec \<Rightarrow> MCSSpec \<Rightarrow> bool"
  SemanticServiceSpec :: "rest \<Rightarrow> rest \<Rightarrow> bool"
  TrafficControl :: string
  ExposureTypeLoadBalancer :: string
  AnnotationIsDefaultIngressClass :: string
  LabelServiceName :: string
  ServiceExportGroupVersion :: string
  TaintClusterNotReady :: string
  TaintClusterUnreachable :: string
  TolerationOpExists :: string
  TaintEffectNoExecute :: string

definition sets_ok :: "deps \<Rightarrow> bool" where
  "sets_ok d \<longleftrightarrow>
     (\<forall>xs. sorted_wrt (<) (SetsList d xs) \<and> set (SetsList d xs) = set xs) \<and>
     (\<forall>xs x. SetsHas d xs x \<longleftrightarrow> x \<in> set xs)"

definition finalizers_ok :: "deps \<Rightarrow> bool" where
  "finalizers_ok d \<longleftrightarrow>
     (\<forall>fs f. ContainsFinalizer d fs f \<longleftrightarrow> f \<in> set fs) \<and>
     (\<forall>fs f. fst (AddFinalizer d fs f) \<longleftrightarrow> f \<notin> set fs) \<and>
     (\<forall>fs f. set (snd (AddFinalizer d fs f)) = insert f (set fs)) \<and>
     (\<forall>fs f. fst (RemoveFinalizer d fs f) \<longleftrightarrow> f \<in> set fs) \<and>
     (\<forall>fs f. set (snd (RemoveFinalizer d fs f)) = set fs - {f})"

text \<open>
  Semantic equality holds of equal values; on booleans and maps of strings it is equality, on
  slices it does not see whether an empty one is nil.
\<close>

definition semantic_ok :: "deps \<Rightarrow> bool" where
  "semantic_ok d \<longleftrightarrow>
     (\<forall>a b. SemanticStrings d a b \<longleftrightarrow> elems a = elems b) \<and>
     (\<forall>a b. SemanticBool d a b \<longleftrightarrow> a = b) \<and>
     (\<forall>a b. SemanticMap d a b \<longleftrightarrow> a = b) \<and>
     (\<forall>a b. SemanticRests d a b \<longleftrightarrow> elems a = elems b) \<and>
     (\<forall>a. SemanticData d a a) \<and> (\<forall>a. SemanticIngressSpec d a a) \<and>
     (\<forall>a. SemanticMCSSpec d a a) \<and> (\<forall>a. SemanticServiceSpec d a a) \<and>
     (\<forall>a b. SemanticMCSSpec d a b \<longrightarrow> elems (Types a) = elems (Types b))"

lemma semantic_okD:
  assumes "semantic_ok d"
  shows "SemanticStrings d a b \<longleftrightarrow> elems a = elems b" and "SemanticBool d p q \<longleftrightarrow> p = q"
    and "SemanticMap d m n \<longleftrightarrow> m = n" and "SemanticRests d r1 r2 \<longleftrightarrow> elems r1 = elems r2"
    and "SemanticData d x x" and "SemanticIngressSpec d i i"
    and "SemanticMCSSpec d j j" and "SemanticServiceSpec d r r"
  using assms by (simp_all add: semantic_ok_def)

lemma semantic_ok_TypesD: "semantic_ok d \<Longrightarrow> SemanticMCSSpec d a b \<Longrightarrow> elems (Types a) = elems (Types b)"
  by (simp add: semantic_ok_def)

lemma sets_okD:
  assumes "sets_ok d"
  shows "sorted_wrt (<) (SetsList d xs)" and "set (SetsList d xs) = set xs"
    and "distinct (SetsList d xs)" and "SetsHas d xs x \<longleftrightarrow> x \<in> set xs"
  using assms by (auto simp: sets_ok_def strict_sorted_iff)

lemma finalizers_okD:
  assumes "finalizers_ok d"
  shows "ContainsFinalizer d fs f \<longleftrightarrow> f \<in> set fs"
    and "fst (AddFinalizer d fs f) \<longleftrightarrow> f \<notin> set fs"
    and "set (snd (AddFinalizer d fs f)) = insert f (set fs)"
    and "fst (RemoveFinalizer d fs f) \<longleftrightarrow> f \<in> set fs"
    and "set (snd (RemoveFinalizer d fs f)) = set fs - {f}"
  using assms by (simp_all add: finalizers_ok_def)

lemma finalizers_pairD:
  assumes "finalizers_ok d"
  shows "AddFinalizer d fs f = (b, fs') \<Longrightarrow> (b \<longleftrightarrow> f \<notin> set fs) \<and> set fs' = insert f (set fs)"
    and "RemoveFinalizer d fs f = (b, fs') \<Longrightarrow> (b \<longleftrightarrow> f \<in> set fs) \<and> set fs' = set fs - {f}"
  using finalizers_okD [OF assms, of fs f] by simp_all

section \<open>The client\<close>

record list_options =
  InNamespace :: "string option"
  MatchingFields :: "(string \<times> string) option"

definition all_objects :: list_options where
  "all_objects = \<lparr>InNamespace = None, MatchingFields = None\<rparr>"

definition in_namespace :: "string \<Rightarrow> list_options" where
  "in_namespace ns = \<lparr>InNamespace = Some ns, MatchingFields = None\<rparr>"

definition in_namespace_with :: "string \<Rightarrow> string \<Rightarrow> string \<Rightarrow> list_options" where
  "in_namespace_with ns f v = \<lparr>InNamespace = Some ns, MatchingFields = Some (f, v)\<rparr>"

text \<open>
  The operations of \<open>client.Client\<close> on one kind of object. A write returns the error and the
  object as the call leaves it (the server's answer is decoded into the argument). \<open>cPatch\<close>
  takes the modified object and the base the patch is computed against.
\<close>

record ('o, 'w) kind_client =
  cGet :: "key \<Rightarrow> 'w \<Rightarrow> (error + 'o) \<times> 'w"
  cList :: "list_options \<Rightarrow> 'w \<Rightarrow> (error + 'o list) \<times> 'w"
  cCreate :: "'o \<Rightarrow> 'w \<Rightarrow> (error option \<times> 'o) \<times> 'w"
  cUpdate :: "'o \<Rightarrow> 'w \<Rightarrow> (error option \<times> 'o) \<times> 'w"
  cPatch :: "'o \<Rightarrow> 'o \<Rightarrow> 'w \<Rightarrow> (error option \<times> 'o) \<times> 'w"
  cStatusUpdate :: "'o \<Rightarrow> 'w \<Rightarrow> (error option \<times> 'o) \<times> 'w"
  cDelete :: "'o \<Rightarrow> 'w \<Rightarrow> error option \<times> 'w"

record 'w client =
  mcis :: "(MultiClusterIngress, 'w) kind_client"
  mcss :: "(MultiClusterService, 'w) kind_client"
  services :: "(Service, 'w) kind_client"
  exports :: "(ServiceExport, 'w) kind_client"
  policies :: "(Policy, 'w) kind_client"
  cluster_policies :: "(Policy, 'w) kind_client"
  bindings :: "(ResourceBinding, 'w) kind_client"
  clusters :: "(Cluster, 'w) kind_client"
  ingress_classes :: "(IngressClass, 'w) kind_client"

text \<open>The object of an answer is the one the request named.\<close>

definition keeps_key :: "('a ObjectMeta_scheme, 'w) kind_client \<Rightarrow> bool" where
  "keeps_key c \<longleftrightarrow>
     (\<forall>k w x. fst (cGet c k w) = Inr x \<longrightarrow> key_of x = k) \<and>
     (\<forall>x w. key_of (snd (fst (cUpdate c x w))) = key_of x) \<and>
     (\<forall>x w. key_of (snd (fst (cStatusUpdate c x w))) = key_of x)"

lemma keeps_keyD:
  assumes "keeps_key c"
  shows "cGet c k w = (Inr x, w') \<Longrightarrow> key_of x = k"
    and "cUpdate c x w = ((e, y), w') \<Longrightarrow> key_of y = key_of x"
    and "cStatusUpdate c x w = ((e, y), w') \<Longrightarrow> key_of y = key_of x"
    and "key_of (snd (fst (cStatusUpdate c x w))) = key_of x"
  using assms unfolding keeps_key_def by (metis fst_conv snd_conv)+

section \<open>Calls\<close>

datatype kind = MCIKind | MCSKind | ServiceKind | ExportKind | PolicyKind | ClusterPolicyKind
  | BindingKind | ClusterKind | ClassKind

datatype verb = CreateVerb | UpdateVerb | PatchVerb | StatusVerb | DeleteVerb

text \<open>
  One entry of the log: the start of a reconcile (its first log line), a call of the client, of a cloud provider's load balancer (the verbs of
  cloud.go) or of the event recorder, with its arguments and its outcome.
\<close>

datatype call =
    Reconciling kind key
  | Got kind key "error + obj"
  | Listed kind list_options "error option"
  | Wrote verb obj "error option"
  | LBGot obj bool "error option"
  | LBEnsured obj "error option"
  | LBUpdated obj "error option"
  | LBDeleted obj "error option"
  | Recorded obj string

type_synonym ('w, 'a) io = "(('w, call) world, 'a) state"

definition api_get :: "kind \<Rightarrow> ('o \<Rightarrow> obj) \<Rightarrow> ('o, 'w) kind_client \<Rightarrow> key \<Rightarrow> ('w, error + 'o) io" where
  "api_get kd mk c k = lift_call (cGet c k) (\<lambda>r. Got kd k (map_sum id mk r))"

definition api_list :: "kind \<Rightarrow> ('o, 'w) kind_client \<Rightarrow> list_options \<Rightarrow> ('w, error + 'o list) io" where
  "api_list kd c opts = lift_call (cList c opts) (\<lambda>r. Listed kd opts (error_of r))"

definition api_create :: "('o \<Rightarrow> obj) \<Rightarrow> ('o, 'w) kind_client \<Rightarrow> 'o \<Rightarrow> ('w, error option \<times> 'o) io" where
  "api_create mk c x = lift_call (cCreate c x) (\<lambda>r. Wrote CreateVerb (mk x) (fst r))"

definition api_update :: "('o \<Rightarrow> obj) \<Rightarrow> ('o, 'w) kind_client \<Rightarrow> 'o \<Rightarrow> ('w, error option \<times> 'o) io" where
  "api_update mk c x = lift_call (cUpdate c x) (\<lambda>r. Wrote UpdateVerb (mk x) (fst r))"

definition api_patch ::
  "('o \<Rightarrow> obj) \<Rightarrow> ('o, 'w) kind_client \<Rightarrow> 'o \<Rightarrow> 'o \<Rightarrow> ('w, error option \<times> 'o) io" where
  "api_patch mk c x base = lift_call (cPatch c x base) (\<lambda>r. Wrote PatchVerb (mk x) (fst r))"

definition api_status_update ::
  "('o \<Rightarrow> obj) \<Rightarrow> ('o, 'w) kind_client \<Rightarrow> 'o \<Rightarrow> ('w, error option \<times> 'o) io" where
  "api_status_update mk c x = lift_call (cStatusUpdate c x) (\<lambda>r. Wrote StatusVerb (mk x) (fst r))"

definition api_delete :: "('o \<Rightarrow> obj) \<Rightarrow> ('o, 'w) kind_client \<Rightarrow> 'o \<Rightarrow> ('w, error option) io" where
  "api_delete mk c x = lift_call (cDelete c x) (Wrote DeleteVerb (mk x))"

lemmas api_defs = api_get_def api_list_def api_create_def api_update_def api_patch_def
  api_status_update_def api_delete_def

lemmas run_api = api_defs run_lift_call run_note_call

section \<open>What a log says of an object\<close>

fun kind_of :: "obj \<Rightarrow> kind" where
  "kind_of (MCIObj _) = MCIKind"
| "kind_of (MCSObj _) = MCSKind"
| "kind_of (ServiceObj _) = ServiceKind"
| "kind_of (ExportObj _) = ExportKind"
| "kind_of (PolicyObj _) = PolicyKind"
| "kind_of (ClusterPolicyObj _) = ClusterPolicyKind"
| "kind_of (BindingObj _) = BindingKind"
| "kind_of (ClusterObj _) = ClusterKind"
| "kind_of (ClassObj _) = ClassKind"

definition is_obj :: "kind \<Rightarrow> key \<Rightarrow> obj \<Rightarrow> bool" where
  "is_obj kd k x \<longleftrightarrow> kind_of x = kd \<and> key_of (obj_meta x) = k"

lemma is_obj_cases:
  "is_obj MCIKind k x \<longleftrightarrow> (\<exists>y. x = MCIObj y \<and> key_of y = k)"
  "is_obj MCSKind k x \<longleftrightarrow> (\<exists>y. x = MCSObj y \<and> key_of y = k)"
  by (cases x; auto simp: is_obj_def)+

definition carries :: "string \<Rightarrow> obj \<Rightarrow> bool" where
  "carries f x \<longleftrightarrow> f \<in> set (Finalizers (obj_meta x))"

text \<open>
  Whether the current reconcile has made sure of finalizer \<open>f\<close> on object \<open>k\<close>: it read the
  object with it, or wrote it successfully, and has not written the object without it since.
  A status update does not write metadata.
\<close>

fun see_protected :: "kind \<Rightarrow> string \<Rightarrow> key \<Rightarrow> call \<Rightarrow> bool \<Rightarrow> bool" where
  "see_protected kd f k (Reconciling _ _) b = False"
| "see_protected kd f k (Got _ _ (Inr x)) b = (if is_obj kd k x \<and> carries f x then True else b)"
| "see_protected kd f k (Wrote v x None) b =
     (if is_obj kd k x \<and> v \<noteq> StatusVerb then carries f x else b)"
| "see_protected kd f k _ b = b"

definition protected :: "kind \<Rightarrow> string \<Rightarrow> key \<Rightarrow> call list \<Rightarrow> bool" where
  "protected kd f k l = fold (see_protected kd f k) l False"

text \<open>
  Whether the provider confirmed to the current reconcile that the load balancer of \<open>k\<close> is
  gone: its deletion succeeded, and nothing was created or updated for \<open>k\<close> since.
\<close>

fun see_gone :: "kind \<Rightarrow> key \<Rightarrow> call \<Rightarrow> bool \<Rightarrow> bool" where
  "see_gone kd k (Reconciling _ _) b = False"
| "see_gone kd k (LBDeleted x e) b = (if is_obj kd k x then e = None else b)"
| "see_gone kd k (LBEnsured x e) b = (if is_obj kd k x then False else b)"
| "see_gone kd k (LBUpdated x e) b = (if is_obj kd k x then False else b)"
| "see_gone kd k _ b = b"

definition gone :: "kind \<Rightarrow> key \<Rightarrow> call list \<Rightarrow> bool" where
  "gone kd k l = fold (see_gone kd k) l False"

text \<open>What the two say, without the fold.\<close>

fun starts :: "call \<Rightarrow> bool" where
  "starts (Reconciling _ _) = True"
| "starts _ = False"

fun makes_balancer :: "kind \<Rightarrow> key \<Rightarrow> call \<Rightarrow> bool" where
  "makes_balancer kd k (LBEnsured x _) = is_obj kd k x"
| "makes_balancer kd k (LBUpdated x _) = is_obj kd k x"
| "makes_balancer kd k _ = False"

fun leaves_out :: "kind \<Rightarrow> string \<Rightarrow> key \<Rightarrow> call \<Rightarrow> bool" where
  "leaves_out kd f k (Wrote v x None) \<longleftrightarrow> is_obj kd k x \<and> v \<noteq> StatusVerb \<and> \<not> carries f x"
| "leaves_out kd f k _ = False"

fun shows_finalizer :: "kind \<Rightarrow> string \<Rightarrow> key \<Rightarrow> call \<Rightarrow> bool" where
  "shows_finalizer kd f k (Got _ _ (Inr x)) \<longleftrightarrow> is_obj kd k x \<and> carries f x"
| "shows_finalizer kd f k (Wrote v x None) \<longleftrightarrow> is_obj kd k x \<and> v \<noteq> StatusVerb \<and> carries f x"
| "shows_finalizer kd f k _ = False"

lemma goneD:
  "gone kd k l \<Longrightarrow> \<exists>p y q. l = p @ LBDeleted y None # q \<and> is_obj kd k y \<and>
     (\<forall>c \<in> set q. \<not> starts c \<and> \<not> makes_balancer kd k c)"
proof (induction l rule: rev_induct)
  case (snoc c l)
  consider (here) y where "c = LBDeleted y None" "is_obj kd k y"
    | (before) "gone kd k l" "\<not> starts c" "\<not> makes_balancer kd k c"
    using snoc.prems by (cases c) (auto simp: gone_def split: if_splits)
  then show ?case
  proof cases
    case here
    then show ?thesis by fastforce
  next
    case before
    then obtain p y q where "l = p @ LBDeleted y None # q" "is_obj kd k y"
      "\<forall>c \<in> set q. \<not> starts c \<and> \<not> makes_balancer kd k c" using snoc.IH by blast
    then have "l @ [c] = p @ LBDeleted y None # (q @ [c])"
      and "\<forall>x \<in> set (q @ [c]). \<not> starts x \<and> \<not> makes_balancer kd k x"
      using before by auto
    then show ?thesis using \<open>is_obj kd k y\<close> by blast
  qed
qed (simp add: gone_def)

lemma protectedD:
  "protected kd f k l \<Longrightarrow> \<exists>p c0 q. l = p @ c0 # q \<and> shows_finalizer kd f k c0 \<and>
     (\<forall>c \<in> set q. \<not> starts c \<and> \<not> leaves_out kd f k c)"
proof (induction l rule: rev_induct)
  case (snoc c l)
  consider (here) "shows_finalizer kd f k c"
    | (before) "protected kd f k l" "\<not> starts c" "\<not> leaves_out kd f k c"
    using snoc.prems unfolding protected_def
    by (cases "(kd, f, k, c, fold (see_protected kd f k) l False)" rule: see_protected.cases)
      (auto split: if_splits)
  then show ?case
  proof cases
    case here
    then show ?thesis by fastforce
  next
    case before
    then obtain p c0 q where "l = p @ c0 # q" "shows_finalizer kd f k c0"
      "\<forall>c \<in> set q. \<not> starts c \<and> \<not> leaves_out kd f k c" using snoc.IH by blast
    then have "l @ [c] = p @ c0 # (q @ [c])"
      and "\<forall>x \<in> set (q @ [c]). \<not> starts x \<and> \<not> leaves_out kd f k x"
      using before by auto
    then show ?thesis using \<open>shows_finalizer kd f k c0\<close> by blast
  qed
qed (simp add: protected_def)

text \<open>
  Whether a call of the current reconcile failed for good: a List, a write of metadata or an
  operation of the provider returned an error. (A failed first Get ends the reconcile, a status
  update that conflicts is retried.)
\<close>

fun see_failed :: "call \<Rightarrow> bool \<Rightarrow> bool" where
  "see_failed (Reconciling _ _) b = False"
| "see_failed (Listed _ _ (Some _)) b = True"
| "see_failed (Wrote v _ (Some _)) b = (if v = StatusVerb then b else True)"
| "see_failed (LBGot _ _ (Some _)) b = True"
| "see_failed (LBEnsured _ (Some _)) b = True"
| "see_failed (LBUpdated _ (Some _)) b = True"
| "see_failed (LBDeleted _ (Some _)) b = True"
| "see_failed _ b = b"

definition failed :: "call list \<Rightarrow> bool" where
  "failed l = fold see_failed l False"

lemma log_state_append [log_simps]:
  "protected kd f k (l @ cs) = fold (see_protected kd f k) cs (protected kd f k l)"
  "gone kd k (l @ cs) = fold (see_gone kd k) cs (gone kd k l)"
  "failed (l @ cs) = fold see_failed cs (failed l)"
  by (simp_all add: protected_def gone_def failed_def)

section \<open>The finalizer protocol\<close>

text \<open>
  The two halves, for one call after the log so far. A write of the object's metadata that
  leaves the finalizer out comes only once the balancer is gone; the provider is asked to create
  or update a balancer only for an object that is protected.
\<close>

fun released_first :: "kind \<Rightarrow> string \<Rightarrow> call list \<Rightarrow> call \<Rightarrow> bool" where
  "released_first kd f l (Wrote v x e) =
     (if kind_of x = kd \<and> v \<noteq> StatusVerb \<and> \<not> carries f x
      then gone kd (key_of (obj_meta x)) l else True)"
| "released_first kd f l _ = True"

fun protected_first :: "kind \<Rightarrow> string \<Rightarrow> call list \<Rightarrow> call \<Rightarrow> bool" where
  "protected_first kd f l (LBEnsured x e) =
     (if kind_of x = kd then protected kd f (key_of (obj_meta x)) l else True)"
| "protected_first kd f l (LBUpdated x e) =
     (if kind_of x = kd then protected kd f (key_of (obj_meta x)) l else True)"
| "protected_first kd f l _ = True"

text \<open>
  The provider is asked to create a balancer only right after it reported that there is none,
  and to update one only right after it reported that there is one.
\<close>

fun asked_first :: "call list \<Rightarrow> call \<Rightarrow> bool" where
  "asked_first l (LBEnsured x e) \<longleftrightarrow> l \<noteq> [] \<and> last l = LBGot x False None"
| "asked_first l (LBUpdated x e) \<longleftrightarrow> l \<noteq> [] \<and> last l = LBGot x True None"
| "asked_first l _ \<longleftrightarrow> True"

definition allowed :: "kind \<Rightarrow> string \<Rightarrow> call list \<Rightarrow> call \<Rightarrow> bool" where
  "allowed kd f l c \<longleftrightarrow> released_first kd f l c \<and> protected_first kd f l c \<and> asked_first l c"

definition finalizer_protocol :: "kind \<Rightarrow> string \<Rightarrow> call list \<Rightarrow> bool" where
  "finalizer_protocol kd f = everywhere (allowed kd f)"

lemma finalizer_protocol_Nil [simp]: "finalizer_protocol kd f []"
  by (simp add: finalizer_protocol_def)

lemma finalizer_protocol_append [log_simps]:
  "finalizer_protocol kd f (l @ cs) \<longleftrightarrow> finalizer_protocol kd f l \<and> onward (allowed kd f) l cs"
  by (simp add: finalizer_protocol_def everywhere_append)

declare allowed_def [log_simps]

text \<open>
  The calls of the parts that only read and update a status: they change nothing of the above.
\<close>

fun quiet :: "call \<Rightarrow> bool" where
  "quiet (Got _ _ _) = True"
| "quiet (Wrote v _ _) = (v = StatusVerb)"
| "quiet _ = False"

lemma quiet_cases:
  assumes "quiet c"
  obtains (read) kd k x where "c = Got kd k (Inr x)" | (unread) kd k e where "c = Got kd k (Inl e)"
    | (status) x where "c = Wrote StatusVerb x None" | (no_status) x e where "c = Wrote StatusVerb x (Some e)"
proof (cases c)
  case (Got kd k r)
  then show ?thesis using that by (cases r) auto
next
  case (Wrote v x e)
  then show ?thesis using assms that by (cases e) auto
qed (use assms in auto)

lemma quiet_call:
  assumes "quiet c"
  shows "protected kd f k l \<Longrightarrow> protected kd f k (l @ [c])" and "gone kd k (l @ [c]) = gone kd k l"
    and "failed (l @ [c]) = failed l"
    and "finalizer_protocol kd f l \<Longrightarrow> finalizer_protocol kd f (l @ [c])"
  using assms by (cases c rule: quiet_cases; simp add: log_simps)+

definition quietly :: "call list \<Rightarrow> call list \<Rightarrow> bool" where
  "quietly l l' \<longleftrightarrow> (\<exists>qs. l' = l @ qs \<and> list_all quiet qs)"

lemma quietly_refl [simp]: "quietly l l"
  by (simp add: quietly_def)

lemma quietly_append [simp]: "quietly l (l @ qs) \<longleftrightarrow> list_all quiet qs"
  by (simp add: quietly_def)

lemma quietly_induct:
  assumes "quietly l l'" and "P l" and "\<And>l c. P l \<Longrightarrow> quiet c \<Longrightarrow> P (l @ [c])"
  shows "P l'"
proof -
  obtain qs where l': "l' = l @ qs" and qs: "list_all quiet qs"
    using assms(1) by (auto simp: quietly_def)
  from qs have "P (l @ qs)"
  proof (induction qs rule: rev_induct)
    case Nil
    then show ?case using assms(2) by simp
  next
    case (snoc c qs)
    then have "P ((l @ qs) @ [c])" by (intro assms(3)) auto
    then show ?case by simp
  qed
  then show ?thesis by (simp add: l')
qed

lemma quietly_keeps:
  assumes "quietly l l'"
  shows "protected kd f k l \<Longrightarrow> protected kd f k l'" and "gone kd k l' = gone kd k l"
    and "failed l' = failed l"
    and "finalizer_protocol kd f l \<Longrightarrow> finalizer_protocol kd f l'"
  using quietly_induct [OF assms, of "protected kd f k"]
    quietly_induct [OF assms, of "\<lambda>l'. gone kd k l' = gone kd k l"]
    quietly_induct [OF assms, of "\<lambda>l'. failed l' = failed l"]
    quietly_induct [OF assms, of "finalizer_protocol kd f"]
  by (simp_all add: quiet_call)

lemma quietly_trans: "quietly l l' \<Longrightarrow> quietly l' l'' \<Longrightarrow> quietly l l''"
  by (auto simp: quietly_def)

lemma retry_quietly:
  assumes "retry_ok retry" and "run_state (retry fn v) s = (r, s')"
    and step: "\<And>v s r s'. run_state (fn v) s = (r, s') \<Longrightarrow> quietly (calls s) (calls s')"
  shows "quietly (calls s) (calls s')"
proof -
  have "retry_run fn v s (r, s')"
    using assms(1,2) by (metis retry_ok_def)
  then have "quietly (calls s) (calls (snd (r, s')))"
    by (rule retry_run_invariant [where I = "\<lambda>v t. quietly (calls s) (calls t)"])
      (auto intro: quietly_trans dest: step)
  then show ?thesis by simp
qed

end
