(* ===== verification/Cloud.thy ===== *)
theory Cloud
  imports ApiClient
begin

text \<open>
  cloud.go: the interface of a cloud provider's load balancers, one record for
  \<open>LoadBalancer\<close> (objects are MultiClusterIngresses) and \<open>MCSLoadBalancer\<close> (objects are
  MultiClusterServices), with the contract its comments state as a locale. A status pointer is
  an option; an operation is an arbitrary function of the world outside.
\<close>

record ('o, 'w) balancer =
  GetBalancer :: "'o \<Rightarrow> 'w \<Rightarrow> (LoadBalancerStatus option \<times> bool \<times> error option) \<times> 'w"
  EnsureBalancer :: "'o \<Rightarrow> 'w \<Rightarrow> (LoadBalancerStatus option \<times> error option) \<times> 'w"
  UpdateBalancer :: "'o \<Rightarrow> 'w \<Rightarrow> (LoadBalancerStatus option \<times> error option) \<times> 'w"
  DeleteBalancer :: "'o \<Rightarrow> 'w \<Rightarrow> error option \<times> 'w"

definition lb_get ::
  "('o \<Rightarrow> obj) \<Rightarrow> ('o, 'w) balancer \<Rightarrow> 'o \<Rightarrow> ('w, LoadBalancerStatus option \<times> bool \<times> error option) io" where
  "lb_get mk b x = lift_call (GetBalancer b x) (\<lambda>r. LBGot (mk x) (fst (snd r)) (snd (snd r)))"

definition lb_ensure ::
  "('o \<Rightarrow> obj) \<Rightarrow> ('o, 'w) balancer \<Rightarrow> 'o \<Rightarrow> ('w, LoadBalancerStatus option \<times> error option) io" where
  "lb_ensure mk b x = lift_call (EnsureBalancer b x) (\<lambda>r. LBEnsured (mk x) (snd r))"

definition lb_update ::
  "('o \<Rightarrow> obj) \<Rightarrow> ('o, 'w) balancer \<Rightarrow> 'o \<Rightarrow> ('w, LoadBalancerStatus option \<times> error option) io" where
  "lb_update mk b x = lift_call (UpdateBalancer b x) (\<lambda>r. LBUpdated (mk x) (snd r))"

definition lb_delete :: "('o \<Rightarrow> obj) \<Rightarrow> ('o, 'w) balancer \<Rightarrow> 'o \<Rightarrow> ('w, error option) io" where
  "lb_delete mk b x = lift_call (DeleteBalancer b x) (LBDeleted (mk x))"

lemmas lb_defs = lb_get_def lb_ensure_def lb_update_def lb_delete_def

text \<open>The entry of the one operation that the provider's answer to Get calls for.\<close>

definition lb_entry :: "bool \<Rightarrow> obj \<Rightarrow> error option \<Rightarrow> call" where
  "lb_entry ex x e = (if ex then LBUpdated x e else LBEnsured x e)"

lemma run_lb_write:
  assumes "run_state ((if ex then lb_update else lb_ensure) mk b x) s = ((st, e), s')"
  shows "calls s' = calls s @ [lb_entry ex (mk x) e]"
  using assms by (auto simp: lb_entry_def lb_defs run_lift_call split: prod.splits if_splits)

lemma run_lb_get_calls:
  "run_state (lb_get mk b x) s = ((st, ex, e), s') \<Longrightarrow> calls s' = calls s @ [LBGot (mk x) ex e]"
  by (auto simp: lb_defs run_lift_call split: prod.splits)

lemma protocol_Listed:
  "finalizer_protocol kd f l \<Longrightarrow> finalizer_protocol kd f (l @ [Listed k opts e])"
  "protected kd f k' (l @ [Listed k opts e]) = protected kd f k' l"
  "failed (l @ [Listed k opts e]) = (failed l \<or> e \<noteq> None)"
  by (cases e; simp add: log_simps)+

text \<open>Asking the provider and then doing what its answer calls for is allowed for a protected object.\<close>

lemma protocol_sync:
  assumes "finalizer_protocol kd f l" and "protected kd f (key_of (obj_meta x)) l"
  shows "finalizer_protocol kd f (l @ [LBGot x ex e])"
    and "finalizer_protocol kd f (l @ [LBGot x ex None, lb_entry ex x e3])"
  using assms by (simp_all add: log_simps lb_entry_def)

lemma failed_sync:
  "failed (l @ [LBGot x ex None, lb_entry ex x e3]) \<longleftrightarrow> failed l \<or> e3 \<noteq> None"
  "failed (l @ [LBGot x ex e2]) \<longleftrightarrow> failed l \<or> e2 \<noteq> None"
  by (cases e3; cases e2; simp add: log_simps lb_entry_def)+

section \<open>The contract\<close>

text \<open>
  \<open>has w k\<close> says that the provider holds a load balancer under the name \<open>k\<close> in world \<open>w\<close>, and
  \<open>name x\<close> is the name under which it keeps the balancer of object \<open>x\<close>. Get reports whether the
  balancer exists, Ensure creates it, Update changes an existing one, Delete removes it if it
  exists; none touches another object's balancer, and a status comes with every success.
\<close>

locale load_balancer =
  fixes b :: "('o, 'w) balancer"
    and has :: "'w \<Rightarrow> 'k \<Rightarrow> bool"
    and name :: "'o \<Rightarrow> 'k"
  assumes get_keeps: "GetBalancer b x w = (r, w') \<Longrightarrow> has w' k \<longleftrightarrow> has w k"
    and get_reports: "GetBalancer b x w = ((st, ex, None), w') \<Longrightarrow> ex \<longleftrightarrow> has w (name x)"
    and ensure_makes: "EnsureBalancer b x w = ((st, None), w') \<Longrightarrow> has w' (name x)"
    and ensure_frame: "EnsureBalancer b x w = (q, w') \<Longrightarrow> k \<noteq> name x \<Longrightarrow> has w' k \<longleftrightarrow> has w k"
    and ensure_status: "EnsureBalancer b x w = ((st, None), w') \<Longrightarrow> st \<noteq> None"
    and update_keeps: "UpdateBalancer b x w = (q, w') \<Longrightarrow> has w' k \<longleftrightarrow> has w k"
    and update_needs: "UpdateBalancer b x w = ((st, None), w') \<Longrightarrow> has w (name x)"
    and update_status: "UpdateBalancer b x w = ((st, None), w') \<Longrightarrow> st \<noteq> None"
    and delete_removes: "DeleteBalancer b x w = (None, w') \<Longrightarrow> \<not> has w' (name x)"
    and delete_frame: "DeleteBalancer b x w = (e, w') \<Longrightarrow> k \<noteq> name x \<Longrightarrow> has w' k \<longleftrightarrow> has w k"
begin

text \<open>
  What a controller may rely on after one call: the operations by name, with the balancer they
  are about and every other one.
\<close>

lemma run_lb_get:
  assumes "run_state (lb_get mk b x) s = ((st, ex, e), s')"
  shows "has (env s') k \<longleftrightarrow> has (env s) k" and "e = None \<Longrightarrow> ex \<longleftrightarrow> has (env s) (name x)"
  using assms get_keeps get_reports
  by (auto simp: lb_get_def run_lift_call split: prod.splits)

lemma run_lb_ensure:
  assumes "run_state (lb_ensure mk b x) s = ((st, e), s')"
  shows "e = None \<Longrightarrow> has (env s') (name x) \<and> st \<noteq> None"
    and "k \<noteq> name x \<Longrightarrow> has (env s') k \<longleftrightarrow> has (env s) k"
proof -
  obtain w' where w': "EnsureBalancer b x (env s) = ((st, e), w')" "env s' = w'"
    using assms by (auto simp: lb_ensure_def run_lift_call split: prod.splits)
  then show "e = None \<Longrightarrow> has (env s') (name x) \<and> st \<noteq> None"
    using ensure_makes ensure_status by metis
  show "k \<noteq> name x \<Longrightarrow> has (env s') k \<longleftrightarrow> has (env s) k"
    using w' ensure_frame by metis
qed

lemma run_lb_update:
  assumes "run_state (lb_update mk b x) s = ((st, e), s')"
  shows "e = None \<Longrightarrow> has (env s) (name x) \<and> st \<noteq> None"
    and "has (env s') k \<longleftrightarrow> has (env s) k"
proof -
  obtain w' where w': "UpdateBalancer b x (env s) = ((st, e), w')" "env s' = w'"
    using assms by (auto simp: lb_update_def run_lift_call split: prod.splits)
  then show "e = None \<Longrightarrow> has (env s) (name x) \<and> st \<noteq> None"
    using update_needs update_status by metis
  show "has (env s') k \<longleftrightarrow> has (env s) k"
    using w' update_keeps by metis
qed

lemma run_lb_delete:
  assumes "run_state (lb_delete mk b x) s = (e, s')"
  shows "e = None \<Longrightarrow> \<not> has (env s') (name x)"
    and "k \<noteq> name x \<Longrightarrow> has (env s') k \<longleftrightarrow> has (env s) k"
  using assms delete_removes delete_frame
  by (auto simp: lb_delete_def run_lift_call split: prod.splits)

end

text \<open>
  A provider that goes by the key of an object: a newer version of the object has the same
  balancer. The two calls with which both controllers bring a balancer up to date, one lemma for
  both.
\<close>

locale keyed_balancer = load_balancer b has name
  for b :: "('x ObjectMeta_scheme, 'w) balancer" and has :: "'w \<Rightarrow> 'k \<Rightarrow> bool" and name +
  assumes name_key: "key_of x = key_of y \<Longrightarrow> name x = name y"
begin

lemma run_get_then_write:
  assumes "run_state (lb_get mk b x) s = ((st0, ex, None), s1)"
    and "run_state ((if ex then lb_update else lb_ensure) mk b x) s1 = ((st, e), s2)"
  shows "e = None \<Longrightarrow> has (env s2) (name x) \<and> st \<noteq> None"
    and "k \<noteq> name x \<Longrightarrow> has (env s2) k \<longleftrightarrow> has (env s) k"
  using run_lb_get [OF assms(1)] run_lb_update run_lb_ensure assms(2)
  by (cases ex; simp; metis)+

end

section \<open>What the client leaves alone\<close>

text \<open>
  Calls of the Kubernetes API do not change what the cloud holds: \<open>view\<close> of the world is the
  same after any call on this kind of object.
\<close>

definition leaves :: "('w \<Rightarrow> 'v) \<Rightarrow> ('w \<Rightarrow> 'r \<times> 'w) \<Rightarrow> bool" where
  "leaves view f \<longleftrightarrow> (\<forall>w. view (snd (f w)) = view w)"

definition client_leaves :: "('w \<Rightarrow> 'v) \<Rightarrow> ('o, 'w) kind_client \<Rightarrow> bool" where
  "client_leaves view c \<longleftrightarrow>
     (\<forall>k. leaves view (cGet c k)) \<and> (\<forall>opts. leaves view (cList c opts)) \<and>
     (\<forall>x. leaves view (cCreate c x)) \<and> (\<forall>x. leaves view (cUpdate c x)) \<and>
     (\<forall>x y. leaves view (cPatch c x y)) \<and> (\<forall>x. leaves view (cStatusUpdate c x)) \<and>
     (\<forall>x. leaves view (cDelete c x))"

lemma run_lift_call_view:
  assumes "leaves view f" and "run_state (lift_call f entry) s = (r, s')"
  shows "view (env s') = view (env s)"
  using assms by (auto simp: leaves_def run_lift_call split: prod.splits) (metis snd_conv)

lemma api_view:
  assumes "client_leaves view c"
  shows "run_state (api_get kd mk c k) s = (r, s') \<Longrightarrow> view (env s') = view (env s)"
    and "run_state (api_list kd c opts) s = (rs, s') \<Longrightarrow> view (env s') = view (env s)"
    and "run_state (api_create mk c x) s = (u, s') \<Longrightarrow> view (env s') = view (env s)"
    and "run_state (api_update mk c x) s = (u, s') \<Longrightarrow> view (env s') = view (env s)"
    and "run_state (api_patch mk c x y) s = (u, s') \<Longrightarrow> view (env s') = view (env s)"
    and "run_state (api_status_update mk c x) s = (u, s') \<Longrightarrow> view (env s') = view (env s)"
    and "run_state (api_delete mk c x) s = (e, s') \<Longrightarrow> view (env s') = view (env s)"
  using assms unfolding api_defs client_leaves_def by (metis run_lift_call_view)+

lemma client_leavesD:
  assumes "client_leaves view c"
  shows "cGet c k w = (r, w') \<Longrightarrow> view w' = view w"
    and "cList c opts w = (rs, w') \<Longrightarrow> view w' = view w"
  using assms unfolding client_leaves_def leaves_def by (metis snd_conv)+

text \<open>A retry of attempts that leave the view alone leaves it alone.\<close>

lemma retry_view:
  assumes "retry_ok retry" and "run_state (retry fn v) s = ((e, v'), s')"
    and "\<And>v s e v' s'. run_state (fn v) s = ((e, v'), s') \<Longrightarrow> view (env s') = view (env s)"
  shows "view (env s') = view (env s)"
  by (rule retry_invariant [where I = "\<lambda>v t. view (env t) = view (env s)", OF assms(1,2)])
    (auto dest: assms(3))

end
