(* ===== verification/Assertions.thy ===== *)
theory Assertions
  imports Cloud
begin

text \<open>
  Assertions about the state of the outside before and after an operation, with the rules by which
  those of an operation follow from those of its calls; and the life of a controller next to
  others that move on their own.
\<close>

section \<open>Operations between assertions\<close>

definition between ::
  "('w \<Rightarrow> bool) \<Rightarrow> (('w, 'c) world, 'a) state \<Rightarrow> ('a \<Rightarrow> 'w \<Rightarrow> bool) \<Rightarrow> bool" where
  "between P m Q \<longleftrightarrow> (\<forall>s. P (env s) \<longrightarrow> (case run_state m s of (r, s') \<Rightarrow> Q r (env s')))"

named_theorems assertion_rules \<open>how assertions pass through the operations of the monad\<close>

lemma betweenI:
  "(\<And>s r s'. P (env s) \<Longrightarrow> run_state m s = (r, s') \<Longrightarrow> Q r (env s')) \<Longrightarrow> between P m Q"
  by (auto simp: between_def split: prod.splits)

lemma betweenD: "between P m Q \<Longrightarrow> run_state m s = (r, s') \<Longrightarrow> P (env s) \<Longrightarrow> Q r (env s')"
  by (auto simp: between_def split: prod.splits)

lemma between_consequence:
  assumes "between P m Q" and "\<And>w. P' w \<Longrightarrow> P w" and "\<And>r w. Q r w \<Longrightarrow> Q' r w"
  shows "between P' m Q'"
  using assms by (fastforce simp: between_def split: prod.splits)

lemma between_ret [assertion_rules]: "(\<And>w. P w \<Longrightarrow> Q x w) \<Longrightarrow> between P (ret x) Q"
  by (simp add: between_def)

lemma between_note [assertion_rules]: "(\<And>w. P w \<Longrightarrow> Q () w) \<Longrightarrow> between P (note_call c) Q"
  by (simp add: between_def run_note_call)

lemma between_bind:
  "between P m R \<Longrightarrow> (\<And>x. between (R x) (n x) Q) \<Longrightarrow> between P (m \<bind> n) Q"
  by (fastforce simp: between_def split: prod.splits)

lemma between_call:
  "(\<And>w r w'. P w \<Longrightarrow> f w = (r, w') \<Longrightarrow> Q r w') \<Longrightarrow> between P (lift_call f entry) Q"
  by (auto simp: between_def run_lift_call split: prod.splits)

lemma between_if [assertion_rules]:
  "(b \<Longrightarrow> between P m Q) \<Longrightarrow> (\<not> b \<Longrightarrow> between P n Q) \<Longrightarrow> between P (if b then m else n) Q"
  by simp

lemma between_cases [assertion_rules]:
  "(\<And>a b. x = (a, b) \<Longrightarrow> between P (f a b) Q) \<Longrightarrow> between P (case x of (a, b) \<Rightarrow> f a b) Q"
  "(\<And>e. y = Inl e \<Longrightarrow> between P (g e) Q) \<Longrightarrow> (\<And>v. y = Inr v \<Longrightarrow> between P (h v) Q)
    \<Longrightarrow> between P (case y of Inl e \<Rightarrow> g e | Inr v \<Rightarrow> h v) Q"
  "(z = None \<Longrightarrow> between P m Q) \<Longrightarrow> (\<And>v. z = Some v \<Longrightarrow> between P (k v) Q)
    \<Longrightarrow> between P (case z of None \<Rightarrow> m | Some v \<Rightarrow> k v) Q"
  by (auto split: prod.splits sum.splits option.splits)

lemma between_let [assertion_rules]: "between P (f x) Q \<Longrightarrow> between P (let y = x in f y) Q"
  by simp

section \<open>Invariants\<close>

abbreviation maintains :: "('w \<Rightarrow> bool) \<Rightarrow> (('w, 'c) world, 'a) state \<Rightarrow> bool" where
  "maintains I m \<equiv> between I m (\<lambda>_. I)"

lemma maintains_bind [assertion_rules]:
  "maintains I m \<Longrightarrow> (\<And>x. maintains I (n x)) \<Longrightarrow> maintains I (m \<bind> n)"
  by (rule between_bind)

lemma maintains_call: "(\<And>w. I w \<Longrightarrow> I (snd (f w))) \<Longrightarrow> maintains I (lift_call f entry)"
  by (rule between_call) (metis snd_conv)

lemma maintains_retry:
  assumes "retry_ok retry" and "\<And>v. maintains I (fn v)"
  shows "maintains I (retry fn v)"
proof (rule betweenI)
  fix s r s'
  assume "I (env s)" and run: "run_state (retry fn v) s = (r, s')"
  moreover obtain e v' where "r = (e, v')" by fastforce
  ultimately show "I (env s')"
    using retry_invariant [OF assms(1), where I = "\<lambda>v t. I (env t)"] betweenD [OF assms(2)] by blast
qed

section \<open>Life among others\<close>

text \<open>
  A controller starts in some state \<open>init\<close> allows, and from then on a reconcile runs, or others
  move as \<open>others\<close> says.
\<close>

inductive life_among ::
  "('w \<Rightarrow> bool) \<Rightarrow> ('m \<Rightarrow> 'w \<Rightarrow> 'w) \<Rightarrow> ('q \<Rightarrow> (('w, 'c) world, 'r) state) \<Rightarrow> ('w, 'c) world \<Rightarrow> bool"
  for init others reconcile where
  start: "init w \<Longrightarrow> life_among init others reconcile \<lparr>env = w, calls = []\<rparr>"
| handle: "life_among init others reconcile s \<Longrightarrow>
    life_among init others reconcile (snd (run_state (reconcile q) s))"
| outside: "life_among init others reconcile s \<Longrightarrow>
    life_among init others reconcile (s\<lparr>env := others m (env s)\<rparr>)"

text \<open>What holds at the start and is kept by every reconcile and by the others holds for life.\<close>

locale invariant_among =
  fixes init :: "'w \<Rightarrow> bool" and others :: "'m \<Rightarrow> 'w \<Rightarrow> 'w"
    and reconcile :: "'q \<Rightarrow> (('w, 'c) world, 'r) state" and inv :: "'w \<Rightarrow> bool"
  assumes inv_init: "init w \<Longrightarrow> inv w"
    and inv_others: "inv w \<Longrightarrow> inv (others m w)"
    and inv_reconcile: "maintains inv (reconcile q)"
begin

lemma life_inv: "life_among init others reconcile s \<Longrightarrow> inv (env s)"
proof (induction rule: life_among.induct)
  case (handle s q)
  obtain r s' where run: "run_state (reconcile q) s = (r, s')" by fastforce
  show ?case using betweenD [OF inv_reconcile run handle.IH] by (simp add: run)
qed (simp_all add: inv_init inv_others)

end

section \<open>Objects shared with others\<close>

text \<open>
  What a controller relies on when it shares objects of a kind with others, through a cache that
  may lag behind. \<open>held w k\<close> says that an object with key \<open>k\<close> is stored and carries the
  controller's finalizer, \<open>seen w x\<close> that the cache has got as far as the version \<open>x\<close>, \<open>ok\<close> is an
  invariant of the server and its cache, and \<open>wanted x\<close> says that the controller would keep the
  finalizer on \<open>x\<close>.

  No call of the controller lets go of an object that is held, except the update that leaves the
  finalizer out; an accepted write of the finalizer makes the object held; and what the cache shows
  as wanted and with the finalizer is held, however old, unless the controller let go of a version
  it had not seen.
\<close>

definition steady ::
  "('w \<Rightarrow> bool) \<Rightarrow> ('w \<Rightarrow> key \<Rightarrow> bool) \<Rightarrow> ('w \<Rightarrow> 'o \<Rightarrow> bool) \<Rightarrow> ('w \<Rightarrow> 'r \<times> 'w) \<Rightarrow> bool" where
  "steady ok held seen f \<longleftrightarrow> (\<forall>w r w'. ok w \<longrightarrow> f w = (r, w') \<longrightarrow>
     ok w' \<and> (\<forall>k. held w k \<longrightarrow> held w' k) \<and> (\<forall>x. seen w x \<longrightarrow> seen w' x))"

lemma steadyD:
  assumes "steady ok held seen f" and "f w = (r, w')" and "ok w"
  shows "ok w'" and "held w k \<Longrightarrow> held w' k" and "seen w x \<Longrightarrow> seen w' x"
  using assms unfolding steady_def by blast+

locale shared_objects =
  fixes ok :: "'w \<Rightarrow> bool" and held :: "'w \<Rightarrow> key \<Rightarrow> bool" and seen :: "'w \<Rightarrow> 'x ObjectMeta_scheme \<Rightarrow> bool"
    and wanted :: "'x ObjectMeta_scheme \<Rightarrow> bool" and fin :: string
    and c :: "('x ObjectMeta_scheme, 'w) kind_client"
  assumes get_steady: "steady ok held seen (cGet c k)"
    and status_steady: "steady ok held seen (cStatusUpdate c x)"
    and patch_steady: "fin \<in> set (Finalizers x) \<Longrightarrow> steady ok held seen (cPatch c x base)"
    and update_steady: "fin \<in> set (Finalizers x) \<Longrightarrow> steady ok held seen (cUpdate c x)"
    and get_seen: "ok w \<Longrightarrow> cGet c k w = (Inr x, w') \<Longrightarrow> key_of x = k \<and> seen w' x"
    and get_held: "ok w \<Longrightarrow> cGet c k w = (Inr x, w') \<Longrightarrow> wanted x \<Longrightarrow> fin \<in> set (Finalizers x) \<Longrightarrow> held w' k"
    and patch_held: "ok w \<Longrightarrow> fin \<in> set (Finalizers x) \<Longrightarrow> fin \<notin> set (Finalizers base) \<Longrightarrow>
      cPatch c x base w = ((None, y), w') \<Longrightarrow> held w' (key_of x)"
    and update_held: "ok w \<Longrightarrow> fin \<in> set (Finalizers x) \<Longrightarrow> cUpdate c x w = ((None, y), w') \<Longrightarrow>
      held w' (key_of x) \<and> key_of y = key_of x"
    and let_go: "ok w \<Longrightarrow> seen w x \<Longrightarrow> \<not> wanted x \<Longrightarrow> cUpdate c (x\<lparr>Finalizers := fs\<rparr>) w = (r, w') \<Longrightarrow>
      ok w' \<and> (\<forall>k. k \<noteq> key_of x \<longrightarrow> held w k \<longrightarrow> held w' k)"

section \<open>Balancers that belong to somebody\<close>

text \<open>
  \<open>guarded K w\<close>: every load balancer of the provider belongs to a stored object that carries the
  finalizer, and the objects \<open>K\<close> are stored with it.
\<close>

definition guarded ::
  "('w \<Rightarrow> bool) \<Rightarrow> ('w \<Rightarrow> key \<Rightarrow> bool) \<Rightarrow> ('w \<Rightarrow> 'k \<Rightarrow> bool) \<Rightarrow> (key \<Rightarrow> 'k) \<Rightarrow> key set \<Rightarrow> 'w \<Rightarrow> bool" where
  "guarded ok held has own K w \<longleftrightarrow>
     ok w \<and> (\<forall>n. has w n \<longrightarrow> (\<exists>k. own k = n \<and> held w k)) \<and> (\<forall>k \<in> K. held w k)"

lemma guarded_step:
  assumes "guarded ok held has own K w" and "steady ok held seen f" and "f w = (r, w')"
    and "\<And>n. has w' n \<Longrightarrow> \<not> has w n \<Longrightarrow> \<exists>k \<in> K. own k = n"
  shows "guarded ok held has own K w'"
proof -
  have "ok w'" "\<And>k. held w k \<Longrightarrow> held w' k"
    using assms(1-3) by (auto simp: guarded_def steady_def)
  then show ?thesis using assms(1,4) unfolding guarded_def by blast
qed

text \<open>
  A controller's objects, shared with others, and a provider whose operations leave the objects
  alone and whose deletions, failed ones included, create nothing.
\<close>

locale guarded_balancers =
  shared_objects ok held seen wanted fin c + keyed_balancer b has "\<lambda>x. own (key_of x)"
  for ok :: "'w \<Rightarrow> bool" and held and seen and wanted :: "'x ObjectMeta_scheme \<Rightarrow> bool" and fin and c
    and b :: "('x ObjectMeta_scheme, 'w) balancer" and has :: "'w \<Rightarrow> 'k \<Rightarrow> bool" and own :: "key \<Rightarrow> 'k" +
  assumes calls_leave: "client_leaves has c"
    and provider_steady: "steady ok held seen (GetBalancer b x)" "steady ok held seen (EnsureBalancer b x)"
      "steady ok held seen (UpdateBalancer b x)" "steady ok held seen (DeleteBalancer b x)"
    and delete_only: "DeleteBalancer b x w = (e, w') \<Longrightarrow> has w' n \<Longrightarrow> has w n"
begin

abbreviation safe :: "key set \<Rightarrow> 'w \<Rightarrow> bool" where
  "safe \<equiv> guarded ok held has own"

lemma maintains_steady:
  assumes "steady ok held seen f" and "\<And>w r w' n. f w = (r, w') \<Longrightarrow> has w' n \<Longrightarrow> \<not> has w n \<Longrightarrow> n \<in> own ` K"
  shows "maintains (safe K) (lift_call f entry)"
proof (rule between_call)
  fix w r w'
  assume w: "safe K w" "f w = (r, w')"
  show "safe K w'"
    by (rule guarded_step [OF w(1) assms(1) w(2)]) (use assms(2) [OF w(2)] in auto)
qed

lemma leaving:
  "client_leaves has c \<Longrightarrow> cGet c k w = (r1, w1) \<Longrightarrow> has w1 = has w"
  "client_leaves has c \<Longrightarrow> cStatusUpdate c x w = (r2, w2) \<Longrightarrow> has w2 = has w"
  "client_leaves has c \<Longrightarrow> cPatch c x y w = (r2, w2) \<Longrightarrow> has w2 = has w"
  "client_leaves has c \<Longrightarrow> cUpdate c x w = (r2, w2) \<Longrightarrow> has w2 = has w"
  unfolding client_leaves_def leaves_def by (metis snd_conv)+

text \<open>The calls of a reconcile, one rule each.\<close>

lemma safe_calls [assertion_rules]:
  "maintains (safe K) (api_get kd mk c k)"
  "maintains (safe K) (api_status_update mk c x)"
  "maintains (safe K) (lb_get mk b x)"
  "maintains (safe K) (lb_update mk b x)"
  "key_of x \<in> K \<Longrightarrow> maintains (safe K) (lb_ensure mk b x)"
  unfolding api_defs lb_defs
  by (rule maintains_steady, rule get_steady status_steady provider_steady,
      metis leaving(1,2) [OF calls_leave] get_keeps update_keeps ensure_frame imageI)+

text \<open>An accepted write of the finalizer puts the object under guard.\<close>

lemma safe_patch:
  assumes "fin \<in> set (Finalizers x)" and "fin \<notin> set (Finalizers base)"
  shows "between (safe K) (api_patch mk c x base)
    (\<lambda>r w. safe K w \<and> (fst r = None \<longrightarrow> safe (insert (key_of x) K) w))"
  unfolding api_defs
proof (rule between_call)
  fix w r w'
  assume w: "safe K w" "cPatch c x base w = (r, w')"
  have "safe K w'"
    by (rule guarded_step [OF w(1) patch_steady [OF assms(1)] w(2)]) (simp add: leaving(3) [OF calls_leave w(2)])
  moreover have "held w' (key_of x)" if "fst r = None"
    using patch_held [OF _ assms, of w "snd r" w'] w that
    by (metis guarded_def prod.collapse)
  ultimately show "safe K w' \<and> (fst r = None \<longrightarrow> safe (insert (key_of x) K) w')"
    by (auto simp: guarded_def)
qed

lemma safe_update:
  assumes "fin \<in> set (Finalizers x)"
  shows "between (safe K) (api_update mk c x)
    (\<lambda>r w. safe K w \<and> (fst r = None \<longrightarrow> safe (insert (key_of x) K) w \<and> key_of (snd r) = key_of x))"
  unfolding api_defs
proof (rule between_call)
  fix w r w'
  assume w: "safe K w" "cUpdate c x w = (r, w')"
  have "safe K w'"
    by (rule guarded_step [OF w(1) update_steady [OF assms] w(2)]) (simp add: leaving(4) [OF calls_leave w(2)])
  moreover have "held w' (key_of x) \<and> key_of (snd r) = key_of x" if "fst r = None"
    using update_held [OF _ assms, of w "snd r" w'] w that
    by (metis guarded_def prod.collapse)
  ultimately show "safe K w' \<and>
      (fst r = None \<longrightarrow> safe (insert (key_of x) K) w' \<and> key_of (snd r) = key_of x)"
    by (auto simp: guarded_def)
qed

text \<open>The provider is asked, and the cache does not fall back.\<close>

lemma safe_lb_get_seen: "maintains (\<lambda>w. safe K w \<and> seen w x) (lb_get mk b y)"
proof (rule betweenI)
  fix s r s'
  assume s: "safe K (env s) \<and> seen (env s) x" and run: "run_state (lb_get mk b y) s = (r, s')"
  obtain w' where "GetBalancer b y (env s) = (r, w')" "env s' = w'"
    using run by (auto simp: lb_defs run_lift_call split: prod.splits)
  then have "seen (env s') x" using steadyD(3) [OF provider_steady(1)] s by (simp add: guarded_def)
  then show "safe K (env s') \<and> seen (env s') x" using betweenD [OF safe_calls(3) run] s by blast
qed

text \<open>What a read shows.\<close>

lemma safe_get:
  "between (safe {}) (api_get kd mk c k) (\<lambda>r w. safe {} w \<and> (\<forall>x. r = Inr x \<longrightarrow> key_of x = k \<and> seen w x \<and>
     (wanted x \<longrightarrow> fin \<in> set (Finalizers x) \<longrightarrow> safe {k} w)))"
  unfolding api_defs
proof (rule between_call)
  fix w r w'
  assume w: "safe {} w" "cGet c k w = (r, w')"
  have safe: "safe {} w'"
    by (rule guarded_step [OF w(1) get_steady w(2)]) (simp add: leaving(1) [OF calls_leave w(2)])
  have ok: "ok w" using w(1) by (simp add: guarded_def)
  show "safe {} w' \<and> (\<forall>x. r = Inr x \<longrightarrow> key_of x = k \<and> seen w' x \<and>
     (wanted x \<longrightarrow> fin \<in> set (Finalizers x) \<longrightarrow> safe {k} w'))"
    using safe get_seen [OF ok, of k _ w'] get_held [OF ok, of k _ w'] w(2) unfolding guarded_def by blast
qed

text \<open>The release: the balancer goes first, and then the finalizer of an object not wanted.\<close>

lemma safe_delete:
  "between (\<lambda>w. safe K w \<and> seen w x) (lb_delete mk b x)
    (\<lambda>e w. safe K w \<and> seen w x \<and> (e = None \<longrightarrow> \<not> has w (own (key_of x))))"
  unfolding lb_defs
proof (rule between_call)
  fix w e w'
  assume w: "safe K w \<and> seen w x" "DeleteBalancer b x w = (e, w')"
  have "safe K w'"
    by (rule guarded_step [OF conjunct1 [OF w(1)] provider_steady(4) w(2)]) (use delete_only [OF w(2)] in blast)
  moreover have "seen w' x"
    using steadyD(3) [OF provider_steady(4) w(2)] w(1) by (simp add: guarded_def)
  ultimately show "safe K w' \<and> seen w' x \<and> (e = None \<longrightarrow> \<not> has w' (own (key_of x)))"
    using w(2) delete_removes by blast
qed

lemma safe_release:
  assumes "\<not> wanted x"
  shows "between (\<lambda>w. safe {} w \<and> seen w x \<and> \<not> has w (own (key_of x)))
    (api_update mk c (x\<lparr>Finalizers := fs\<rparr>)) (\<lambda>_. safe {})"
  unfolding api_defs
proof (rule between_call)
  fix w r w'
  assume w: "safe {} w \<and> seen w x \<and> \<not> has w (own (key_of x))" "cUpdate c (x\<lparr>Finalizers := fs\<rparr>) w = (r, w')"
  then have "ok w" "seen w x" by (simp_all add: guarded_def)
  note go = let_go [OF this assms w(2)] and has = leaving(4) [OF calls_leave w(2)]
  then show "safe {} w'"
    using w(1) unfolding guarded_def has by (metis ball_empty)
qed

end

end
