(* ===== verification/Indexes.thy ===== *)
theory Indexes
  imports ApiClient
begin

text \<open>
  pkg/controllers/indexes/reference_indexer.go: the names of the services and secrets a
  MultiClusterIngress refers to, and their registration as field indexes of the cache.
\<close>

definition IndexKeyServiceRefName :: string where
  "IndexKeyServiceRefName = ''mci.serviceRef.name''"

definition IndexKeySecretRefName :: string where
  "IndexKeySecretRefName = ''mci.secretRef.name''"

text \<open>The backends of the rules that have an HTTP part, in the order of the two loops.\<close>

fun rule_backends :: "IngressRule list \<Rightarrow> IngressBackend list" where
  "rule_backends [] = []"
| "rule_backends (rule # rules) =
     (case RuleHTTP rule of
        None \<Rightarrow> rule_backends rules
      | Some paths \<Rightarrow> map PathBackend (elems paths) @ rule_backends rules)"

definition spec_backends :: "IngressSpec \<Rightarrow> IngressBackend list" where
  "spec_backends spec =
     (case DefaultBackend spec of None \<Rightarrow> [] | Some b \<Rightarrow> [b]) @ rule_backends (elems (Rules spec))"

text \<open>
  \<open>backend.Service.Name\<close> for each backend. A backend that names a resource instead of a
  service has a nil \<open>Service\<close>, and the read panics: the result is then \<open>None\<close>.
\<close>

fun backend_names :: "IngressBackend list \<Rightarrow> string list option" where
  "backend_names [] = Some []"
| "backend_names (b # bs) =
     (case BackendService b of
        None \<Rightarrow> None
      | Some svc \<Rightarrow> map_option ((#) (ServiceName svc)) (backend_names bs))"

definition BuildServiceRefIndexes :: "deps \<Rightarrow> MultiClusterIngress \<Rightarrow> string list option" where
  "BuildServiceRefIndexes d mci =
     map_option (SetsList d) (backend_names (spec_backends (mciSpec mci)))"

definition BuildSecretRefIndexes :: "deps \<Rightarrow> MultiClusterIngress \<Rightarrow> string list" where
  "BuildSecretRefIndexes d mci = SetsList d (map SecretName (elems (TLS (mciSpec mci))))"

text \<open>
  The registration. \<open>indexField\<close> is the field indexer's \<open>IndexField\<close>: it takes the key and the
  function that computes an object's index values.
\<close>

type_synonym 'w field_indexer =
  "string \<Rightarrow> (MultiClusterIngress \<Rightarrow> string list option) \<Rightarrow> 'w \<Rightarrow> error option \<times> 'w"

definition SetupServiceIndexesForMCI :: "deps \<Rightarrow> 'w field_indexer \<Rightarrow> 'w \<Rightarrow> error option \<times> 'w" where
  "SetupServiceIndexesForMCI d indexField w =
     (case indexField IndexKeyServiceRefName (BuildServiceRefIndexes d) w of
        (Some e, w') \<Rightarrow> (Some e, w')
      | (None, w') \<Rightarrow> (None, w'))"

definition SetupSecretIndexesForMCI :: "deps \<Rightarrow> 'w field_indexer \<Rightarrow> 'w \<Rightarrow> error option \<times> 'w" where
  "SetupSecretIndexesForMCI d indexField w =
     (case indexField IndexKeySecretRefName (Some \<circ> BuildSecretRefIndexes d) w of
        (Some e, w') \<Rightarrow> (Some e, w')
      | (None, w') \<Rightarrow> (None, w'))"

section \<open>What the indexes mean\<close>

text \<open>A backend of the ingress: the default one, or that of a path of an HTTP rule.\<close>

definition has_backend :: "MultiClusterIngress \<Rightarrow> IngressBackend \<Rightarrow> bool" where
  "has_backend mci b \<longleftrightarrow>
     DefaultBackend (mciSpec mci) = Some b \<or>
     (\<exists>rule paths path. rule \<in> set (elems (Rules (mciSpec mci))) \<and> RuleHTTP rule = Some paths \<and>
        path \<in> set (elems paths) \<and> PathBackend path = b)"

definition refers_to_service :: "MultiClusterIngress \<Rightarrow> string \<Rightarrow> bool" where
  "refers_to_service mci n \<longleftrightarrow>
     (\<exists>b svc. has_backend mci b \<and> BackendService b = Some svc \<and> ServiceName svc = n)"

definition only_services :: "MultiClusterIngress \<Rightarrow> bool" where
  "only_services mci \<longleftrightarrow> (\<nexists>b. has_backend mci b \<and> BackendService b = None)"

lemma rule_backends_iff:
  "b \<in> set (rule_backends rules) \<longleftrightarrow>
     (\<exists>rule paths path. rule \<in> set rules \<and> RuleHTTP rule = Some paths \<and>
        path \<in> set (elems paths) \<and> PathBackend path = b)"
  by (induction rules) (auto split: option.splits)

lemma spec_backends_iff: "b \<in> set (spec_backends (mciSpec mci)) \<longleftrightarrow> has_backend mci b"
  by (auto simp: spec_backends_def has_backend_def rule_backends_iff split: option.splits)

lemma backend_names_None: "backend_names bs = None \<longleftrightarrow> (\<exists>b \<in> set bs. BackendService b = None)"
  by (induction bs) (auto split: option.splits)

lemma backend_names_Some:
  "backend_names bs = Some ns \<Longrightarrow>
     n \<in> set ns \<longleftrightarrow> (\<exists>b \<in> set bs. \<exists>svc. BackendService b = Some svc \<and> ServiceName svc = n)"
  by (induction bs arbitrary: ns) (fastforce split: option.splits)+

lemma BuildServiceRefIndexes_None: "BuildServiceRefIndexes d mci = None \<longleftrightarrow> \<not> only_services mci"
  by (auto simp: BuildServiceRefIndexes_def backend_names_None spec_backends_iff only_services_def)

lemma BuildServiceRefIndexes_set:
  assumes "sets_ok d" and "BuildServiceRefIndexes d mci = Some xs"
  shows "n \<in> set xs \<longleftrightarrow> refers_to_service mci n"
proof -
  from assms obtain ns where ns: "backend_names (spec_backends (mciSpec mci)) = Some ns"
    and xs: "xs = SetsList d ns"
    by (auto simp: BuildServiceRefIndexes_def)
  then have "n \<in> set xs \<longleftrightarrow> n \<in> set ns"
    using assms(1) by (simp add: sets_okD)
  also have "\<dots> \<longleftrightarrow> refers_to_service mci n"
    by (auto simp: backend_names_Some [OF ns] spec_backends_iff refers_to_service_def)
  finally show ?thesis .
qed

lemma BuildServiceRefIndexes_sorted:
  assumes "sets_ok d" and "BuildServiceRefIndexes d mci = Some xs"
  shows "sorted_wrt (<) xs"
  using assms by (auto simp: BuildServiceRefIndexes_def sets_okD)

end
