(* ===== verification/Fake.thy ===== *)
theory Fake
  imports Cloud Indexes
begin

text \<open>
  fake/fake.go: the provider kept in memory that the repository ships for testing. Its state is
  the struct \<open>Provider\<close>; the record extension leaves room for the rest of the world outside
  (the API server), which no operation of the provider touches. \<open>time.Sleep\<close> and the mutex
  around \<open>Calls\<close> have no effect on the values.
\<close>

section \<open>State\<close>

record Balancer =
  BalancerName :: string
  BalancerNamespace :: string
  MCI :: MultiClusterIngress
  Services :: "string list"
  Eps :: "string slice"
  ExternalIP :: "string option"

record MCSBalancer =
  MCSBalancerName :: string
  MCSBalancerNamespace :: string
  MCS :: MultiClusterService
  MCSEps :: "string slice"
  MCSExternalIP :: "string option"

text \<open>A Go map may be nil: reading and deleting are then no-ops, and \<open>make\<close> makes it empty.\<close>

record Provider =
  ProviderNameField :: string
  Balancers :: "(string \<rightharpoonup> Balancer) option"
  MCSBalancers :: "(string \<rightharpoonup> MCSBalancer) option"
  Calls :: "string slice"

fun map_get :: "('k \<rightharpoonup> 'v) option \<Rightarrow> 'k \<Rightarrow> 'v option" where
  "map_get None k = None"
| "map_get (Some m) k = m k"

fun map_make :: "('k \<rightharpoonup> 'v) option \<Rightarrow> ('k \<rightharpoonup> 'v)" where
  "map_make None = Map.empty"
| "map_make (Some m) = m"

fun map_delete :: "('k \<rightharpoonup> 'v) option \<Rightarrow> 'k \<Rightarrow> ('k \<rightharpoonup> 'v) option" where
  "map_delete None k = None"
| "map_delete (Some m) k = Some (m(k := None))"

lemma map_make_get [simp]: "map_make m k = map_get m k"
  by (cases m) auto

lemma map_get_delete [simp]: "map_get (map_delete m k) k' = (if k' = k then None else map_get m k')"
  by (cases m) auto

section \<open>Operations\<close>

definition defaultProviderName :: string where
  "defaultProviderName = ''fake''"

definition ProviderName :: "'x Provider_scheme \<Rightarrow> string" where
  "ProviderName p = (if ProviderNameField p = '''' then defaultProviderName else ProviderNameField p)"

definition addCall :: "string \<Rightarrow> 'x Provider_scheme \<Rightarrow> 'x Provider_scheme" where
  "addCall desc p = p\<lparr>Calls := append_slice (Calls p) desc\<rparr>"

definition ClearCalls :: "'x Provider_scheme \<Rightarrow> 'x Provider_scheme" where
  "ClearCalls p = p\<lparr>Calls := Some []\<rparr>"

definition status_with :: "string \<Rightarrow> LoadBalancerStatus" where
  "status_with ip = \<lparr>Ingress = Some [\<lparr>IP = ip, LBIngressRest = ''''\<rparr>]\<rparr>"

definition empty_status :: LoadBalancerStatus where
  "empty_status = \<lparr>Ingress = None\<rparr>"

definition GetLoadBalancer ::
  "deps \<Rightarrow> MultiClusterIngress \<Rightarrow> 'x Provider_scheme
    \<Rightarrow> (LoadBalancerStatus option \<times> bool \<times> error option) \<times> 'x Provider_scheme" where
  "GetLoadBalancer d mci p =
     (let p = addCall ''get'' p;
          namespacedName = NamespacedNameString d (key_of mci)
      in if map_get (Balancers p) namespacedName \<noteq> None
         then ((Some empty_status, True, None), p)
         else ((None, False, None), p))"

definition EnsureLoadBalancer ::
  "deps \<Rightarrow> MultiClusterIngress \<Rightarrow> 'x Provider_scheme
    \<Rightarrow> (LoadBalancerStatus option \<times> error option) \<times> 'x Provider_scheme" where
  "EnsureLoadBalancer d mci p =
     (let p = addCall ''create'' p;
          p = p\<lparr>Balancers := Some (map_make (Balancers p))\<rparr>;
          namespacedName = NamespacedNameString d (key_of mci)
      in if map_get (Balancers p) namespacedName \<noteq> None
         then ((None, Some (Errorf ''there already exist a LoadBalancer'')), p)
         else case BuildServiceRefIndexes d mci of
             None \<Rightarrow> ((None, Some Panic), p)
           | Some svcRefs \<Rightarrow>
               ((Some (status_with ''1.2.3.4''), None),
                p\<lparr>Balancers := Some ((map_make (Balancers p))(namespacedName \<mapsto>
                  \<lparr>BalancerName = Name mci, BalancerNamespace = Namespace mci, MCI = mci,
                   Services = svcRefs, Eps = None, ExternalIP = None\<rparr>))\<rparr>))"

text \<open>
  The map holds structs, so \<open>lb\<close> is a copy of the entry: the source assigns the new ingress and
  the new references to the copy and leaves the entry of the map as it is.
\<close>

definition UpdateLoadBalancer ::
  "deps \<Rightarrow> MultiClusterIngress \<Rightarrow> 'x Provider_scheme
    \<Rightarrow> (LoadBalancerStatus option \<times> error option) \<times> 'x Provider_scheme" where
  "UpdateLoadBalancer d mci p =
     (let p = addCall ''update'' p;
          namespacedName = NamespacedNameString d (key_of mci)
      in case map_get (Balancers p) namespacedName of
           None \<Rightarrow> ((None, Some (Errorf ''there not exist a LoadBalancer'')), p)
         | Some lb \<Rightarrow>
             (case BuildServiceRefIndexes d mci of
                None \<Rightarrow> ((None, Some Panic), p)
              | Some svcRefs \<Rightarrow>
                  (let lb = lb\<lparr>MCI := mci, Services := svcRefs\<rparr>
                   in ((Some (status_with ''1.2.3.5''), None), p))))"

definition EnsureLoadBalancerDeleted ::
  "deps \<Rightarrow> MultiClusterIngress \<Rightarrow> 'x Provider_scheme \<Rightarrow> error option \<times> 'x Provider_scheme" where
  "EnsureLoadBalancerDeleted d mci p =
     (let p = addCall ''delete'' p;
          namespacedName = NamespacedNameString d (key_of mci)
      in (None, p\<lparr>Balancers := map_delete (Balancers p) namespacedName\<rparr>))"

definition GetMCSLoadBalancer ::
  "deps \<Rightarrow> MultiClusterService \<Rightarrow> 'x Provider_scheme
    \<Rightarrow> (LoadBalancerStatus option \<times> bool \<times> error option) \<times> 'x Provider_scheme" where
  "GetMCSLoadBalancer d mcs p =
     (let p = addCall ''get'' p;
          namespacedName = NamespacedNameString d (key_of mcs)
      in if map_get (MCSBalancers p) namespacedName \<noteq> None
         then ((Some empty_status, True, None), p)
         else ((None, False, None), p))"

definition EnsureMCSLoadBalancer ::
  "deps \<Rightarrow> MultiClusterService \<Rightarrow> 'x Provider_scheme
    \<Rightarrow> (LoadBalancerStatus option \<times> error option) \<times> 'x Provider_scheme" where
  "EnsureMCSLoadBalancer d mcs p =
     (let p = addCall ''create'' p;
          p = p\<lparr>MCSBalancers := Some (map_make (MCSBalancers p))\<rparr>;
          namespacedName = NamespacedNameString d (key_of mcs)
      in if map_get (MCSBalancers p) namespacedName \<noteq> None
         then ((None, Some (Errorf ''there already exist a LoadBalancer'')), p)
         else ((Some (status_with ''1.2.3.4''), None),
               p\<lparr>MCSBalancers := Some ((map_make (MCSBalancers p))(namespacedName \<mapsto>
                 \<lparr>MCSBalancerName = Name mcs, MCSBalancerNamespace = Namespace mcs, MCS = mcs,
                  MCSEps = None, MCSExternalIP = None\<rparr>))\<rparr>))"

definition UpdateMCSLoadBalancer ::
  "deps \<Rightarrow> MultiClusterService \<Rightarrow> 'x Provider_scheme
    \<Rightarrow> (LoadBalancerStatus option \<times> error option) \<times> 'x Provider_scheme" where
  "UpdateMCSLoadBalancer d mcs p =
     (let p = addCall ''update'' p;
          namespacedName = NamespacedNameString d (key_of mcs)
      in case map_get (MCSBalancers p) namespacedName of
           None \<Rightarrow> ((None, Some (Errorf ''there not exist a LoadBalancer'')), p)
         | Some lb \<Rightarrow>
             (let lb = lb\<lparr>MCS := mcs\<rparr>
              in ((Some (status_with ''1.2.3.5''), None), p)))"

definition EnsureMCSLoadBalancerDeleted ::
  "deps \<Rightarrow> MultiClusterService \<Rightarrow> 'x Provider_scheme \<Rightarrow> error option \<times> 'x Provider_scheme" where
  "EnsureMCSLoadBalancerDeleted d mcs p =
     (let p = addCall ''delete'' p;
          namespacedName = NamespacedNameString d (key_of mcs)
      in (None, p\<lparr>MCSBalancers := map_delete (MCSBalancers p) namespacedName\<rparr>))"

text \<open>The provider as the two interfaces of cloud.go; it supports both.\<close>

definition LoadBalancer ::
  "deps \<Rightarrow> (MultiClusterIngress, 'x Provider_scheme) balancer \<times> bool" where
  "LoadBalancer d =
     (\<lparr>GetBalancer = GetLoadBalancer d, EnsureBalancer = EnsureLoadBalancer d,
       UpdateBalancer = UpdateLoadBalancer d, DeleteBalancer = EnsureLoadBalancerDeleted d\<rparr>, True)"

definition MCSLoadBalancer ::
  "deps \<Rightarrow> (MultiClusterService, 'x Provider_scheme) balancer \<times> bool" where
  "MCSLoadBalancer d =
     (\<lparr>GetBalancer = GetMCSLoadBalancer d, EnsureBalancer = EnsureMCSLoadBalancer d,
       UpdateBalancer = UpdateMCSLoadBalancer d, DeleteBalancer = EnsureMCSLoadBalancerDeleted d\<rparr>, True)"

section \<open>The contract of cloud.go\<close>

definition has_balancer :: "'x Provider_scheme \<Rightarrow> string \<Rightarrow> bool" where
  "has_balancer p n \<longleftrightarrow> map_get (Balancers p) n \<noteq> None"

definition has_mcs_balancer :: "'x Provider_scheme \<Rightarrow> string \<Rightarrow> bool" where
  "has_mcs_balancer p n \<longleftrightarrow> map_get (MCSBalancers p) n \<noteq> None"

lemma addCall_fields [simp]:
  "Balancers (addCall s p) = Balancers p"
  "MCSBalancers (addCall s p) = MCSBalancers p"
  "Calls (addCall s p) = append_slice (Calls p) s"
  by (simp_all add: addCall_def)

lemmas mci_balancer_defs = LoadBalancer_def GetLoadBalancer_def EnsureLoadBalancer_def
  UpdateLoadBalancer_def EnsureLoadBalancerDeleted_def has_balancer_def

lemmas mcs_balancer_defs = MCSLoadBalancer_def GetMCSLoadBalancer_def EnsureMCSLoadBalancer_def
  UpdateMCSLoadBalancer_def EnsureMCSLoadBalancerDeleted_def has_mcs_balancer_def

interpretation fake_mci: load_balancer
  "fst (LoadBalancer d)" has_balancer "\<lambda>mci. NamespacedNameString d (key_of mci)" for d
  by unfold_locales
    (auto simp: mci_balancer_defs Let_def split: if_splits option.splits)

interpretation fake_mcs: load_balancer
  "fst (MCSLoadBalancer d)" has_mcs_balancer "\<lambda>mcs. NamespacedNameString d (key_of mcs)" for d
  by unfold_locales
    (auto simp: mcs_balancer_defs Let_def split: if_splits option.splits)

interpretation fake_mci_keyed: keyed_balancer
  "fst (LoadBalancer d)" has_balancer "\<lambda>mci. NamespacedNameString d (key_of mci)" for d
  by unfold_locales simp

interpretation fake_mcs_keyed: keyed_balancer
  "fst (MCSLoadBalancer d)" has_mcs_balancer "\<lambda>mcs. NamespacedNameString d (key_of mcs)" for d
  by unfold_locales simp

section \<open>The provider as a set of names\<close>

text \<open>
  The specification that the comments of cloud.go give: the provider is a set of names, Get tells
  whether the name is in it, creating succeeds on a new name only, updating on a present one only,
  and deleting always. A request is answered with yes (it exists, or no error) or no.
\<close>

datatype 'o request = AskGet 'o | AskEnsure 'o | AskUpdate 'o | AskDelete 'o

fun requested :: "'o request \<Rightarrow> 'o" where
  "requested (AskGet x) = x"
| "requested (AskEnsure x) = x"
| "requested (AskUpdate x) = x"
| "requested (AskDelete x) = x"

fun verb_of :: "'o request \<Rightarrow> string" where
  "verb_of (AskGet x) = ''get''"
| "verb_of (AskEnsure x) = ''create''"
| "verb_of (AskUpdate x) = ''update''"
| "verb_of (AskDelete x) = ''delete''"

fun set_answers :: "('o \<Rightarrow> string) \<Rightarrow> 'o request \<Rightarrow> string set \<Rightarrow> bool \<times> string set" where
  "set_answers name (AskGet x) S = (name x \<in> S, S)"
| "set_answers name (AskEnsure x) S = (name x \<notin> S, insert (name x) S)"
| "set_answers name (AskUpdate x) S = (name x \<in> S, S)"
| "set_answers name (AskDelete x) S = (True, S - {name x})"

fun balancer_answers :: "('o, 'w) balancer \<Rightarrow> 'o request \<Rightarrow> 'w \<Rightarrow> bool \<times> 'w" where
  "balancer_answers b (AskGet x) w = (case GetBalancer b x w of ((st, ex, err), w') \<Rightarrow> (ex \<and> err = None, w'))"
| "balancer_answers b (AskEnsure x) w = (case EnsureBalancer b x w of ((st, err), w') \<Rightarrow> (err = None, w'))"
| "balancer_answers b (AskUpdate x) w = (case UpdateBalancer b x w of ((st, err), w') \<Rightarrow> (err = None, w'))"
| "balancer_answers b (AskDelete x) w = (case DeleteBalancer b x w of (err, w') \<Rightarrow> (err = None, w'))"

fun all_answers :: "('o request \<Rightarrow> 'w \<Rightarrow> bool \<times> 'w) \<Rightarrow> 'o request list \<Rightarrow> 'w \<Rightarrow> bool list \<times> 'w" where
  "all_answers ans [] w = ([], w)"
| "all_answers ans (r # rs) w = (case ans r w of (y, w') \<Rightarrow> (case all_answers ans rs w' of (ys, w'') \<Rightarrow> (y # ys, w'')))"

text \<open>A simulation of single requests is one of sequences of requests.\<close>

lemma all_answers_simulation:
  assumes "\<And>r w. r \<in> set rs \<Longrightarrow> fst (ans r w) = fst (spec r (view w)) \<and> view (snd (ans r w)) = snd (spec r (view w))"
  shows "fst (all_answers ans rs w) = fst (all_answers spec rs (view w)) \<and>
    view (snd (all_answers ans rs w)) = snd (all_answers spec rs (view w))"
  using assms
proof (induction rs arbitrary: w)
  case (Cons r rs)
  obtain y w1 where ans: "ans r w = (y, w1)" by fastforce
  then have spec: "spec r (view w) = (y, view w1)"
    using Cons.prems [of r w] by (simp add: prod_eq_iff)
  have "fst (all_answers ans rs w1) = fst (all_answers spec rs (view w1)) \<and>
      view (snd (all_answers ans rs w1)) = snd (all_answers spec rs (view w1))"
    by (rule Cons.IH) (use Cons.prems in simp)
  then show ?case by (auto simp: ans spec split: prod.splits)
qed simp

definition balancer_names :: "'x Provider_scheme \<Rightarrow> string set" where
  "balancer_names p = {n. has_balancer p n}"

definition mcs_balancer_names :: "'x Provider_scheme \<Rightarrow> string set" where
  "mcs_balancer_names p = {n. has_mcs_balancer p n}"

lemma fake_answers:
  assumes "only_services (requested r)"
  shows "fst (balancer_answers (fst (LoadBalancer d)) r p) =
      fst (set_answers (\<lambda>mci. NamespacedNameString d (key_of mci)) r (balancer_names p)) \<and>
    balancer_names (snd (balancer_answers (fst (LoadBalancer d)) r p)) =
      snd (set_answers (\<lambda>mci. NamespacedNameString d (key_of mci)) r (balancer_names p))"
proof -
  have "BuildServiceRefIndexes d (requested r) \<noteq> None"
    using assms by (simp add: BuildServiceRefIndexes_None)
  then show ?thesis
    by (cases r) (auto simp: mci_balancer_defs balancer_names_def Let_def split: option.splits if_splits)
qed

lemma fake_mcs_answers:
  "fst (balancer_answers (fst (MCSLoadBalancer d)) r p) =
      fst (set_answers (\<lambda>mcs. NamespacedNameString d (key_of mcs)) r (mcs_balancer_names p)) \<and>
    mcs_balancer_names (snd (balancer_answers (fst (MCSLoadBalancer d)) r p)) =
      snd (set_answers (\<lambda>mcs. NamespacedNameString d (key_of mcs)) r (mcs_balancer_names p))"
  by (cases r) (auto simp: mcs_balancer_defs mcs_balancer_names_def Let_def split: option.splits if_splits)

lemma fake_records:
  "elems (Calls (snd (balancer_answers (fst (LoadBalancer d)) r p))) = elems (Calls p) @ [verb_of r]"
  by (cases r) (auto simp: mci_balancer_defs Let_def split: option.splits if_splits prod.splits)

lemma fake_records_all:
  "elems (Calls (snd (all_answers (balancer_answers (fst (LoadBalancer d))) rs p))) =
     elems (Calls p) @ map verb_of rs"
  by (induction rs arbitrary: p) (simp_all add: fake_records split: prod.splits, metis fake_records snd_conv append.assoc append_Cons append_Nil)


section \<open>What the provider remembers\<close>

lemma UpdateLoadBalancer_state: "snd (UpdateLoadBalancer d mci p) = addCall ''update'' p"
  by (simp add: UpdateLoadBalancer_def Let_def split: option.splits)

lemma updates_state:
  "Balancers (fold (\<lambda>m p. snd (UpdateLoadBalancer d m p)) ms p) = Balancers p \<and>
   elems (Calls (fold (\<lambda>m p. snd (UpdateLoadBalancer d m p)) ms p)) = elems (Calls p) @ replicate (length ms) ''update''"
  by (induction ms arbitrary: p) (simp_all add: UpdateLoadBalancer_state replicate_app_Cons_same)

text \<open>
  C40: the fake provider remembers an ingress as it was when its balancer was created: later updates,
  though each is recorded as a call and answered with a status, change nothing of it, as they
  assign to a copy of the entry of the map.
\<close>

theorem fake_updates_are_lost:
  assumes "EnsureLoadBalancer d mci p = ((st, None), p1)"
    and "fold (\<lambda>m p. snd (UpdateLoadBalancer d m p)) ms p1 = p2"
  shows "map_option MCI (map_get (Balancers p2) (NamespacedNameString d (key_of mci))) = Some mci \<and>
    elems (Calls p2) = elems (Calls p1) @ replicate (length ms) ''update'' \<and>
    (\<forall>m st2 p3. key_of m = key_of mci \<and> UpdateLoadBalancer d m p2 = ((st2, None), p3) \<longrightarrow>
      st2 = Some (status_with ''1.2.3.5''))"
proof -
  have "map_option MCI (map_get (Balancers p1) (NamespacedNameString d (key_of mci))) = Some mci"
    using assms(1) by (auto simp: EnsureLoadBalancer_def Let_def split: if_splits option.splits)
  moreover have "UpdateLoadBalancer d m p2 = ((st2, None), p3) \<Longrightarrow> st2 = Some (status_with ''1.2.3.5'')" for m st2 p3
    by (auto simp: UpdateLoadBalancer_def Let_def split: option.splits)
  ultimately show ?thesis
    using updates_state [of d ms p1] assms(2) by auto
qed

end
