(* ===== verification/Testbed.thy ===== *)
theory Testbed
  imports Fake
begin

text \<open>
  A place to run the controllers in: concrete functions for the parameters of the model, as
  their documentation describes them, and an API server kept in memory next to the fake provider
  of the repository. The properties are proved for any libraries that meet their contracts; this
  theory shows that the contracts can be met, and their witnesses run the controllers here.
\<close>

section \<open>The functions of the dependencies\<close>

definition std_deps :: deps where
  "std_deps = \<lparr>
     SetsList = \<lambda>xs. sort (remdups xs),
     SetsHas = \<lambda>xs x. x \<in> set xs,
     AddFinalizer = \<lambda>fs f. if f \<in> set fs then (False, fs) else (True, fs @ [f]),
     RemoveFinalizer = \<lambda>fs f. (f \<in> set fs, filter (\<lambda>g. g \<noteq> f) fs),
     ContainsFinalizer = \<lambda>xs x. x \<in> set xs,
     NamespacedNameString = \<lambda>(ns, n). ns @ ''/'' @ n,
     GenerateBindingName = \<lambda>kd n. n @ ''-'' @ kd,
     NewControllerRef = \<lambda>svc kd. kd @ ''/'' @ Name svc,
     SemanticMap = (=),
     SemanticBool = (=),
     SemanticStrings = \<lambda>a b. elems a = elems b,
     SemanticRests = \<lambda>a b. elems a = elems b,
     SemanticData = (=),
     SemanticIngressSpec = (=),
     SemanticMCSSpec = (=),
     SemanticServiceSpec = (=),
     TrafficControl = ''TrafficControl'',
     ExposureTypeLoadBalancer = ''LoadBalancer'',
     AnnotationIsDefaultIngressClass = ''ingressclass.kubernetes.io/is-default-class'',
     LabelServiceName = ''kubernetes.io/service-name'',
     ServiceExportGroupVersion = ''multicluster.x-k8s.io/v1alpha1'',
     TaintClusterNotReady = ''cluster.karmada.io/not-ready'',
     TaintClusterUnreachable = ''cluster.karmada.io/unreachable'',
     TolerationOpExists = ''Exists'',
     TaintEffectNoExecute = ''NoExecute''\<rparr>"

text \<open>One equation per field, so that runs evaluate by simplification.\<close>

lemma std_deps_simps [simp]:
  "SetsList std_deps = (\<lambda>xs. sort (remdups xs))"
  "SetsHas std_deps = (\<lambda>xs x. x \<in> set xs)"
  "AddFinalizer std_deps = (\<lambda>fs f. if f \<in> set fs then (False, fs) else (True, fs @ [f]))"
  "RemoveFinalizer std_deps = (\<lambda>fs f. (f \<in> set fs, filter (\<lambda>g. g \<noteq> f) fs))"
  "ContainsFinalizer std_deps = (\<lambda>xs x. x \<in> set xs)"
  "NamespacedNameString std_deps = (\<lambda>(ns, n). ns @ ''/'' @ n)"
  "GenerateBindingName std_deps = (\<lambda>kd n. n @ ''-'' @ kd)"
  "NewControllerRef std_deps = (\<lambda>svc kd. kd @ ''/'' @ Name svc)"
  "SemanticMap std_deps = (=)"
  "SemanticBool std_deps = (=)"
  "SemanticStrings std_deps = (\<lambda>a b. elems a = elems b)"
  "SemanticRests std_deps = (\<lambda>a b. elems a = elems b)"
  "SemanticData std_deps = (=)"
  "SemanticIngressSpec std_deps = (=)"
  "SemanticMCSSpec std_deps = (=)"
  "SemanticServiceSpec std_deps = (=)"
  "TrafficControl std_deps = ''TrafficControl''"
  "ExposureTypeLoadBalancer std_deps = ''LoadBalancer''"
  "AnnotationIsDefaultIngressClass std_deps = ''ingressclass.kubernetes.io/is-default-class''"
  "LabelServiceName std_deps = ''kubernetes.io/service-name''"
  "ServiceExportGroupVersion std_deps = ''multicluster.x-k8s.io/v1alpha1''"
  "TaintClusterNotReady std_deps = ''cluster.karmada.io/not-ready''"
  "TaintClusterUnreachable std_deps = ''cluster.karmada.io/unreachable''"
  "TolerationOpExists std_deps = ''Exists''"
  "TaintEffectNoExecute std_deps = ''NoExecute''"
  by (simp_all add: std_deps_def)

lemma std_sets_ok: "sets_ok std_deps"
  by (auto simp: sets_ok_def strict_sorted_iff)

lemma std_finalizers_ok: "finalizers_ok std_deps"
  by (auto simp: finalizers_ok_def)

lemma std_semantic_ok: "semantic_ok std_deps"
  by (auto simp: semantic_ok_def)

section \<open>The API server\<close>

record Testbed = Provider +
  apiMCIs :: "MultiClusterIngress list"
  apiMCSs :: "MultiClusterService list"
  apiServices :: "Service list"
  apiExports :: "ServiceExport list"
  apiPolicies :: "Policy list"
  apiClusterPolicies :: "Policy list"
  apiBindings :: "ResourceBinding list"
  apiClusters :: "Cluster list"
  apiClasses :: "IngressClass list"

fun find_key :: "key \<Rightarrow> 'o ObjectMeta_scheme list \<Rightarrow> 'o ObjectMeta_scheme option" where
  "find_key k [] = None"
| "find_key k (x # xs) = (if key_of x = k then Some x else find_key k xs)"

fun put_key :: "'o ObjectMeta_scheme \<Rightarrow> 'o ObjectMeta_scheme list \<Rightarrow> 'o ObjectMeta_scheme list" where
  "put_key y [] = []"
| "put_key y (x # xs) = (if key_of x = key_of y then y # xs else x # put_key y xs)"

text \<open>Every accepted write gives the object a new resource version.\<close>

definition next_version :: "'o ObjectMeta_scheme \<Rightarrow> 'o ObjectMeta_scheme" where
  "next_version x = x\<lparr>ResourceVersion := CHR ''i'' # ResourceVersion x\<rparr>"

lemma key_of_next_version [simp]: "key_of (next_version x) = key_of x"
  by (simp add: next_version_def)

text \<open>
  A write against an older version conflicts; an object under deletion is removed once it has no
  finalizer left. \<open>has_field\<close> answers the field selectors, through the cache's indexes.
\<close>

definition mem_write ::
  "('w \<Rightarrow> 'o ObjectMeta_scheme list) \<Rightarrow> ('o ObjectMeta_scheme list \<Rightarrow> 'w \<Rightarrow> 'w)
    \<Rightarrow> 'o ObjectMeta_scheme \<Rightarrow> 'w \<Rightarrow> (error option \<times> 'o ObjectMeta_scheme) \<times> 'w" where
  "mem_write store put x w =
     (case find_key (key_of x) (store w) of
        None \<Rightarrow> ((Some NotFound, x), w)
      | Some old \<Rightarrow>
          if ResourceVersion old \<noteq> ResourceVersion x then ((Some Conflict, x), w)
          else if DeletionTimestamp x \<noteq> None \<and> Finalizers x = []
          then ((None, x), put (filter (\<lambda>y. key_of y \<noteq> key_of x) (store w)) w)
          else ((None, next_version x), put (put_key (next_version x) (store w)) w))"

definition mem_list ::
  "(string \<times> string \<Rightarrow> 'o ObjectMeta_scheme \<Rightarrow> bool) \<Rightarrow> 'o ObjectMeta_scheme list \<Rightarrow> list_options
    \<Rightarrow> 'o ObjectMeta_scheme list" where
  "mem_list has_field xs opts = filter (\<lambda>x.
     (case InNamespace opts of None \<Rightarrow> True | Some ns \<Rightarrow> Namespace x = ns) \<and>
     (case MatchingFields opts of None \<Rightarrow> True | Some fv \<Rightarrow> has_field fv x)) xs"

definition mem_client ::
  "('w \<Rightarrow> 'o ObjectMeta_scheme list) \<Rightarrow> ('o ObjectMeta_scheme list \<Rightarrow> 'w \<Rightarrow> 'w)
    \<Rightarrow> (string \<times> string \<Rightarrow> 'o ObjectMeta_scheme \<Rightarrow> bool)
    \<Rightarrow> ('o ObjectMeta_scheme, 'w) kind_client" where
  "mem_client store put has_field =
     \<lparr>cGet = \<lambda>k w. (case find_key k (store w) of None \<Rightarrow> Inl NotFound | Some x \<Rightarrow> Inr x, w),
      cList = \<lambda>opts w. (Inr (mem_list has_field (store w) opts), w),
      cCreate = \<lambda>x w. (if find_key (key_of x) (store w) \<noteq> None
        then ((Some (APIError ''AlreadyExists''), x), w)
        else ((None, next_version x), put (store w @ [next_version x]) w)),
      cUpdate = mem_write store put,
      cPatch = \<lambda>x base. mem_write store put x,
      cStatusUpdate = mem_write store put,
      cDelete = \<lambda>x w. (if find_key (key_of x) (store w) = None then (Some NotFound, w)
        else (None, put (filter (\<lambda>y. key_of y \<noteq> key_of x) (store w)) w))\<rparr>"

lemma mem_client_simps [simp]:
  "cGet (mem_client store put has_field) k w =
     (case find_key k (store w) of None \<Rightarrow> Inl NotFound | Some x \<Rightarrow> Inr x, w)"
  "cList (mem_client store put has_field) opts w = (Inr (mem_list has_field (store w) opts), w)"
  "cCreate (mem_client store put has_field) x w = (if find_key (key_of x) (store w) \<noteq> None
     then ((Some (APIError ''AlreadyExists''), x), w)
     else ((None, next_version x), put (store w @ [next_version x]) w))"
  "cUpdate (mem_client store put has_field) = mem_write store put"
  "cPatch (mem_client store put has_field) x base = mem_write store put x"
  "cStatusUpdate (mem_client store put has_field) = mem_write store put"
  "cDelete (mem_client store put has_field) x w = (if find_key (key_of x) (store w) = None
     then (Some NotFound, w) else (None, put (filter (\<lambda>y. key_of y \<noteq> key_of x) (store w)) w))"
  by (simp_all add: mem_client_def)

lemma mem_write_view:
  "(\<And>xs w. view (put xs w) = view w) \<Longrightarrow> view (snd (mem_write store put x w)) = view w"
  by (auto simp: mem_write_def split: option.splits)

lemma find_key_key: "find_key k xs = Some x \<Longrightarrow> key_of x = k"
  by (induction xs) (auto split: if_splits)

lemma mem_client_keeps_key [simp]: "keeps_key (mem_client store put has_field)"
  by (auto simp: keeps_key_def mem_write_def find_key_key split: option.splits if_splits)

text \<open>A part of the world that storing objects does not touch is left alone.\<close>

lemma mem_client_leaves:
  assumes "\<And>xs w. view (put xs w) = view w"
  shows "client_leaves view (mem_client store put has_field)"
  using assms by (auto simp: client_leaves_def leaves_def mem_write_view)

fun mci_has_field :: "deps \<Rightarrow> string \<times> string \<Rightarrow> MultiClusterIngress \<Rightarrow> bool" where
  "mci_has_field d (f, v) mci =
     (if f = IndexKeyServiceRefName
      then (case BuildServiceRefIndexes d mci of None \<Rightarrow> False | Some xs \<Rightarrow> v \<in> set xs)
      else if f = IndexKeySecretRefName then v \<in> set (BuildSecretRefIndexes d mci)
      else False)"

definition mem_server :: "deps \<Rightarrow> 'x Testbed_scheme client" where
  "mem_server d = \<lparr>
     mcis = mem_client apiMCIs (\<lambda>xs w. w\<lparr>apiMCIs := xs\<rparr>) (mci_has_field d),
     mcss = mem_client apiMCSs (\<lambda>xs w. w\<lparr>apiMCSs := xs\<rparr>) (\<lambda>_ _. False),
     services = mem_client apiServices (\<lambda>xs w. w\<lparr>apiServices := xs\<rparr>) (\<lambda>_ _. False),
     exports = mem_client apiExports (\<lambda>xs w. w\<lparr>apiExports := xs\<rparr>) (\<lambda>_ _. False),
     policies = mem_client apiPolicies (\<lambda>xs w. w\<lparr>apiPolicies := xs\<rparr>) (\<lambda>_ _. False),
     cluster_policies = mem_client apiClusterPolicies (\<lambda>xs w. w\<lparr>apiClusterPolicies := xs\<rparr>) (\<lambda>_ _. False),
     bindings = mem_client apiBindings (\<lambda>xs w. w\<lparr>apiBindings := xs\<rparr>) (\<lambda>_ _. False),
     clusters = mem_client apiClusters (\<lambda>xs w. w\<lparr>apiClusters := xs\<rparr>) (\<lambda>_ _. False),
     ingress_classes = mem_client apiClasses (\<lambda>xs w. w\<lparr>apiClasses := xs\<rparr>) (\<lambda>_ _. False)\<rparr>"

lemma mem_server_simps [simp]:
  "mcis (mem_server d) = mem_client apiMCIs (\<lambda>xs w. w\<lparr>apiMCIs := xs\<rparr>) (mci_has_field d)"
  "mcss (mem_server d) = mem_client apiMCSs (\<lambda>xs w. w\<lparr>apiMCSs := xs\<rparr>) (\<lambda>_ _. False)"
  "services (mem_server d) = mem_client apiServices (\<lambda>xs w. w\<lparr>apiServices := xs\<rparr>) (\<lambda>_ _. False)"
  "exports (mem_server d) = mem_client apiExports (\<lambda>xs w. w\<lparr>apiExports := xs\<rparr>) (\<lambda>_ _. False)"
  "policies (mem_server d) = mem_client apiPolicies (\<lambda>xs w. w\<lparr>apiPolicies := xs\<rparr>) (\<lambda>_ _. False)"
  "cluster_policies (mem_server d) = mem_client apiClusterPolicies (\<lambda>xs w. w\<lparr>apiClusterPolicies := xs\<rparr>) (\<lambda>_ _. False)"
  "bindings (mem_server d) = mem_client apiBindings (\<lambda>xs w. w\<lparr>apiBindings := xs\<rparr>) (\<lambda>_ _. False)"
  "clusters (mem_server d) = mem_client apiClusters (\<lambda>xs w. w\<lparr>apiClusters := xs\<rparr>) (\<lambda>_ _. False)"
  "ingress_classes (mem_server d) = mem_client apiClasses (\<lambda>xs w. w\<lparr>apiClasses := xs\<rparr>) (\<lambda>_ _. False)"
  by (simp_all add: mem_server_def)

lemma mem_server_leaves:
  "client_leaves has_balancer (mcis (mem_server d))"
  "client_leaves has_balancer (clusters (mem_server d))"
  "client_leaves has_mcs_balancer (mcss (mem_server d))"
  by (simp_all add: mem_client_leaves has_balancer_def [abs_def] has_mcs_balancer_def [abs_def])

definition empty_testbed :: Testbed where
  "empty_testbed = \<lparr>ProviderNameField = '''', Balancers = None, MCSBalancers = None, Calls = None,
     apiMCIs = [], apiMCSs = [], apiServices = [], apiExports = [], apiPolicies = [],
     apiClusterPolicies = [], apiBindings = [], apiClusters = [], apiClasses = []\<rparr>"

section \<open>What the server stores\<close>

lemma find_put: "find_key (key_of y) xs \<noteq> None \<Longrightarrow> find_key (key_of y) (put_key y xs) = Some y"
  by (induction xs) auto

lemma put_put: "key_of y = key_of x \<Longrightarrow> put_key y (put_key x xs) = put_key y xs"
  by (induction xs) auto

lemma put_found: "find_key k xs = Some x \<Longrightarrow> put_key x xs = xs"
  by (induction xs) (auto split: if_splits dest: find_key_key)

lemma find_keyD: "find_key k xs = Some x \<Longrightarrow> x \<in> set xs \<and> key_of x = k"
  by (induction xs) (simp_all split: if_splits)

lemma find_key_NoneD: "find_key k xs = None \<Longrightarrow> x \<in> set xs \<Longrightarrow> key_of x \<noteq> k"
  by (induction xs) (auto split: if_splits)

lemma find_distinct: "distinct (map key_of xs) \<Longrightarrow> x \<in> set xs \<Longrightarrow> find_key (key_of x) xs = Some x"
  by (induction xs) (auto simp: image_iff)

lemma put_key_subset: "set (put_key y xs) \<subseteq> insert y (set xs)"
  by (induction xs) auto

lemma put_keys: "map key_of (put_key y xs) = map key_of xs"
  by (induction xs) simp_all

lemma find_put_key:
  "find_key k (put_key y xs) = (if k = key_of y \<and> find_key k xs \<noteq> None then Some y else find_key k xs)"
  by (induction xs) auto

lemma find_append: "find_key k (xs @ [y]) = (case find_key k xs of None \<Rightarrow> if key_of y = k then Some y else None | Some x \<Rightarrow> Some x)"
  by (induction xs) auto

lemma find_filter: "find_key k (filter (\<lambda>x. key_of x \<noteq> j) xs) = (if k = j then None else find_key k xs)"
  by (induction xs) auto

lemma find_none_keys: "find_key k xs = None \<longleftrightarrow> k \<notin> key_of ` set xs"
  by (induction xs) auto

lemma next_version_fields [simp]:
  "Finalizers (next_version x) = Finalizers x" "DeletionTimestamp (next_version x) = DeletionTimestamp x"
  "ResourceVersion (next_version x) = CHR ''i'' # ResourceVersion x"
  by (simp_all add: next_version_def)

text \<open>A namespace has no slash in it, so the name of a balancer tells its object.\<close>

lemma slash_inj:
  assumes "a @ CHR ''/'' # b = c @ CHR ''/'' # d" and "CHR ''/'' \<notin> set a" and "CHR ''/'' \<notin> set c"
  shows "a = c \<and> b = d"
  using assms
proof (induction a arbitrary: c)
  case Nil
  then show ?case by (cases c) auto
next
  case (Cons x a)
  then show ?case by (cases c) auto
qed

text \<open>A write is accepted from the stored version and conflicts from another.\<close>

lemma write_stored:
  assumes "find_key (key_of x) (store w) = Some old" and "ResourceVersion x = ResourceVersion old"
    and "DeletionTimestamp x = None"
  shows "mem_write store put x w = ((None, next_version x), put (put_key (next_version x) (store w)) w)"
  using assms by (simp add: mem_write_def)

lemma write_older:
  assumes "find_key (key_of x) (store w) = Some old" and "length (ResourceVersion x) < length (ResourceVersion old)"
  shows "mem_write store put x w = ((Some Conflict, x), w)"
  using assms by (auto simp: mem_write_def)

text \<open>The provider and the server keep out of each other's part of the world.\<close>

lemma addCall_keeps_store [simp]:
  "apiMCIs (addCall desc w) = apiMCIs w" "apiMCSs (addCall desc w) = apiMCSs w"
  "apiClusters (addCall desc w) = apiClusters w"
  by (simp_all add: addCall_def)

text \<open>The status the provider answers a controller with that updates what exists and creates what does not.\<close>

definition answered_status :: "bool \<Rightarrow> LoadBalancerStatus" where
  "answered_status ex = status_with (if ex then ''1.2.3.5'' else ''1.2.3.4'')"

section \<open>Objects to run on\<close>

definition sample_mci :: MultiClusterIngress where
  "sample_mci = ObjectMeta.extend (meta_literal ''shop'' ''web'')
     \<lparr>mciSpec = \<lparr>IngressClassName = Some ''fake'',
        DefaultBackend = Some \<lparr>BackendService = Some \<lparr>ServiceName = ''front'', ServicePort = ''80''\<rparr>,
          BackendResource = None\<rparr>,
        TLS = Some [\<lparr>TLSHosts = '''', SecretName = ''cert''\<rparr>], Rules = None\<rparr>,
      mciStatus = \<lparr>statusLoadBalancer = empty_status, TrafficBlockClusters = None,
        ServiceLocations = Some [\<lparr>LocationName = ''front'', LocationClusters = Some [''m1'']\<rparr>]\<rparr>\<rparr>"

lemma sample_mci_fields [simp]:
  "Namespace sample_mci = ''shop''" "Name sample_mci = ''web''" "key_of sample_mci = (''shop'', ''web'')"
  "elems (TLS (mciSpec sample_mci)) = [\<lparr>TLSHosts = '''', SecretName = ''cert''\<rparr>]"
  "elems (ServiceLocations (mciStatus sample_mci)) =
     [\<lparr>LocationName = ''front'', LocationClusters = Some [''m1'']\<rparr>]"
  by (simp_all add: sample_mci_def meta_literal_def ObjectMeta.defs key_of_def)

definition sample_mcs :: MultiClusterService where
  "sample_mcs = ObjectMeta.extend (meta_literal ''shop'' ''cart'')
     \<lparr>mcsSpec = \<lparr>Types = Some [''LoadBalancer''], Ports = None, mcsSpecRest = ''''\<rparr>,
      mcsLoadBalancer = empty_status\<rparr>"

definition sample_cluster :: Cluster where
  "sample_cluster = ObjectMeta.extend (meta_literal '''' ''m1'')
     \<lparr>RemedyActions = Some [''TrafficControl'']\<rparr>"

lemma fake_updates_are_lost_witness:
  "map_option MCI (map_get (Balancers (snd (UpdateLoadBalancer std_deps
       (sample_mci\<lparr>mciSpec := (mciSpec sample_mci)\<lparr>TLS := None\<rparr>\<rparr>)
       (snd (EnsureLoadBalancer std_deps sample_mci empty_testbed))))) ''shop/web'') = Some sample_mci"
proof -
  have "BuildServiceRefIndexes std_deps sample_mci \<noteq> None"
    by (auto simp: BuildServiceRefIndexes_None only_services_def has_backend_def sample_mci_def
        meta_literal_def ObjectMeta.defs)
  then obtain st p1 where created: "EnsureLoadBalancer std_deps sample_mci empty_testbed = ((st, None), p1)"
    by (auto simp: EnsureLoadBalancer_def Let_def empty_testbed_def addCall_def)
  from fake_updates_are_lost [OF this refl, of "[sample_mci\<lparr>mciSpec := (mciSpec sample_mci)\<lparr>TLS := None\<rparr>\<rparr>]"]
  show ?thesis by (simp add: created)
qed


end
