(* ===== verification/SharedServer.thy ===== *)
theory SharedServer
  imports Assertions Testbed
begin

text \<open>
  An API server that a controller shares with others, as the Kubernetes API documents it: updates
  are checked against the resource version, a merge patch is not, an object under deletion goes
  once it has no finalizer left, and the status is written apart from the rest. The controller
  reads through a cache that lags behind by any number of versions of the collection. Between any
  two calls others may act, and any call may fail, with or without effect.
\<close>

section \<open>A collection of objects and its cache\<close>

text \<open>
  The objects now, the collections the cache has not got beyond (the first is what it shows), and
  the number of writes so far, which is the length of the newest resource version.
\<close>

record 'o shared =
  sharedObjects :: "'o list"
  sharedPast :: "'o list list"
  sharedRevision :: nat

definition versions :: "'o shared \<Rightarrow> 'o list list" where
  "versions sh = sharedPast sh @ [sharedObjects sh]"

definition shown :: "'o shared \<Rightarrow> 'o list" where
  "shown sh = hd (versions sh)"

definition publish :: "'o list \<Rightarrow> 'o shared \<Rightarrow> 'o shared" where
  "publish xs sh = sh\<lparr>sharedObjects := xs, sharedPast := versions sh, sharedRevision := Suc (sharedRevision sh)\<rparr>"

definition stamped :: "'o ObjectMeta_scheme shared \<Rightarrow> 'o ObjectMeta_scheme \<Rightarrow> 'o ObjectMeta_scheme" where
  "stamped sh x = x\<lparr>ResourceVersion := replicate (Suc (sharedRevision sh)) (CHR ''i'')\<rparr>"

definition without :: "key \<Rightarrow> 'o ObjectMeta_scheme list \<Rightarrow> 'o ObjectMeta_scheme list" where
  "without k xs = filter (\<lambda>x. key_of x \<noteq> k) xs"

definition replaced :: "'o ObjectMeta_scheme \<Rightarrow> 'o ObjectMeta_scheme list \<Rightarrow> 'o ObjectMeta_scheme list" where
  "replaced y xs = map (\<lambda>x. if key_of x = key_of y then y else x) xs"

text \<open>An accepted write of an object that is there.\<close>

definition accepted ::
  "'o ObjectMeta_scheme \<Rightarrow> 'o ObjectMeta_scheme shared
    \<Rightarrow> (error option \<times> 'o ObjectMeta_scheme) \<times> 'o ObjectMeta_scheme shared" where
  "accepted x sh = (let y = stamped sh x in ((None, y),
     publish (if DeletionTimestamp y \<noteq> None \<and> Finalizers y = [] then without (key_of y) (sharedObjects sh)
       else replaced y (sharedObjects sh)) sh))"

definition server_create ::
  "'o ObjectMeta_scheme \<Rightarrow> 'o ObjectMeta_scheme shared
    \<Rightarrow> (error option \<times> 'o ObjectMeta_scheme) \<times> 'o ObjectMeta_scheme shared" where
  "server_create x sh =
     (if find_key (key_of x) (sharedObjects sh) \<noteq> None then ((Some (APIError ''AlreadyExists''), x), sh)
      else let y = stamped sh (x\<lparr>DeletionTimestamp := None\<rparr>)
        in ((None, y), publish (sharedObjects sh @ [y]) sh))"

text \<open>An object under deletion gets no new finalizers.\<close>

definition forbidden :: "'o ObjectMeta_scheme \<Rightarrow> string list \<Rightarrow> bool" where
  "forbidden old fs \<longleftrightarrow> DeletionTimestamp old \<noteq> None \<and> \<not> set fs \<subseteq> set (Finalizers old)"

text \<open>\<open>keep old x\<close> is \<open>x\<close> with the parts of \<open>old\<close> that the write does not touch.\<close>

definition server_update ::
  "('o ObjectMeta_scheme \<Rightarrow> 'o ObjectMeta_scheme \<Rightarrow> 'o ObjectMeta_scheme)
    \<Rightarrow> 'o ObjectMeta_scheme \<Rightarrow> 'o ObjectMeta_scheme shared
    \<Rightarrow> (error option \<times> 'o ObjectMeta_scheme) \<times> 'o ObjectMeta_scheme shared" where
  "server_update keep x sh =
     (case find_key (key_of x) (sharedObjects sh) of
        None \<Rightarrow> ((Some NotFound, x), sh)
      | Some old \<Rightarrow>
          if ResourceVersion old \<noteq> ResourceVersion x then ((Some Conflict, x), sh)
          else if forbidden old (Finalizers (keep old x)) then ((Some (APIError ''Forbidden''), x), sh)
          else accepted ((keep old x)\<lparr>DeletionTimestamp := DeletionTimestamp old\<rparr>) sh)"

text \<open>A merge patch from \<open>base\<close> to \<open>x\<close>, which differ in their finalizers only.\<close>

definition server_patch ::
  "'o ObjectMeta_scheme \<Rightarrow> 'o ObjectMeta_scheme \<Rightarrow> 'o ObjectMeta_scheme shared
    \<Rightarrow> (error option \<times> 'o ObjectMeta_scheme) \<times> 'o ObjectMeta_scheme shared" where
  "server_patch x base sh =
     (case find_key (key_of x) (sharedObjects sh) of
        None \<Rightarrow> ((Some NotFound, x), sh)
      | Some old \<Rightarrow>
          if Finalizers x = Finalizers base then ((None, old), sh)
          else if forbidden old (Finalizers x) then ((Some (APIError ''Forbidden''), x), sh)
          else accepted (old\<lparr>Finalizers := Finalizers x\<rparr>) sh)"

definition server_delete ::
  "key \<Rightarrow> 'o ObjectMeta_scheme shared \<Rightarrow> error option \<times> 'o ObjectMeta_scheme shared" where
  "server_delete k sh =
     (case find_key k (sharedObjects sh) of
        None \<Rightarrow> (Some NotFound, sh)
      | Some old \<Rightarrow>
          if DeletionTimestamp old \<noteq> None then (None, sh)
          else (None, snd (accepted (old\<lparr>DeletionTimestamp := Some ''now''\<rparr>) sh)))"

section \<open>What others do\<close>

text \<open>
  Others create objects, write them in any way that leaves the controller's finalizer alone and
  delete them; and the cache gets on by one version.
\<close>

datatype 'o move = Created 'o | Written 'o | Deleted key | CacheGetsOn

fun moved :: "string \<Rightarrow> 'o ObjectMeta_scheme move \<Rightarrow> 'o ObjectMeta_scheme shared \<Rightarrow> 'o ObjectMeta_scheme shared" where
  "moved fin (Created x) sh = snd (server_create x sh)"
| "moved fin (Written x) sh =
     (case find_key (key_of x) (sharedObjects sh) of
        None \<Rightarrow> sh
      | Some old \<Rightarrow>
          if fin \<in> set (Finalizers old) \<and> fin \<notin> set (Finalizers x) then sh
          else snd (accepted (x\<lparr>DeletionTimestamp := DeletionTimestamp old\<rparr>) sh))"
| "moved fin (Deleted k) sh = snd (server_delete k sh)"
| "moved fin CacheGetsOn sh = sh\<lparr>sharedPast := tl (sharedPast sh)\<rparr>"

section \<open>The invariant\<close>

text \<open>
  Of two versions of the collection, the later one has the same objects or newer ones; no object is
  newer than the last write; and what any version not yet left behind shows as wanted and with the
  finalizer is still stored with it.
\<close>

definition not_newer :: "'o ObjectMeta_scheme list \<Rightarrow> 'o ObjectMeta_scheme list \<Rightarrow> bool" where
  "not_newer xs ys \<longleftrightarrow> (\<forall>x \<in> set xs. \<forall>y \<in> set ys. key_of x = key_of y \<longrightarrow>
     x = y \<or> length (ResourceVersion x) < length (ResourceVersion y))"

definition holds :: "string \<Rightarrow> 'o ObjectMeta_scheme shared \<Rightarrow> key \<Rightarrow> bool" where
  "holds fin sh k \<longleftrightarrow> (\<exists>y \<in> set (sharedObjects sh). key_of y = k \<and> fin \<in> set (Finalizers y))"

definition in_order :: "'o ObjectMeta_scheme shared \<Rightarrow> bool" where
  "in_order sh \<longleftrightarrow> sorted_wrt not_newer (versions sh) \<and> (\<forall>v \<in> set (versions sh). not_newer v v) \<and>
     (\<forall>v \<in> set (versions sh). \<forall>x \<in> set v. length (ResourceVersion x) \<le> sharedRevision sh)"

definition sound :: "('o ObjectMeta_scheme \<Rightarrow> bool) \<Rightarrow> string \<Rightarrow> 'o ObjectMeta_scheme shared \<Rightarrow> bool" where
  "sound wanted fin sh \<longleftrightarrow> in_order sh \<and>
     (\<forall>v \<in> set (versions sh). \<forall>x \<in> set v. wanted x \<longrightarrow> fin \<in> set (Finalizers x) \<longrightarrow> holds fin sh (key_of x))"

text \<open>The cache has got as far as \<open>x\<close>: other versions of it still to be shown are newer.\<close>

definition reached :: "'o ObjectMeta_scheme shared \<Rightarrow> 'o ObjectMeta_scheme \<Rightarrow> bool" where
  "reached sh x \<longleftrightarrow> length (ResourceVersion x) \<le> sharedRevision sh \<and>
     (\<forall>v \<in> set (versions sh). \<forall>y \<in> set v. key_of y = key_of x \<longrightarrow>
        y = x \<or> length (ResourceVersion x) < length (ResourceVersion y))"

abbreviation steady_shared ::
  "('o ObjectMeta_scheme \<Rightarrow> bool) \<Rightarrow> string \<Rightarrow> ('o ObjectMeta_scheme shared \<Rightarrow> 'r \<times> 'o ObjectMeta_scheme shared) \<Rightarrow> bool" where
  "steady_shared wanted fin \<equiv> steady (sound wanted fin) (holds fin) reached"

lemma versions_publish: "versions (publish xs sh) = versions sh @ [xs]"
  by (simp add: versions_def publish_def)

lemma publish_fields [simp]:
  "sharedObjects (publish xs sh) = xs" "sharedRevision (publish xs sh) = Suc (sharedRevision sh)"
  by (simp_all add: publish_def)

lemma current_version: "sharedObjects sh \<in> set (versions sh)"
  by (simp add: versions_def)

text \<open>A new collection whose objects are old ones or new versions, one for a key.\<close>

definition follows :: "'o ObjectMeta_scheme list \<Rightarrow> 'o ObjectMeta_scheme shared \<Rightarrow> bool" where
  "follows xs sh \<longleftrightarrow> not_newer xs xs \<and>
     (\<forall>y \<in> set xs. y \<in> set (sharedObjects sh) \<or> length (ResourceVersion y) = Suc (sharedRevision sh))"

lemma publish_in_order:
  assumes "in_order sh" and "follows xs sh"
  shows "in_order (publish xs sh)"
proof -
  have "not_newer v xs" if v: "v \<in> set (versions sh)" for v
  proof -
    have "not_newer v (sharedObjects sh)"
      using assms(1) v unfolding in_order_def versions_def by (auto simp: sorted_wrt_append)
    moreover have "\<forall>x \<in> set v. length (ResourceVersion x) \<le> sharedRevision sh"
      using assms(1) v by (auto simp: in_order_def)
    ultimately show ?thesis
      using assms(2) unfolding follows_def not_newer_def by (metis le_imp_less_Suc)
  qed
  moreover have "\<forall>y \<in> set xs. length (ResourceVersion y) \<le> Suc (sharedRevision sh)"
    using assms current_version [of sh] unfolding follows_def in_order_def by (metis le_SucI order_refl)
  moreover have "not_newer xs xs" using assms(2) by (simp add: follows_def)
  ultimately show ?thesis
    using assms(1) by (auto simp: in_order_def versions_publish sorted_wrt_append intro: le_SucI)
qed

lemma publish_reached:
  assumes "follows xs sh" and "reached sh x"
  shows "reached (publish xs sh) x"
proof -
  have "y = x \<or> length (ResourceVersion x) < length (ResourceVersion y)" if "y \<in> set xs" "key_of y = key_of x" for y
    using assms that current_version [of sh] unfolding follows_def reached_def by (metis le_imp_less_Suc)
  then show ?thesis using assms(2) by (auto simp: reached_def versions_publish)
qed

text \<open>Nobody lets go of an object: the new collection keeps all that is held.\<close>

lemma publish_sound:
  assumes "sound wanted fin sh" and "follows xs sh"
    and "\<And>v x. v \<in> set (versions sh) \<Longrightarrow> x \<in> set v \<Longrightarrow> wanted x \<Longrightarrow> fin \<in> set (Finalizers x) \<Longrightarrow>
      \<exists>y \<in> set xs. key_of y = key_of x \<and> fin \<in> set (Finalizers y)"
  shows "sound wanted fin (publish xs sh)"
  using publish_in_order [OF _ assms(2)] assms(1,3)
  by (auto simp: sound_def versions_publish holds_def)

lemma publish_steady:
  assumes "sound wanted fin sh" and "follows xs sh" and "\<And>k. holds fin sh k \<Longrightarrow> holds fin (publish xs sh) k"
  shows "sound wanted fin (publish xs sh) \<and> (\<forall>k. holds fin sh k \<longrightarrow> holds fin (publish xs sh) k) \<and>
    (\<forall>x. reached sh x \<longrightarrow> reached (publish xs sh) x)"
proof -
  have "sound wanted fin (publish xs sh)"
  proof (rule publish_sound [OF assms(1,2)])
    fix v x
    assume "v \<in> set (versions sh)" "x \<in> set v" "wanted x" "fin \<in> set (Finalizers x)"
    then have "holds fin sh (key_of x)" using assms(1) by (simp add: sound_def)
    then have "holds fin (publish xs sh) (key_of x)" by (rule assms(3))
    then show "\<exists>y \<in> set xs. key_of y = key_of x \<and> fin \<in> set (Finalizers y)" by (simp add: holds_def)
  qed
  then show ?thesis using assms(3) publish_reached [OF assms(2)] by blast
qed

section \<open>The operations keep the invariant\<close>

lemma stamped_fields [simp]:
  "key_of (stamped sh x) = key_of x" "Finalizers (stamped sh x) = Finalizers x"
  "DeletionTimestamp (stamped sh x) = DeletionTimestamp x"
  "length (ResourceVersion (stamped sh x)) = Suc (sharedRevision sh)"
  by (simp_all add: stamped_def key_of_def)

lemma unique_keys:
  assumes "in_order sh" and "x \<in> set (sharedObjects sh)" and "y \<in> set (sharedObjects sh)" and "key_of x = key_of y"
  shows "x = y"
proof -
  have "not_newer (sharedObjects sh) (sharedObjects sh)"
    using assms(1) current_version [of sh] by (simp add: in_order_def)
  then show ?thesis using assms(2-4) less_asym unfolding not_newer_def by metis
qed

lemma in_without [simp]: "y \<in> set (without k xs) \<longleftrightarrow> y \<in> set xs \<and> key_of y \<noteq> k"
  by (auto simp: without_def)

lemma in_replaced: "y \<in> set (replaced z xs) \<longleftrightarrow>
    (y = z \<and> (\<exists>x \<in> set xs. key_of x = key_of z)) \<or> (y \<in> set xs \<and> key_of y \<noteq> key_of z)"
  by (auto simp: replaced_def image_iff)

lemma holds_without: "holds fin (publish (without k (sharedObjects sh)) sh) k' \<longleftrightarrow> k' \<noteq> k \<and> holds fin sh k'"
  unfolding holds_def publish_fields Bex_def in_without by blast

lemma holds_replaced: "holds fin (publish (replaced z (sharedObjects sh)) sh) k \<longleftrightarrow>
    (if k = key_of z then fin \<in> set (Finalizers z) \<and> (\<exists>x \<in> set (sharedObjects sh). key_of x = k) else holds fin sh k)"
  unfolding holds_def publish_fields Bex_def in_replaced by auto

lemma holds_append: "holds fin sh k \<Longrightarrow> holds fin (publish (sharedObjects sh @ xs) sh) k"
  unfolding holds_def by auto

lemma followsI:
  assumes "\<And>x y. x \<in> set xs \<Longrightarrow> y \<in> set xs \<Longrightarrow> key_of x = key_of y \<Longrightarrow> x = y"
    and "\<And>y. y \<in> set xs \<Longrightarrow> y \<in> set (sharedObjects sh) \<or> length (ResourceVersion y) = Suc (sharedRevision sh)"
  shows "follows xs sh"
  using assms unfolding follows_def not_newer_def by blast

lemma follows_without: "in_order sh \<Longrightarrow> follows (without k (sharedObjects sh)) sh"
  by (rule followsI) (simp_all add: unique_keys)

lemma follows_replaced: "in_order sh \<Longrightarrow> follows (replaced (stamped sh x) (sharedObjects sh)) sh"
  by (rule followsI) (use unique_keys [of sh] in \<open>fastforce simp: in_replaced\<close>)+

lemma follows_append:
  assumes "in_order sh" and "find_key (key_of x) (sharedObjects sh) = None"
  shows "follows (sharedObjects sh @ [stamped sh x]) sh"
  by (rule followsI) (use unique_keys [OF assms(1)] find_key_NoneD [OF assms(2)] in \<open>fastforce simp: eq_commute [of "key_of x"]\<close>)+

text \<open>A write that does not take the finalizer away lets go of nothing.\<close>

lemma accepted_steady:
  assumes "sound wanted fin sh" and "find_key (key_of x) (sharedObjects sh) = Some old"
    and "fin \<in> set (Finalizers old) \<Longrightarrow> fin \<in> set (Finalizers x)" and "accepted x sh = (r, sh')"
  shows "sound wanted fin sh' \<and> (\<forall>k. holds fin sh k \<longrightarrow> holds fin sh' k) \<and> (\<forall>y. reached sh y \<longrightarrow> reached sh' y)"
proof -
  have order: "in_order sh" using assms(1) by (simp add: sound_def)
  have old: "old \<in> set (sharedObjects sh)" "key_of old = key_of x" using find_keyD [OF assms(2)] by blast+
  have only: "y \<in> set (sharedObjects sh) \<Longrightarrow> key_of y = key_of x \<Longrightarrow> y = old" for y
    using unique_keys [OF order _ old(1)] old(2) by simp
  show ?thesis
  proof (cases "DeletionTimestamp x \<noteq> None \<and> Finalizers x = []")
    case True
    then have sh': "sh' = publish (without (key_of x) (sharedObjects sh)) sh"
      using assms(4) by (auto simp: accepted_def Let_def)
    show ?thesis unfolding sh'
      by (rule publish_steady [OF assms(1) follows_without [OF order]])
        (use True assms(3) only in \<open>unfold holds_without, fastforce simp: holds_def\<close>)
  next
    case False
    then have sh': "sh' = publish (replaced (stamped sh x) (sharedObjects sh)) sh"
      using assms(4) by (auto simp: accepted_def Let_def)
    have "fin \<in> set (Finalizers x)" if "holds fin sh (key_of x)"
      using that only assms(3) unfolding holds_def by blast
    then have "holds fin (publish (replaced (stamped sh x) (sharedObjects sh)) sh) k" if "holds fin sh k" for k
      using that old by (auto simp: holds_replaced)
    then show ?thesis unfolding sh'
      by (rule publish_steady [OF assms(1) follows_replaced [OF order]])
  qed
qed

lemma accepted_holds:
  assumes "find_key (key_of x) (sharedObjects sh) = Some old" and "fin \<in> set (Finalizers x)"
    and "accepted x sh = (r, sh')"
  shows "holds fin sh' (key_of x)" and "key_of (snd r) = key_of x"
proof -
  have "Finalizers x \<noteq> []" using assms(2) by auto
  then have sh': "sh' = publish (replaced (stamped sh x) (sharedObjects sh)) sh" "r = (None, stamped sh x)"
    using assms(3) by (auto simp: accepted_def Let_def)
  then show "holds fin sh' (key_of x)" and "key_of (snd r) = key_of x"
    using find_keyD [OF assms(1)] assms(2) by (auto simp: holds_replaced)
qed

lemma create_steady: "steady_shared wanted fin (server_create x)"
  unfolding steady_def
proof (intro allI impI)
  fix sh r sh'
  assume sh: "sound wanted fin sh" "server_create x sh = (r, sh')"
  show "sound wanted fin sh' \<and> (\<forall>k. holds fin sh k \<longrightarrow> holds fin sh' k) \<and> (\<forall>y. reached sh y \<longrightarrow> reached sh' y)"
  proof (cases "find_key (key_of x) (sharedObjects sh)")
    case None
    let ?x = "x\<lparr>DeletionTimestamp := None\<rparr>"
    have key: "key_of ?x = key_of x" by (simp add: key_of_def)
    have sh': "sh' = publish (sharedObjects sh @ [stamped sh ?x]) sh"
      using sh(2) None by (auto simp: server_create_def Let_def)
    have "in_order sh" using sh(1) by (simp add: sound_def)
    then have "follows (sharedObjects sh @ [stamped sh ?x]) sh"
      by (rule follows_append) (simp add: key None)
    then show ?thesis unfolding sh' by (rule publish_steady [OF sh(1)]) (rule holds_append)
  qed (use sh in \<open>auto simp: server_create_def\<close>)
qed

lemma delete_steady: "steady_shared wanted fin (server_delete k)"
  unfolding steady_def
proof (intro allI impI)
  fix sh r sh'
  assume sh: "sound wanted fin sh" "server_delete k sh = (r, sh')"
  show "sound wanted fin sh' \<and> (\<forall>k. holds fin sh k \<longrightarrow> holds fin sh' k) \<and> (\<forall>y. reached sh y \<longrightarrow> reached sh' y)"
  proof (cases "find_key k (sharedObjects sh)")
    case (Some old)
    let ?x = "old\<lparr>DeletionTimestamp := Some ''now''\<rparr>"
    have key: "key_of ?x = k" using find_keyD [OF Some] by (simp add: key_of_def)
    show ?thesis
    proof (cases "DeletionTimestamp old")
      case None
      obtain r2 where "accepted ?x sh = (r2, sh')"
        using sh(2) Some None by (cases "accepted ?x sh") (auto simp: server_delete_def)
      then show ?thesis by (rule accepted_steady [OF sh(1), of ?x old, unfolded key, OF Some, rotated]) simp
    qed (use sh Some in \<open>auto simp: server_delete_def\<close>)
  qed (use sh in \<open>auto simp: server_delete_def\<close>)
qed

text \<open>The operations on an existing object, whatever part of it they write.\<close>

lemma steady_sharedI:
  assumes "\<And>sh r sh'. sound wanted fin sh \<Longrightarrow> f sh = (r, sh') \<Longrightarrow> sh' = sh \<or>
    (\<exists>x old r2. find_key (key_of x) (sharedObjects sh) = Some old \<and>
      (fin \<in> set (Finalizers old) \<longrightarrow> fin \<in> set (Finalizers x)) \<and> accepted x sh = (r2, sh'))"
  shows "steady_shared wanted fin f"
  unfolding steady_def
proof (intro allI impI)
  fix sh r sh'
  assume sh: "sound wanted fin sh" "f sh = (r, sh')"
  from assms [OF this] show "sound wanted fin sh' \<and> (\<forall>k. holds fin sh k \<longrightarrow> holds fin sh' k) \<and>
      (\<forall>y. reached sh y \<longrightarrow> reached sh' y)"
    using accepted_steady [OF sh(1)] sh(1) by blast
qed

lemma server_update_cases:
  assumes "server_update keep x sh = (r, sh')"
    and "\<forall>old. key_of old = key_of x \<longrightarrow> key_of (keep old x) = key_of x"
  obtains (refused) "sh' = sh" and "fst r \<noteq> None"
    | (written) old where "find_key (key_of x) (sharedObjects sh) = Some old"
        and "ResourceVersion old = ResourceVersion x"
        and "accepted ((keep old x)\<lparr>DeletionTimestamp := DeletionTimestamp old\<rparr>) sh = (r, sh')"
        and "key_of ((keep old x)\<lparr>DeletionTimestamp := DeletionTimestamp old\<rparr>) = key_of x"
proof (cases "find_key (key_of x) (sharedObjects sh)")
  case None
  then show thesis using assms(1) refused by (auto simp: server_update_def)
next
  case (Some old)
  have "key_of ((keep old x)\<lparr>DeletionTimestamp := DeletionTimestamp old\<rparr>) = key_of x"
    using assms(2) find_keyD [OF Some] by (simp add: key_of_def)
  then show thesis using assms(1) Some refused written [OF Some]
    by (auto simp: server_update_def split: if_splits)
qed

lemma server_update_steady:
  assumes "\<forall>old. key_of old = key_of x \<longrightarrow> key_of (keep old x) = key_of x"
    and "\<And>old. fin \<in> set (Finalizers old) \<Longrightarrow> fin \<in> set (Finalizers (keep old x))"
  shows "steady_shared wanted fin (server_update keep x)"
proof (rule steady_sharedI)
  fix sh r sh'
  assume run: "server_update keep x sh = (r, sh')"
  from run assms(1) show "sh' = sh \<or> (\<exists>x old r2. find_key (key_of x) (sharedObjects sh) = Some old \<and>
      (fin \<in> set (Finalizers old) \<longrightarrow> fin \<in> set (Finalizers x)) \<and> accepted x sh = (r2, sh'))"
  proof (cases rule: server_update_cases)
    case (written old)
    then show ?thesis using assms(2)
      by (intro disjI2 exI [of _ "(keep old x)\<lparr>DeletionTimestamp := DeletionTimestamp old\<rparr>"] exI [of _ old] exI [of _ r]) simp
  qed simp
qed

lemma server_update_holds:
  assumes "\<forall>old. key_of old = key_of x \<longrightarrow> key_of (keep old x) = key_of x" and "\<And>old. fin \<in> set (Finalizers (keep old x))"
    and "server_update keep x sh = ((None, y), sh')"
  shows "holds fin sh' (key_of x) \<and> key_of y = key_of x"
  using assms(3,1)
proof (cases rule: server_update_cases)
  case (written old)
  let ?z = "(keep old x)\<lparr>DeletionTimestamp := DeletionTimestamp old\<rparr>"
  have "fin \<in> set (Finalizers ?z)" by (simp add: assms(2))
  from accepted_holds [OF _ this written(3), of old] show ?thesis using written(1,4) by simp
qed simp

lemma server_patch_steady:
  assumes "fin \<in> set (Finalizers x)"
  shows "steady_shared wanted fin (server_patch x base)"
proof (rule steady_sharedI)
  fix sh r sh'
  assume run: "server_patch x base sh = (r, sh')"
  show "sh' = sh \<or> (\<exists>x old r2. find_key (key_of x) (sharedObjects sh) = Some old \<and>
      (fin \<in> set (Finalizers old) \<longrightarrow> fin \<in> set (Finalizers x)) \<and> accepted x sh = (r2, sh'))"
  proof (cases "find_key (key_of x) (sharedObjects sh)")
    case (Some old)
    have "key_of (old\<lparr>Finalizers := Finalizers x\<rparr>) = key_of x" using find_keyD [OF Some] by (simp add: key_of_def)
    moreover have "sh' = sh \<or> accepted (old\<lparr>Finalizers := Finalizers x\<rparr>) sh = (r, sh')"
      using run Some by (auto simp: server_patch_def split: if_splits)
    moreover have "fin \<in> set (Finalizers (old\<lparr>Finalizers := Finalizers x\<rparr>))" by (simp add: assms)
    ultimately show ?thesis using Some by metis
  qed (use run in \<open>simp add: server_patch_def\<close>)
qed

lemma server_patch_holds:
  assumes "fin \<in> set (Finalizers x)" and "fin \<notin> set (Finalizers base)" and "server_patch x base sh = ((None, y), sh')"
  shows "holds fin sh' (key_of x)"
proof (cases "find_key (key_of x) (sharedObjects sh)")
  case (Some old)
  let ?z = "old\<lparr>Finalizers := Finalizers x\<rparr>"
  have key: "key_of ?z = key_of x" using find_keyD [OF Some] by (simp add: key_of_def)
  have "Finalizers x \<noteq> Finalizers base" using assms(1,2) by auto
  then have "accepted ?z sh = ((None, y), sh')"
    using assms(3) Some by (auto simp: server_patch_def split: if_splits)
  then show ?thesis using accepted_holds(1) [of ?z sh old fin] Some assms(1) key by simp
qed (use assms in \<open>simp add: server_patch_def\<close>)

section \<open>What the cache shows\<close>

lemma shown_version: "shown sh \<in> set (versions sh)"
  by (cases "sharedPast sh") (simp_all add: shown_def versions_def)

lemma shown_reached:
  assumes "in_order sh" and "x \<in> set (shown sh)"
  shows "reached sh x"
proof -
  obtain vs where vs: "versions sh = shown sh # vs"
    by (cases "sharedPast sh") (auto simp: shown_def versions_def)
  have "\<forall>v \<in> set (versions sh). not_newer (shown sh) v"
    using assms(1) unfolding in_order_def vs by auto
  moreover have "length (ResourceVersion x) \<le> sharedRevision sh"
    using assms shown_version [of sh] by (auto simp: in_order_def)
  ultimately show ?thesis using assms(2) unfolding reached_def not_newer_def by metis
qed

text \<open>
  The controller lets go of \<open>x\<close>, which it has read and does not want: accepted from the stored
  version only, so that no other version of the object is still to be shown.
\<close>

lemma server_update_let_go:
  assumes "sound wanted fin sh" and "reached sh x" and "\<not> wanted x"
    and keep: "\<forall>old. key_of old = key_of x \<longrightarrow> key_of (keep old (x\<lparr>Finalizers := fs\<rparr>)) = key_of x"
    and run: "server_update keep (x\<lparr>Finalizers := fs\<rparr>) sh = (r, sh')"
  shows "sound wanted fin sh' \<and> (\<forall>k. k \<noteq> key_of x \<longrightarrow> holds fin sh k \<longrightarrow> holds fin sh' k)"
proof -
  have key: "key_of (x\<lparr>Finalizers := fs\<rparr>) = key_of x" by (simp add: key_of_def)
  have order: "in_order sh" using assms(1) by (simp add: sound_def)
  from run keep [folded key] show ?thesis
  proof (cases rule: server_update_cases)
    case (written old)
    note old = find_keyD [OF written(1)]
    have only: "y = x" if y: "v \<in> set (versions sh)" "y \<in> set v" "key_of y = key_of x" for v y
    proof -
      have "not_newer v (sharedObjects sh)"
        using order y(1) unfolding in_order_def versions_def by (auto simp: sorted_wrt_append)
      then have "y = old \<or> length (ResourceVersion y) < length (ResourceVersion old)"
        using y(2,3) old key unfolding not_newer_def by metis
      then have "y = old \<or> length (ResourceVersion y) < length (ResourceVersion x)" by (simp add: written(2))
      moreover have "old = x"
        using assms(2) old key written(2) current_version [of sh] unfolding reached_def by fastforce
      ultimately show ?thesis using assms(2) y unfolding reached_def by (metis less_asym)
    qed
    obtain z xs where sh': "sh' = publish xs sh" "key_of z = key_of x"
        "xs = without (key_of z) (sharedObjects sh) \<or> xs = replaced (stamped sh z) (sharedObjects sh)"
      using written(3,4) key by (auto simp: accepted_def Let_def split: if_splits)
    have "follows xs sh" using sh'(3) follows_without [OF order] follows_replaced [OF order] by blast
    moreover have others: "holds fin sh' k" if "k \<noteq> key_of x" "holds fin sh k" for k
      using that sh' by (auto simp: holds_without holds_replaced)
    moreover have "\<exists>y \<in> set xs. key_of y = key_of w \<and> fin \<in> set (Finalizers y)"
      if "v \<in> set (versions sh)" "w \<in> set v" "wanted w" "fin \<in> set (Finalizers w)" for v w
    proof -
      have "key_of w \<noteq> key_of x" using only [OF that(1,2)] that(3) assms(3) by blast
      moreover have "holds fin sh (key_of w)" using assms(1) that by (simp add: sound_def)
      ultimately have "holds fin sh' (key_of w)" by (rule others)
      then show ?thesis by (simp add: sh'(1) holds_def)
    qed
    ultimately show ?thesis using publish_sound [OF assms(1)] sh'(1) by blast
  qed (use assms(1) in simp)
qed

section \<open>The others keep the invariant\<close>

lemma moved_steady:
  "steady_shared wanted fin (\<lambda>sh. ((), moved fin m sh))"
proof (cases m)
  case (Created x)
  then show ?thesis using create_steady [of wanted fin x] by (auto simp: steady_def split: prod.splits) (metis prod.collapse)+
next
  case (Written x)
  show ?thesis
  proof (rule steady_sharedI)
    fix sh and r :: unit and sh'
    assume run: "((), moved fin m sh) = (r, sh')"
    show "sh' = sh \<or> (\<exists>x old r2. find_key (key_of x) (sharedObjects sh) = Some old \<and>
        (fin \<in> set (Finalizers old) \<longrightarrow> fin \<in> set (Finalizers x)) \<and> accepted x sh = (r2, sh'))"
    proof (cases "find_key (key_of x) (sharedObjects sh)")
      case (Some old)
      let ?z = "x\<lparr>DeletionTimestamp := DeletionTimestamp old\<rparr>"
      have "key_of ?z = key_of x" by (simp add: key_of_def)
      moreover have "sh' = sh \<or> (fin \<in> set (Finalizers old) \<longrightarrow> fin \<in> set (Finalizers ?z)) \<and> sh' = snd (accepted ?z sh)"
        using run Some Written by (auto split: if_splits)
      ultimately show ?thesis using Some by (metis prod.collapse)
    qed (use run Written in simp)
  qed
next
  case (Deleted k)
  then show ?thesis using delete_steady [of wanted fin k] by (auto simp: steady_def split: prod.splits) (metis prod.collapse)+
next
  case CacheGetsOn
  have *: "set (versions (sh\<lparr>sharedPast := tl (sharedPast sh)\<rparr>)) \<subseteq> set (versions sh)" for sh :: "'a ObjectMeta_scheme shared"
    by (auto simp: versions_def intro: list.set_sel(2))
  have "in_order sh \<Longrightarrow> sorted_wrt not_newer (versions (sh\<lparr>sharedPast := tl (sharedPast sh)\<rparr>))" for sh :: "'a ObjectMeta_scheme shared"
    by (cases "sharedPast sh") (auto simp: in_order_def versions_def)
  then show ?thesis using * CacheGetsOn
    by (auto simp: steady_def sound_def in_order_def reached_def holds_def) blast+
qed

end
