(* ===== verification/Settling.thy ===== *)
theory Settling
  imports ApiClient
begin

text \<open>
  The pattern of the status writers of an ingress: compare, store, and after a conflict read
  again and retry. What such a retry has seen to when it returns nil, from the calls it made:
  the object \<open>mci\<close> it started with was as wanted, or its last call stored a wanted object, or its
  last call read one; unless a read after a conflict failed.
\<close>

definition settled :: "key \<Rightarrow> (MultiClusterIngress \<Rightarrow> bool) \<Rightarrow> MultiClusterIngress \<Rightarrow> call list \<Rightarrow> bool" where
  "settled k wanted mci l \<longleftrightarrow>
     l = [] \<and> wanted mci \<or>
     (\<exists>m l1. l = l1 @ [Wrote StatusVerb (MCIObj m) None] \<and> key_of m = k \<and> wanted m) \<or>
     (\<exists>m l1. l = l1 @ [Got MCIKind k (Inr (MCIObj m))] \<and> key_of m = k \<and> wanted m) \<or>
     (\<exists>e. Got MCIKind k (Inl e) \<in> set l)"

text \<open>Between two attempts: the object at hand is the one just read, unless a read failed.\<close>

definition seen :: "key \<Rightarrow> MultiClusterIngress \<Rightarrow> call list \<Rightarrow> MultiClusterIngress \<Rightarrow> call list \<Rightarrow> bool" where
  "seen k mci l0 m l \<longleftrightarrow> key_of m = k \<and> (\<exists>qs. l = l0 @ qs \<and>
     (qs = [] \<and> m = mci \<or> (\<exists>q1. qs = q1 @ [Got MCIKind k (Inr (MCIObj m))]) \<or>
      (\<exists>e. Got MCIKind k (Inl e) \<in> set qs)))"

lemma seen_start: "seen (key_of mci) mci l mci l"
  by (simp add: seen_def)

lemma seenE:
  assumes "seen k mci l0 m l"
  obtains qs where "l = l0 @ qs" and "key_of m = k"
  using assms by (auto simp: seen_def)

lemma seen_read:
  "key_of m = k \<Longrightarrow> seen k mci l0 m (l0 @ qs @ [Got MCIKind k (Inr (MCIObj m))])"
  unfolding seen_def by blast

lemma seen_unread:
  "key_of m = k \<Longrightarrow> seen k mci l0 m (l0 @ qs @ [Got MCIKind k (Inl e)])"
  unfolding seen_def by (metis in_set_conv_decomp)

lemma seen_settled:
  assumes "seen k mci l0 m l" and "wanted m"
  shows "\<exists>qs. l = l0 @ qs \<and> settled k wanted mci qs"
  using assms unfolding seen_def settled_def by blast

lemma stored_settled:
  "key_of m = k \<Longrightarrow> wanted m \<Longrightarrow> settled k wanted mci (qs @ [Wrote StatusVerb (MCIObj m) None])"
  unfolding settled_def by blast

end
