(* ===== verification/MciController.thy ===== *)
theory MciController
  imports Cloud Settling
begin

text \<open>
  pkg/controllers/multiclusteringress/mci_controller.go: the reconcile of a MultiClusterIngress.
  One definition per function of the file; a function literal passed to \<open>RetryOnConflict\<close> is a
  definition of its own that takes the variables it captures.
\<close>

section \<open>The controller\<close>

definition MCIControllerFinalizer :: string where
  "MCIControllerFinalizer = ''karmada.io/multi-cluster-ingress-controller''"

text \<open>
  The captured variables of the attempt in \<open>updateMCITrafficBlockClusters\<close>: the object \<open>mci\<close>
  points to, the object the caller's pointer points to, and whether the two are still the same
  object, so that a change of one is a change of the other.
\<close>

type_synonym block_vars = "MultiClusterIngress \<times> MultiClusterIngress \<times> bool"

record 'w MCIController =
  mciDeps :: deps
  mciClient :: "'w client"
  mciLoadBalancer :: "(MultiClusterIngress, 'w) balancer"
  mciRetry :: "(MultiClusterIngress, ('w, call) world) retrier"
  mciBlockRetry :: "(block_vars, ('w, call) world) retrier"
  mciProviderClassName :: string

section \<open>Status\<close>

definition with_lb_status :: "LoadBalancerStatus \<Rightarrow> MultiClusterIngress \<Rightarrow> MultiClusterIngress" where
  "with_lb_status st mci = mci\<lparr>mciStatus := (mciStatus mci)\<lparr>statusLoadBalancer := st\<rparr>\<rparr>"

definition with_blocked :: "string slice \<Rightarrow> MultiClusterIngress \<Rightarrow> MultiClusterIngress" where
  "with_blocked cs mci = mci\<lparr>mciStatus := (mciStatus mci)\<lparr>TrafficBlockClusters := cs\<rparr>\<rparr>"

definition mci_status_attempt ::
  "'w MCIController \<Rightarrow> LoadBalancerStatus \<Rightarrow> MultiClusterIngress
    \<Rightarrow> ('w, error option \<times> MultiClusterIngress) io" where
  "mci_status_attempt c newStatus mci = do {
     (updateErr, mci) \<leftarrow> api_status_update MCIObj (mcis (mciClient c)) (with_lb_status newStatus mci);
     if updateErr = None then ret (None, mci)
     else do {
       r \<leftarrow> api_get MCIKind MCIObj (mcis (mciClient c)) (key_of mci);
       case r of
         Inr updated \<Rightarrow> ret (updateErr, updated)
       | Inl e \<Rightarrow> ret (updateErr, mci)
     }
   }"

text \<open>Unlike the MultiClusterService controller, this one dereferences the status unguarded.\<close>

definition updateMCIStatus ::
  "'w MCIController \<Rightarrow> MultiClusterIngress \<Rightarrow> LoadBalancerStatus option \<Rightarrow> ('w, error option) io" where
  "updateMCIStatus c mci newStatus =
     (case newStatus of
        None \<Rightarrow> ret (Some Panic)
      | Some st \<Rightarrow>
          if statusLoadBalancer (mciStatus mci) = st then ret None
          else do {
            (err, _) \<leftarrow> mciRetry c (mci_status_attempt c st) mci;
            ret err
          })"

definition handleMCICreate ::
  "'w MCIController \<Rightarrow> MultiClusterIngress \<Rightarrow> ('w, error option) io" where
  "handleMCICreate c mci = do {
     (status, err) \<leftarrow> lb_ensure MCIObj (mciLoadBalancer c) mci;
     if err \<noteq> None then ret err
     else updateMCIStatus c mci status
   }"

definition handleMCIUpdate ::
  "'w MCIController \<Rightarrow> MultiClusterIngress \<Rightarrow> ('w, error option) io" where
  "handleMCIUpdate c mci = do {
     (status, err) \<leftarrow> lb_update MCIObj (mciLoadBalancer c) mci;
     if err \<noteq> None then ret err
     else updateMCIStatus c mci status
   }"

section \<open>Traffic blocking\<close>

fun has_action :: "string \<Rightarrow> string list \<Rightarrow> bool" where
  "has_action a [] = False"
| "has_action a (x # xs) = (if x = a then True else has_action a xs)"

text \<open>The names inserted into \<open>locatedClusters\<close>, in order.\<close>

fun located_names :: "ServiceLocation list \<Rightarrow> string list" where
  "located_names [] = []"
| "located_names (loc # locs) = elems (LocationClusters loc) @ located_names locs"

fun collect_blocked :: "deps \<Rightarrow> string list \<Rightarrow> Cluster list \<Rightarrow> string slice \<Rightarrow> string slice" where
  "collect_blocked d located [] acc = acc"
| "collect_blocked d located (cluster # cs) acc =
     (if \<not> SetsHas d located (Name cluster) then collect_blocked d located cs acc
      else if has_action (TrafficControl d) (elems (RemedyActions cluster))
      then collect_blocked d located cs (append_slice acc (Name cluster))
      else collect_blocked d located cs acc)"

definition block_attempt ::
  "'w MCIController \<Rightarrow> key \<Rightarrow> string slice \<Rightarrow> block_vars \<Rightarrow> ('w, error option \<times> block_vars) io" where
  "block_attempt c mciNamespacedName trafficBlockClusters vars =
     (case vars of (mci, caller, same) \<Rightarrow>
        if trafficBlockClusters = TrafficBlockClusters (mciStatus mci) then ret (None, vars)
        else do {
          (updateErr, mci) \<leftarrow>
            api_status_update MCIObj (mcis (mciClient c)) (with_blocked trafficBlockClusters mci);
          let caller = (if same then mci else caller);
          if updateErr = None then ret (None, mci, caller, same)
          else do {
            r \<leftarrow> api_get MCIKind MCIObj (mcis (mciClient c)) mciNamespacedName;
            case r of
              Inr updatedMCI \<Rightarrow> ret (updateErr, updatedMCI, caller, False)
            | Inl e \<Rightarrow> ret (updateErr, mci, caller, same)
          }
        })"

text \<open>Returns the error and the caller's object as the function leaves it.\<close>

definition updateMCITrafficBlockClusters ::
  "'w MCIController \<Rightarrow> MultiClusterIngress \<Rightarrow> ('w, error option \<times> MultiClusterIngress) io" where
  "updateMCITrafficBlockClusters c mci = do {
     let located = located_names (elems (ServiceLocations (mciStatus mci)));
     r \<leftarrow> api_list ClusterKind (clusters (mciClient c)) all_objects;
     case r of
       Inl e \<Rightarrow> ret (Some e, mci)
     | Inr clusterList \<Rightarrow> do {
         let trafficBlockClusters =
           sort_Strings (collect_blocked (mciDeps c) located clusterList None);
         (err, (_, caller, _)) \<leftarrow>
           mciBlockRetry c (block_attempt c (key_of mci) trafficBlockClusters) (mci, mci, True);
         ret (err, caller)
       }
   }"

section \<open>Reconcile\<close>

text \<open>The part of \<open>handleMCICreateOrUpdate\<close> after the finalizer.\<close>

definition sync_balancer ::
  "'w MCIController \<Rightarrow> MultiClusterIngress \<Rightarrow> ('w, error option) io" where
  "sync_balancer c mci = do {
     (err, mci) \<leftarrow> updateMCITrafficBlockClusters c mci;
     if err \<noteq> None then ret err
     else do {
       (_, exist, err) \<leftarrow> lb_get MCIObj (mciLoadBalancer c) mci;
       if err \<noteq> None then ret err
       else if exist then handleMCIUpdate c mci
       else handleMCICreate c mci
     }
   }"

definition handleMCICreateOrUpdate ::
  "'w MCIController \<Rightarrow> MultiClusterIngress \<Rightarrow> ('w, error option) io" where
  "handleMCICreateOrUpdate c mci =
     (if \<not> ContainsFinalizer (mciDeps c) (Finalizers mci) MCIControllerFinalizer
      then do {
        let modifiedObj = mci\<lparr>Finalizers :=
          snd (AddFinalizer (mciDeps c) (Finalizers mci) MCIControllerFinalizer)\<rparr>;
        (err, _) \<leftarrow> api_patch MCIObj (mcis (mciClient c)) modifiedObj mci;
        if err \<noteq> None then ret err else sync_balancer c mci
      }
      else sync_balancer c mci)"

definition handleMCIDelete ::
  "'w MCIController \<Rightarrow> MultiClusterIngress \<Rightarrow> ('w, error option) io" where
  "handleMCIDelete c mci = do {
     err \<leftarrow> lb_delete MCIObj (mciLoadBalancer c) mci;
     if err \<noteq> None then ret err
     else do {
       let (finalizersUpdated, fs) =
         RemoveFinalizer (mciDeps c) (Finalizers mci) MCIControllerFinalizer;
       let mci = mci\<lparr>Finalizers := fs\<rparr>;
       if finalizersUpdated
       then do {
         (err, _) \<leftarrow> api_update MCIObj (mcis (mciClient c)) mci;
         ret err
       }
       else ret None
     }
   }"

definition ReconcileMCI :: "'w MCIController \<Rightarrow> key \<Rightarrow> ('w, error option) io" where
  "ReconcileMCI c req = do {
     _ \<leftarrow> note_call (Reconciling MCIKind req);
     r \<leftarrow> api_get MCIKind MCIObj (mcis (mciClient c)) req;
     case r of
       Inl e \<Rightarrow> if e = NotFound then ret None else ret (Some e)
     | Inr mci \<Rightarrow>
         if \<not> IsZero (DeletionTimestamp mci) then handleMCIDelete c mci
         else handleMCICreateOrUpdate c mci
   }"

section \<open>Contracts of the libraries\<close>

definition mci_contract :: "'w MCIController \<Rightarrow> bool" where
  "mci_contract c \<longleftrightarrow> finalizers_ok (mciDeps c) \<and> retry_ok (mciRetry c) \<and>
     retry_ok (mciBlockRetry c) \<and> keeps_key (mcis (mciClient c))"

lemma mci_contractD:
  assumes "mci_contract c"
  shows "finalizers_ok (mciDeps c)" and "retry_ok (mciRetry c)" and "retry_ok (mciBlockRetry c)"
    and "keeps_key (mcis (mciClient c))"
  using assms by (simp_all add: mci_contract_def)

section \<open>The status parts\<close>

lemma with_fields [simp]:
  "key_of (with_blocked cs mci) = key_of mci" "key_of (with_lb_status st mci) = key_of mci"
  "Finalizers (with_blocked cs mci) = Finalizers mci"
  "Finalizers (with_lb_status st mci) = Finalizers mci"
  by (simp_all add: with_blocked_def with_lb_status_def key_of_def)

lemma mci_status_attempt_quiet:
  "run_state (mci_status_attempt c st v) s = (r, s') \<Longrightarrow> quietly (calls s) (calls s')"
  by (auto simp: mci_status_attempt_def run_api split: prod.splits sum.splits if_splits)

lemma block_attempt_quiet:
  "run_state (block_attempt c k cs v) s = (r, s') \<Longrightarrow> quietly (calls s) (calls s')"
  by (auto simp: block_attempt_def run_api Let_def split: prod.splits sum.splits if_splits)

lemma updateMCIStatus_quiet:
  assumes c: "mci_contract c" and run: "run_state (updateMCIStatus c mci st) s = (e, s')"
  shows "quietly (calls s) (calls s')"
proof (cases "\<exists>x. st = Some x \<and> statusLoadBalancer (mciStatus mci) \<noteq> x")
  case True
  then obtain x where x: "st = Some x" "statusLoadBalancer (mciStatus mci) \<noteq> x" by blast
  obtain e v s1 where out: "run_state (mciRetry c (mci_status_attempt c x) mci) s = ((e, v), s1)"
    by (rule out2)
  have "s' = s1" using run x by (simp add: updateMCIStatus_def out)
  then show ?thesis
    using retry_quietly [OF mci_contractD(2) [OF c] out mci_status_attempt_quiet] by simp
next
  case False
  then show ?thesis using run by (auto simp: updateMCIStatus_def split: option.splits)
qed

fun block_inv :: "key \<Rightarrow> block_vars \<Rightarrow> bool" where
  "block_inv k (mci, caller, same) \<longleftrightarrow> key_of caller = k \<and> (same \<longrightarrow> mci = caller)"

lemma block_attempt_inv:
  assumes keys: "keeps_key (mcis (mciClient c))" and vars: "block_inv k v"
    and run: "run_state (block_attempt c k cs v) s = ((e, v'), s')"
  shows "block_inv k v'"
proof -
  obtain mci caller same where v: "v = (mci, caller, same)" by (cases v)
  obtain e1 m1 w1 where
    u: "cStatusUpdate (mcis (mciClient c)) (with_blocked cs mci) (env s) = ((e1, m1), w1)"
    by (rule out2)
  have "key_of m1 = key_of mci"
    using keeps_keyD(3) [OF keys u] by simp
  then show ?thesis
    using run vars u unfolding v
    by (auto simp: block_attempt_def run_api Let_def split: prod.splits sum.splits if_splits)
qed

definition blocked_clusters :: "'w MCIController \<Rightarrow> MultiClusterIngress \<Rightarrow> Cluster list \<Rightarrow> string slice" where
  "blocked_clusters c mci cs = sort_Strings (collect_blocked (mciDeps c)
     (located_names (elems (ServiceLocations (mciStatus mci)))) cs None)"

text \<open>A run of \<open>updateMCITrafficBlockClusters\<close>: the List, then the retried attempts.\<close>

lemma run_updateMCITrafficBlockClusters:
  assumes run: "run_state (updateMCITrafficBlockClusters c mci) s = ((e, mci'), s')"
    and list: "cList (clusters (mciClient c)) all_objects (env s) = (r, w)"
  defines "s1 \<equiv> s\<lparr>env := w, calls := calls s @ [Listed ClusterKind all_objects (error_of r)]\<rparr>"
  obtains (failed) "r = Inl (the e)" and "e \<noteq> None" and "s' = s1" and "mci' = mci"
    | (tried) cs m same where "r = Inr cs" and
      "run_state (mciBlockRetry c (block_attempt c (key_of mci) (blocked_clusters c mci cs))
         (mci, mci, True)) s1 = ((e, m, mci', same), s')"
proof (cases r)
  case (Inl a)
  with run list have "e = Some a" "s' = s1" "mci' = mci"
    by (auto simp: updateMCITrafficBlockClusters_def run_api Let_def s1_def)
  with Inl show thesis by (intro failed) simp_all
next
  case (Inr cs)
  obtain e1 m1 caller same s2 where
    out: "run_state (mciBlockRetry c (block_attempt c (key_of mci) (blocked_clusters c mci cs))
       (mci, mci, True)) s1 = ((e1, m1, caller, same), s2)"
    by (rule out4)
  have "e = e1 \<and> mci' = caller \<and> s' = s2"
    using run list Inr out
    by (simp add: updateMCITrafficBlockClusters_def run_api Let_def blocked_clusters_def s1_def)
  with Inr out show thesis by (intro tried) simp_all
qed

lemma updateMCITrafficBlockClusters_quiet:
  assumes c: "mci_contract c"
    and run: "run_state (updateMCITrafficBlockClusters c mci) s = ((e, mci'), s')"
  obtains le where "quietly (calls s @ [Listed ClusterKind all_objects le]) (calls s')"
    and "le = None \<or> e \<noteq> None" and "key_of mci' = key_of mci"
proof -
  obtain r w where list: "cList (clusters (mciClient c)) all_objects (env s) = (r, w)"
    by (cases "cList (clusters (mciClient c)) all_objects (env s)")
  from run list show thesis
  proof (cases rule: run_updateMCITrafficBlockClusters)
    case failed
    then show thesis by (intro that [of "error_of r"]) auto
  next
    case (tried cs m same)
    let ?attempt = "block_attempt c (key_of mci) (blocked_clusters c mci cs)"
    let ?s = "s\<lparr>env := w, calls := calls s @ [Listed ClusterKind all_objects (error_of r)]\<rparr>"
    have "quietly (calls ?s) (calls s')"
      by (rule retry_quietly [OF mci_contractD(3) [OF c] tried(2) block_attempt_quiet])
    moreover have "block_inv (key_of mci) (m, mci', same)"
      by (rule retry_invariant [where I = "\<lambda>v s. block_inv (key_of mci) v",
            OF mci_contractD(3) [OF c] tried(2)])
        (auto intro: block_attempt_inv [OF mci_contractD(4) [OF c]])
    ultimately show thesis
      using tried(1) by (intro that [of None]) auto
  qed
qed

section \<open>The finalizer protocol\<close>

text \<open>
  The calls of a run of \<open>sync_balancer\<close>: it ends after the traffic blocking part, after the
  provider failed to say whether there is a balancer, or after the one operation that its answer
  calls for.
\<close>

lemma sync_balancer_run:
  assumes c: "mci_contract c" and run: "run_state (sync_balancer c mci) s = (e, s')"
  obtains (blocking) le where "quietly (calls s @ [Listed ClusterKind all_objects le]) (calls s')"
      and "e \<noteq> None"
    | (unknown) le l mci1 ex e2 where "quietly (calls s @ [Listed ClusterKind all_objects le]) l"
      and "le = None" and "key_of mci1 = key_of mci"
      and "calls s' = l @ [LBGot (MCIObj mci1) ex (Some e2)]" and "e = Some e2"
    | (known) le l mci1 ex e3 where "quietly (calls s @ [Listed ClusterKind all_objects le]) l"
      and "le = None" and "key_of mci1 = key_of mci"
      and "quietly (l @ [LBGot (MCIObj mci1) ex None, lb_entry ex (MCIObj mci1) e3]) (calls s')"
      and "e3 = None \<or> e = e3"
proof -
  obtain e1 mci1 s1 where r1: "run_state (updateMCITrafficBlockClusters c mci) s = ((e1, mci1), s1)"
    by (rule out2)
  from c r1 obtain le where le: "quietly (calls s @ [Listed ClusterKind all_objects le]) (calls s1)"
    and le1: "le = None \<or> e1 \<noteq> None" and key: "key_of mci1 = key_of mci"
    by (rule updateMCITrafficBlockClusters_quiet) blast
  obtain st ex e2 s2 where r2: "run_state (lb_get MCIObj (mciLoadBalancer c) mci1) s1 = ((st, ex, e2), s2)"
    by (metis surj_pair)
  have l2: "calls s2 = calls s1 @ [LBGot (MCIObj mci1) ex e2]"
    using r2 by (auto simp: lb_get_def run_lift_call split: prod.splits)
  obtain st3 e3 s3 where r3:
    "run_state ((if ex then lb_update else lb_ensure) MCIObj (mciLoadBalancer c) mci1) s2 = ((st3, e3), s3)"
    by (rule out2)
  have l3: "calls s3 = calls s2 @ [lb_entry ex (MCIObj mci1) e3]"
    using r3 by (auto simp: lb_entry_def lb_update_def lb_ensure_def run_lift_call
        split: prod.splits if_splits)
  consider "e1 \<noteq> None" | "e1 = None" "e2 \<noteq> None" | "e1 = None" "e2 = None" by blast
  then show thesis
  proof cases
    case 1
    then show thesis using run r1 le by (intro blocking [of le]) (auto simp: sync_balancer_def)
  next
    case 2
    then show thesis using run r1 r2 l2 le le1 key
      by (intro unknown [of le "calls s1" mci1 ex "the e2"]) (auto simp: sync_balancer_def)
  next
    case 3
    have "(e3 \<noteq> None \<and> e = e3 \<and> s' = s3) \<or> (e3 = None \<and> run_state (updateMCIStatus c mci1 st3) s3 = (e, s'))"
      using run r1 r2 r3 3
      by (auto simp: sync_balancer_def handleMCIUpdate_def handleMCICreate_def split: if_splits)
    then have "quietly (calls s3) (calls s')" and "e3 = None \<or> e = e3"
      using updateMCIStatus_quiet [OF c] by auto
    then show thesis using 3 le le1 key
      by (intro known [of le "calls s1" mci1 ex e3]) (auto simp: l2 l3)
  qed
qed

lemma sync_balancer_protocol:
  assumes c: "mci_contract c" and run: "run_state (sync_balancer c mci) s = (e, s')"
    and prot: "protected MCIKind MCIControllerFinalizer (key_of mci) (calls s)"
    and ok: "finalizer_protocol MCIKind MCIControllerFinalizer (calls s)"
  shows "finalizer_protocol MCIKind MCIControllerFinalizer (calls s')"
proof -
  have listed: "quietly (calls s @ [Listed ClusterKind all_objects le]) l \<Longrightarrow>
      finalizer_protocol MCIKind MCIControllerFinalizer l \<and>
      protected MCIKind MCIControllerFinalizer (key_of mci) l" for le l
    using quietly_keeps ok prot by (simp add: protocol_Listed)
  from c run show ?thesis
  proof (cases rule: sync_balancer_run)
    case blocking
    then show ?thesis using listed by blast
  next
    case (unknown le l mci1 ex e2)
    then show ?thesis using listed [of le l] by (simp add: log_simps)
  next
    case (known le l mci1 ex e3)
    then have "finalizer_protocol MCIKind MCIControllerFinalizer
        (l @ [LBGot (MCIObj mci1) ex None, lb_entry ex (MCIObj mci1) e3])"
      using listed [of le l] by (simp add: log_simps lb_entry_def)
    then show ?thesis using known(4) by (rule quietly_keeps(4) [rotated])
  qed
qed

lemma sync_balancer_failed:
  assumes c: "mci_contract c" and run: "run_state (sync_balancer c mci) s = (None, s')"
    and ok: "\<not> failed (calls s)"
  shows "\<not> failed (calls s')"
  using c run
proof (cases rule: sync_balancer_run)
  case (known le l mci1 ex e3)
  then have "\<not> failed l" using ok by (simp add: quietly_keeps protocol_Listed)
  then show ?thesis using known by (auto simp: quietly_keeps log_simps lb_entry_def)
qed simp_all

section \<open>Reconcile\<close>

lemma handleMCIDelete_run:
  assumes "run_state (handleMCIDelete c mci) s = (e, s')"
  obtains (kept) e1 where "calls s' = calls s @ [LBDeleted (MCIObj mci) e1]" and "e = e1"
      and "e1 \<noteq> None \<or> \<not> fst (RemoveFinalizer (mciDeps c) (Finalizers mci) MCIControllerFinalizer)"
    | (released) x where "calls s' = calls s @ [LBDeleted (MCIObj mci) None, Wrote UpdateVerb (MCIObj x) e]"
      and "fst (RemoveFinalizer (mciDeps c) (Finalizers mci) MCIControllerFinalizer)"
      and "x = mci\<lparr>Finalizers := snd (RemoveFinalizer (mciDeps c) (Finalizers mci) MCIControllerFinalizer)\<rparr>"
  using assms
  by (auto simp: handleMCIDelete_def run_api lb_delete_def split: prod.splits if_splits)

lemma handleMCIDelete_protocol:
  assumes c: "mci_contract c" and run: "run_state (handleMCIDelete c mci) s = (e, s')"
    and ok: "finalizer_protocol MCIKind MCIControllerFinalizer (calls s)"
  shows "finalizer_protocol MCIKind MCIControllerFinalizer (calls s')"
  using run by (cases rule: handleMCIDelete_run) (use ok in \<open>auto simp: log_simps is_obj_def\<close>)

lemma handleMCIDelete_failed:
  assumes run: "run_state (handleMCIDelete c mci) s = (None, s')" and ok: "\<not> failed (calls s)"
  shows "\<not> failed (calls s')"
  using run by (cases rule: handleMCIDelete_run) (use ok in \<open>auto simp: log_simps\<close>)

text \<open>A run of \<open>handleMCICreateOrUpdate\<close>: the object is patched first if it lacks the finalizer.\<close>

lemma handleMCICreateOrUpdate_run:
  assumes c: "mci_contract c" and run: "run_state (handleMCICreateOrUpdate c mci) s = (e, s')"
  obtains (found) "MCIControllerFinalizer \<in> set (Finalizers mci)"
      and "run_state (sync_balancer c mci) s = (e, s')"
    | (refused) x where "calls s' = calls s @ [Wrote PatchVerb (MCIObj x) e]" and "e \<noteq> None"
      and "MCIControllerFinalizer \<in> set (Finalizers x)" and "key_of x = key_of mci"
    | (patched) x s1 where "calls s1 = calls s @ [Wrote PatchVerb (MCIObj x) None]"
      and "MCIControllerFinalizer \<in> set (Finalizers x)" and "key_of x = key_of mci"
      and "run_state (sync_balancer c mci) s1 = (e, s')"
proof -
  note fin = mci_contractD(1) [OF c, THEN finalizers_okD(1)] mci_contractD(1) [OF c, THEN finalizers_okD(3)]
  let ?x = "mci\<lparr>Finalizers := snd (AddFinalizer (mciDeps c) (Finalizers mci) MCIControllerFinalizer)\<rparr>"
  obtain e1 y w where p: "cPatch (mcis (mciClient c)) ?x mci (env s) = ((e1, y), w)" by (rule out2)
  let ?s1 = "s\<lparr>env := w, calls := calls s @ [Wrote PatchVerb (MCIObj ?x) e1]\<rparr>"
  consider "MCIControllerFinalizer \<in> set (Finalizers mci)"
    | "MCIControllerFinalizer \<notin> set (Finalizers mci)" "e1 = None"
    | "MCIControllerFinalizer \<notin> set (Finalizers mci)" "e1 \<noteq> None" by blast
  then show thesis
  proof cases
    case 1
    then show thesis using run by (intro found) (auto simp: handleMCICreateOrUpdate_def fin)
  next
    case 2
    then have "run_state (sync_balancer c mci) ?s1 = (e, s')"
      using run p by (simp add: handleMCICreateOrUpdate_def fin run_api Let_def)
    then show thesis using 2 by (intro patched [of ?s1 ?x]) (simp_all add: fin)
  next
    case 3
    then have "e = e1" "s' = ?s1"
      using run p by (auto simp: handleMCICreateOrUpdate_def fin run_api Let_def)
    then show thesis using 3 by (intro refused [of ?x]) (simp_all add: fin)
  qed
qed

lemma handleMCICreateOrUpdate_protocol:
  assumes c: "mci_contract c" and run: "run_state (handleMCICreateOrUpdate c mci) s = (e, s')"
    and read: "calls s = l @ [Got MCIKind k (Inr (MCIObj mci))]"
    and ok: "finalizer_protocol MCIKind MCIControllerFinalizer l"
  shows "finalizer_protocol MCIKind MCIControllerFinalizer (calls s')"
  using c run
proof (cases rule: handleMCICreateOrUpdate_run)
  case found
  then show ?thesis
    by (intro sync_balancer_protocol [OF c found(2)])
      (use ok in \<open>auto simp: read log_simps is_obj_def carries_def\<close>)
next
  case (refused x)
  then show ?thesis using ok by (auto simp: read log_simps carries_def)
next
  case (patched x s1)
  then show ?thesis
    by (intro sync_balancer_protocol [OF c patched(4)])
      (use ok in \<open>auto simp: read log_simps is_obj_def carries_def\<close>)
qed

lemma handleMCICreateOrUpdate_failed:
  assumes c: "mci_contract c" and run: "run_state (handleMCICreateOrUpdate c mci) s = (None, s')"
    and ok: "\<not> failed (calls s)"
  shows "\<not> failed (calls s')"
  using c run
proof (cases rule: handleMCICreateOrUpdate_run)
  case (patched x s1)
  then show ?thesis using ok by (intro sync_balancer_failed [OF c patched(4)]) (simp add: log_simps)
qed (use ok sync_balancer_failed [OF c] in auto)

text \<open>A run of \<open>ReconcileMCI\<close>: one read, and the handler the object calls for.\<close>

lemma ReconcileMCI_run:
  assumes "run_state (ReconcileMCI c req) s = (e, s')"
  obtains (unread) e1 where "calls s' = calls s @ [Reconciling MCIKind req, Got MCIKind req (Inl e1)]"
      and "e = (if e1 = NotFound then None else Some e1)"
      and "cGet (mcis (mciClient c)) req (env s) = (Inl e1, env s')"
    | (deleting) mci s1 where "calls s1 = calls s @ [Reconciling MCIKind req, Got MCIKind req (Inr (MCIObj mci))]"
      and "DeletionTimestamp mci \<noteq> None" and "cGet (mcis (mciClient c)) req (env s) = (Inr mci, env s1)"
      and "run_state (handleMCIDelete c mci) s1 = (e, s')"
    | (live) mci s1 where "calls s1 = calls s @ [Reconciling MCIKind req, Got MCIKind req (Inr (MCIObj mci))]"
      and "DeletionTimestamp mci = None" and "cGet (mcis (mciClient c)) req (env s) = (Inr mci, env s1)"
      and "run_state (handleMCICreateOrUpdate c mci) s1 = (e, s')"
proof -
  obtain r w where g: "cGet (mcis (mciClient c)) req (env s) = (r, w)"
    by (cases "cGet (mcis (mciClient c)) req (env s)")
  let ?s1 = "s\<lparr>env := w, calls := calls s @ [Reconciling MCIKind req, Got MCIKind req (map_sum id MCIObj r)]\<rparr>"
  show thesis
  proof (cases r)
    case (Inl a)
    then show thesis using assms g
      by (intro unread [of a]) (auto simp: ReconcileMCI_def run_api split: if_splits)
  next
    case (Inr mci)
    show thesis
    proof (cases "DeletionTimestamp mci")
      case None
      then show thesis using assms g Inr
        by (intro live [of ?s1 mci]) (auto simp: ReconcileMCI_def run_api IsZero_def)
    next
      case (Some t)
      then show thesis using assms g Inr
        by (intro deleting [of ?s1 mci]) (auto simp: ReconcileMCI_def run_api IsZero_def)
    qed
  qed
qed

lemma ReconcileMCI_protocol:
  assumes c: "mci_contract c" and ok: "finalizer_protocol MCIKind MCIControllerFinalizer (calls s)"
  shows "finalizer_protocol MCIKind MCIControllerFinalizer (calls (snd (run_state (ReconcileMCI c req) s)))"
proof -
  obtain e s' where run: "run_state (ReconcileMCI c req) s = (e, s')"
    by (cases "run_state (ReconcileMCI c req) s")
  then have "finalizer_protocol MCIKind MCIControllerFinalizer (calls s')"
  proof (cases rule: ReconcileMCI_run)
    case (unread e1)
    then show ?thesis using ok by (simp add: log_simps)
  next
    case (deleting mci s1)
    then show ?thesis using ok
      by (intro handleMCIDelete_protocol [OF c deleting(4)]) (simp add: log_simps)
  next
    case (live mci s1)
    then show ?thesis using ok
      by (intro handleMCICreateOrUpdate_protocol [OF c live(4),
            of "calls s @ [Reconciling MCIKind req]" req]) (simp_all add: log_simps)
  qed
  then show ?thesis by (simp add: run)
qed

lemma ReconcileMCI_failed:
  assumes c: "mci_contract c" and run: "run_state (ReconcileMCI c req) s = (None, s')"
  shows "\<not> failed (calls s')"
  using run
proof (cases rule: ReconcileMCI_run)
  case (unread e1)
  then show ?thesis by (simp add: log_simps)
next
  case (deleting mci s1)
  then show ?thesis by (intro handleMCIDelete_failed [OF deleting(4)]) (simp add: log_simps)
next
  case (live mci s1)
  then show ?thesis by (intro handleMCICreateOrUpdate_failed [OF c live(4)]) (simp add: log_simps)
qed

section \<open>What the traffic blocking part computes and stores\<close>

lemma has_action_iff: "has_action a xs \<longleftrightarrow> a \<in> set xs"
  by (induction xs) auto

lemma set_located_names: "n \<in> set (located_names locs) \<longleftrightarrow> (\<exists>loc \<in> set locs. n \<in> set (elems (LocationClusters loc)))"
  by (induction locs) auto

text \<open>A cluster that some service of the ingress is located in and that is under traffic control.\<close>

definition blocked_cluster :: "deps \<Rightarrow> MultiClusterIngress \<Rightarrow> Cluster \<Rightarrow> bool" where
  "blocked_cluster d mci cluster \<longleftrightarrow>
     (\<exists>loc \<in> set (elems (ServiceLocations (mciStatus mci))). Name cluster \<in> set (elems (LocationClusters loc))) \<and>
     TrafficControl d \<in> set (elems (RemedyActions cluster))"

lemma collect_blocked_elems:
  assumes "sets_ok d"
  shows "elems (collect_blocked d located cs acc) = elems acc @
    map Name (filter (\<lambda>cl. Name cl \<in> set located \<and> TrafficControl d \<in> set (elems (RemedyActions cl))) cs)"
  by (induction cs arbitrary: acc) (simp_all add: sets_okD [OF assms] has_action_iff)

lemma blocked_clusters_elems:
  assumes "sets_ok (mciDeps c)"
  shows "elems (blocked_clusters c mci cs) = sort (map Name (filter (blocked_cluster (mciDeps c) mci) cs))"
  by (simp add: blocked_clusters_def collect_blocked_elems [OF assms] set_located_names
      blocked_cluster_def [abs_def])

lemma block_attempt_run:
  assumes keys: "keeps_key (mcis (mciClient c))"
    and run: "run_state (block_attempt c k cs (m, caller, same)) s = ((e, m', v'), s')"
  obtains (equal) "TrafficBlockClusters (mciStatus m) = cs" and "e = None" and "s' = s"
    | (stored) "e = None"
      and "calls s' = calls s @ [Wrote StatusVerb (MCIObj (with_blocked cs m)) None]"
    | (read) e1 where "e = Some e1" and "key_of m' = k"
      and "calls s' = calls s @ [Wrote StatusVerb (MCIObj (with_blocked cs m)) e, Got MCIKind k (Inr (MCIObj m'))]"
    | (unread) e1 e2 where "e = Some e1" and "key_of m' = key_of m"
      and "calls s' = calls s @ [Wrote StatusVerb (MCIObj (with_blocked cs m)) e, Got MCIKind k (Inl e2)]"
proof -
  obtain e1 m1 w1 where u: "cStatusUpdate (mcis (mciClient c)) (with_blocked cs m) (env s) = ((e1, m1), w1)"
    by (rule out2)
  obtain r w2 where g: "cGet (mcis (mciClient c)) k w1 = (r, w2)"
    by (metis surj_pair)
  have "key_of m1 = key_of m" and "r = Inr x \<Longrightarrow> key_of x = k" for x
    using keeps_keyD(3) [OF keys u] keeps_keyD(1) [OF keys] g by auto
  then show thesis using run u g that
    by (auto simp: block_attempt_def run_api Let_def split: sum.splits if_splits)
qed

definition has_blocked :: "string slice \<Rightarrow> MultiClusterIngress \<Rightarrow> bool" where
  "has_blocked cs mci \<longleftrightarrow> TrafficBlockClusters (mciStatus mci) = cs"

lemma block_attempt_seen:
  assumes keys: "keeps_key (mcis (mciClient c))" and seen: "seen k mci l0 (fst v) (calls s)"
    and run: "run_state (block_attempt c k cs v) s = ((Some Conflict, v'), s')"
  shows "seen k mci l0 (fst v') (calls s')"
proof -
  obtain m caller same where v: "v = (m, caller, same)" by (cases v)
  obtain m' u where v': "v' = (m', u)" by (cases v')
  from seen obtain qs where l: "calls s = l0 @ qs" and k: "key_of m = k"
    unfolding v fst_conv by (rule seenE)
  define wr where "wr = Wrote StatusVerb (MCIObj (with_blocked cs m)) (Some Conflict)"
  from keys run [unfolded v v'] show ?thesis
  proof (cases rule: block_attempt_run)
    case (read e1)
    then show ?thesis using seen_read [of m' k mci l0 "qs @ [wr]"] by (simp add: l v' wr_def)
  next
    case (unread e1 e2)
    then show ?thesis using seen_unread [of m' k mci l0 "qs @ [wr]"] by (simp add: l v' k wr_def)
  qed simp_all
qed

lemma block_attempt_settled:
  assumes keys: "keeps_key (mcis (mciClient c))" and seen: "seen k mci l0 (fst v) (calls s)"
    and run: "run_state (block_attempt c k cs v) s = ((None, v'), s')"
  shows "\<exists>qs. calls s' = l0 @ qs \<and> settled k (has_blocked cs) mci qs"
proof -
  obtain m caller same where v: "v = (m, caller, same)" by (cases v)
  obtain m' u where v': "v' = (m', u)" by (cases v')
  from seen obtain qs where l: "calls s = l0 @ qs" and k: "key_of m = k"
    unfolding v fst_conv by (rule seenE)
  from keys run [unfolded v v'] show ?thesis
  proof (cases rule: block_attempt_run)
    case equal
    then show ?thesis using seen by (intro seen_settled [of k mci l0 m]) (simp_all add: v has_blocked_def)
  next
    case stored
    have "has_blocked cs (with_blocked cs m)" by (simp add: has_blocked_def with_blocked_def)
    then show ?thesis using stored l k stored_settled [of "with_blocked cs m" k] by auto
  qed simp_all
qed

lemma updateMCITrafficBlockClusters_settled:
  assumes c: "mci_contract c" and run: "run_state (updateMCITrafficBlockClusters c mci) s = ((None, mci'), s')"
  obtains cs w l where "cList (clusters (mciClient c)) all_objects (env s) = (Inr cs, w)"
    and "calls s' = calls s @ Listed ClusterKind all_objects None # l"
    and "settled (key_of mci) (has_blocked (blocked_clusters c mci cs)) mci l"
proof -
  obtain r w where list: "cList (clusters (mciClient c)) all_objects (env s) = (r, w)"
    by (cases "cList (clusters (mciClient c)) all_objects (env s)")
  from run list show thesis
  proof (cases rule: run_updateMCITrafficBlockClusters)
    case failed
    then show thesis by simp
  next
    case (tried cs m same)
    let ?l0 = "calls s @ [Listed ClusterKind all_objects None]"
    let ?s1 = "s\<lparr>env := w, calls := calls s @ [Listed ClusterKind all_objects (error_of r)]\<rparr>"
    let ?k = "key_of mci"
    note keys = mci_contractD(4) [OF c]
    have "(\<lambda>v s'. \<exists>qs. calls s' = ?l0 @ qs \<and> settled ?k (has_blocked (blocked_clusters c mci cs)) mci qs)
        (m, mci', same) s'"
    proof (rule retry_success [where I = "\<lambda>v s. seen ?k mci ?l0 (fst v) (calls s)",
          OF mci_contractD(3) [OF c] tried(2)])
      show "seen ?k mci ?l0 (fst (mci, mci, True)) (calls ?s1)"
        using tried(1) seen_start by simp
    qed (use block_attempt_seen [OF keys] block_attempt_settled [OF keys] in blast)+
    then show thesis using that [of cs w] list tried(1) by auto
  qed
qed

section \<open>What a successful status update stores\<close>

lemma mci_status_attempt_run:
  assumes keys: "keeps_key (mcis (mciClient c))"
    and run: "run_state (mci_status_attempt c st v) s = ((e, v'), s')"
  shows "key_of v' = key_of v"
    and "e = None \<Longrightarrow> calls s' = calls s @ [Wrote StatusVerb (MCIObj (with_lb_status st v)) None]"
proof -
  obtain e1 m1 w1 where u: "cStatusUpdate (mcis (mciClient c)) (with_lb_status st v) (env s) = ((e1, m1), w1)"
    by (rule out2)
  obtain r w2 where g: "cGet (mcis (mciClient c)) (key_of m1) w1 = (r, w2)"
    by (metis surj_pair)
  have "key_of m1 = key_of v" and "r = Inr x \<Longrightarrow> key_of x = key_of m1" for x
    using keeps_keyD(3) [OF keys u] keeps_keyD(1) [OF keys] g by auto
  then show "key_of v' = key_of v"
    and "e = None \<Longrightarrow> calls s' = calls s @ [Wrote StatusVerb (MCIObj (with_lb_status st v)) None]"
    using run u g by (auto simp: mci_status_attempt_def run_api split: sum.splits if_splits)
qed

lemma updateMCIStatus_stored:
  assumes c: "mci_contract c" and run: "run_state (updateMCIStatus c mci newStatus) s = (None, s')"
  obtains (same) st where "newStatus = Some st" and "statusLoadBalancer (mciStatus mci) = st" and "s' = s"
    | (stored) st l m where "newStatus = Some st" and "calls s' = l @ [Wrote StatusVerb (MCIObj m) None]"
      and "key_of m = key_of mci" and "statusLoadBalancer (mciStatus m) = st"
proof (cases newStatus)
  case None
  then show thesis using run by (simp add: updateMCIStatus_def)
next
  case (Some st)
  show thesis
  proof (cases "statusLoadBalancer (mciStatus mci) = st")
    case True
    then show thesis using run Some by (intro same [of st]) (auto simp: updateMCIStatus_def)
  next
    case False
    obtain e v s1 where out: "run_state (mciRetry c (mci_status_attempt c st) mci) s = ((e, v), s1)"
      by (rule out2)
    have e: "e = None" "s1 = s'" using run Some False by (auto simp: updateMCIStatus_def out)
    note attempt = mci_status_attempt_run [OF mci_contractD(4) [OF c]]
    have "(\<lambda>v s'. \<exists>l m. calls s' = l @ [Wrote StatusVerb (MCIObj m) None] \<and> key_of m = key_of mci \<and>
        statusLoadBalancer (mciStatus m) = st) v s'"
    proof (rule retry_success [where I = "\<lambda>v s. key_of v = key_of mci",
          OF mci_contractD(2) [OF c] out [unfolded e]])
      fix v t v' t'
      assume "key_of v = key_of mci" "run_state (mci_status_attempt c st v) t = ((None, v'), t')"
      then have "calls t' = calls t @ [Wrote StatusVerb (MCIObj (with_lb_status st v)) None]"
        and "key_of (with_lb_status st v) = key_of mci"
        and "statusLoadBalancer (mciStatus (with_lb_status st v)) = st"
        using attempt(2) by (simp_all add: with_lb_status_def key_of_def)
      then show "\<exists>l m. calls t' = l @ [Wrote StatusVerb (MCIObj m) None] \<and> key_of m = key_of mci \<and>
          statusLoadBalancer (mciStatus m) = st" by blast
    qed (use attempt(1) in auto)
    then obtain l m where "calls s' = l @ [Wrote StatusVerb (MCIObj m) None]"
      and "key_of m = key_of mci" and "statusLoadBalancer (mciStatus m) = st" by blast
    then show thesis by (rule stored [OF Some])
  qed
qed

end
