(* ===== verification/MciSharing.thy ===== *)
theory MciSharing
  imports Assertions MciController
begin

text \<open>
  The ingress controller next to others that write the same objects: no call of a reconcile leaves
  the provider with a load balancer that no guarded ingress stands for. One lemma per function of
  mci_controller.go, under the laws of \<open>guarded_balancers\<close>.
\<close>

locale mci_sharing =
  guarded_balancers ok held seen "\<lambda>m. DeletionTimestamp m = None" MCIControllerFinalizer
    "mcis (mciClient c)" "mciLoadBalancer c" has own
  for c :: "'w MCIController" and ok and held and seen and has :: "'w \<Rightarrow> 'k \<Rightarrow> bool" and own +
  assumes contract: "mci_contract c"
    and clusters_steady: "steady ok held seen (cList (clusters (mciClient c)) opts)"
    and clusters_leave: "client_leaves has (clusters (mciClient c))"
begin

lemma safe_clusters [assertion_rules]: "maintains (safe K) (api_list ClusterKind (clusters (mciClient c)) opts)"
  unfolding api_defs
  by (rule maintains_steady, rule clusters_steady) (metis client_leavesD(2) clusters_leave)

lemma mci_status_attempt_safe: "maintains (safe K) (mci_status_attempt c st v)"
  unfolding mci_status_attempt_def by (rule assertion_rules | assumption)+

lemma updateMCIStatus_safe: "maintains (safe K) (updateMCIStatus c mci st)"
  unfolding updateMCIStatus_def
  by (rule assertion_rules maintains_retry mci_contractD(2) [OF contract] mci_status_attempt_safe | assumption)+

lemma block_attempt_safe: "maintains (safe K) (block_attempt c k cs v)"
  unfolding block_attempt_def by (rule assertion_rules | assumption)+

lemma updateMCITrafficBlockClusters_safe: "maintains (safe K) (updateMCITrafficBlockClusters c mci)"
  unfolding updateMCITrafficBlockClusters_def
  by (rule assertion_rules maintains_retry mci_contractD(3) [OF contract] block_attempt_safe | assumption)+

lemma write_balancer_safe:
  "maintains (safe K) (handleMCIUpdate c mci)"
  "key_of mci \<in> K \<Longrightarrow> maintains (safe K) (handleMCICreate c mci)"
  unfolding handleMCIUpdate_def handleMCICreate_def
  by (rule assertion_rules updateMCIStatus_safe | assumption)+

text \<open>The object that the traffic blocking part returns has the key of the one it was given.\<close>

lemma sync_balancer_safe:
  assumes "key_of mci \<in> K"
  shows "maintains (safe K) (sync_balancer c mci)"
proof -
  have block: "between (safe K) (updateMCITrafficBlockClusters c mci)
      (\<lambda>r w. safe K w \<and> key_of (snd r) = key_of mci)"
  proof (rule betweenI)
    fix s r s'
    assume s: "safe K (env s)" "run_state (updateMCITrafficBlockClusters c mci) s = (r, s')"
    obtain e mci' where r: "r = (e, mci')" by fastforce
    have "key_of mci' = key_of mci"
      using updateMCITrafficBlockClusters_quiet [OF contract s(2) [unfolded r]] by blast
    then show "safe K (env s') \<and> key_of (snd r) = key_of mci"
      using betweenD [OF updateMCITrafficBlockClusters_safe s(2,1)] by (simp add: r)
  qed
  have rest: "between (\<lambda>w. safe K w \<and> key_of m = key_of mci) (do {
      (_, exist, err) \<leftarrow> lb_get MCIObj (mciLoadBalancer c) m;
      if err \<noteq> None then ret err else if exist then handleMCIUpdate c m else handleMCICreate c m })
      (\<lambda>_. safe K)" for m
  proof (cases "key_of m = key_of mci")
    case True
    then have "key_of m \<in> K" using assms by simp
    then have "maintains (safe K) (do {
      (_, exist, err) \<leftarrow> lb_get MCIObj (mciLoadBalancer c) m;
      if err \<noteq> None then ret err else if exist then handleMCIUpdate c m else handleMCICreate c m })"
      by - (rule assertion_rules write_balancer_safe | assumption)+
    then show ?thesis by (rule between_consequence) simp_all
  qed (simp add: between_def)
  show ?thesis unfolding sync_balancer_def
    by (rule between_bind [OF block], rule assertion_rules, rule between_if,
        rule between_ret, simp, rule between_consequence [OF rest], simp_all)
qed

lemma handleMCICreateOrUpdate_safe:
  assumes "MCIControllerFinalizer \<in> set (Finalizers mci) \<Longrightarrow> key_of mci \<in> K"
  shows "maintains (safe K) (handleMCICreateOrUpdate c mci)"
proof (cases "MCIControllerFinalizer \<in> set (Finalizers mci)")
  case True
  then show ?thesis
    using sync_balancer_safe [OF assms [OF True]] finalizers_okD(1) [OF mci_contractD(1) [OF contract]]
    by (simp add: handleMCICreateOrUpdate_def)
next
  case False
  let ?x = "mci\<lparr>Finalizers := snd (AddFinalizer (mciDeps c) (Finalizers mci) MCIControllerFinalizer)\<rparr>"
  note fin = finalizers_okD [OF mci_contractD(1) [OF contract]]
  have x: "MCIControllerFinalizer \<in> set (Finalizers ?x)" "key_of ?x = key_of mci"
    by (simp_all add: fin(3) key_of_def)
  have sync: "between (safe (insert (key_of mci) K)) (sync_balancer c mci) (\<lambda>_. safe K)"
    by (rule between_consequence [OF sync_balancer_safe [where K = "insert (key_of mci) K"]]) (auto simp: guarded_def)
  have "between (\<lambda>w. safe K w \<and> (e = None \<longrightarrow> safe (insert (key_of mci) K) w))
      (if e \<noteq> None then ret e else sync_balancer c mci) (\<lambda>_. safe K)" for e
    by (rule between_if, rule between_ret, simp, rule between_consequence [OF sync]) auto
  then have "maintains (safe K) (do {
      (err, _) \<leftarrow> api_patch MCIObj (mcis (mciClient c)) ?x mci;
      if err \<noteq> None then ret err else sync_balancer c mci })"
    by - (rule between_bind [OF safe_patch [OF x(1) False]], rule assertion_rules, simp add: x(2))
  then show ?thesis using False by (simp add: handleMCICreateOrUpdate_def fin(1) Let_def)
qed

lemma handleMCIDelete_safe:
  assumes "DeletionTimestamp mci \<noteq> None"
  shows "between (\<lambda>w. safe {} w \<and> seen w mci) (handleMCIDelete c mci) (\<lambda>_. safe {})"
proof -
  have release: "between (\<lambda>w. safe {} w \<and> seen w mci \<and> \<not> has w (own (key_of mci)))
      (do { (err, _) \<leftarrow> api_update MCIObj (mcis (mciClient c)) (mci\<lparr>Finalizers := fs\<rparr>); ret err }) (\<lambda>_. safe {})" for fs
    by (rule between_bind [OF safe_release]) (simp_all add: assms assertion_rules)
  show ?thesis
    unfolding handleMCIDelete_def Let_def
    by (rule between_bind [OF safe_delete], rule between_if, rule between_ret, simp, rule assertion_rules,
        rule between_if, rule between_consequence [OF release], simp, simp, rule between_ret, simp)
qed

theorem ReconcileMCI_safe: "maintains (safe {}) (ReconcileMCI c req)"
proof -
  have "between (\<lambda>w. safe {} w \<and> (\<forall>x. r = Inr x \<longrightarrow> key_of x = req \<and> seen w x \<and>
      (DeletionTimestamp x = None \<longrightarrow> MCIControllerFinalizer \<in> set (Finalizers x) \<longrightarrow> safe {req} w)))
      (case r of
         Inl e \<Rightarrow> if e = NotFound then ret None else ret (Some e)
       | Inr mci \<Rightarrow>
           if \<not> IsZero (DeletionTimestamp mci) then handleMCIDelete c mci
           else handleMCICreateOrUpdate c mci) (\<lambda>_. safe {})" (is "between (?P r) _ _") for r
  proof (cases r)
    case (Inr mci)
    show ?thesis
    proof (cases "DeletionTimestamp mci")
      case None
      have "between (?P r) (handleMCICreateOrUpdate c mci) (\<lambda>_. safe {})"
      proof (cases "MCIControllerFinalizer \<in> set (Finalizers mci) \<longrightarrow> key_of mci = req")
        case True
        then show ?thesis
          by (cases "MCIControllerFinalizer \<in> set (Finalizers mci)")
            (use Inr None in \<open>auto simp: guarded_def intro: between_consequence [OF handleMCICreateOrUpdate_safe [of mci "{req}"]]
                between_consequence [OF handleMCICreateOrUpdate_safe [of mci "{}"]]\<close>)
      qed (simp add: between_def Inr)
      then show ?thesis using Inr None by (simp add: IsZero_def)
    next
      case (Some t)
      have "between (?P r) (handleMCIDelete c mci) (\<lambda>_. safe {})"
        by (rule between_consequence [OF handleMCIDelete_safe]) (use Inr Some in auto)
      then show ?thesis using Inr Some by (simp add: IsZero_def)
    qed
  qed (auto intro: assertion_rules)
  then show ?thesis
    unfolding ReconcileMCI_def
    by - (rule maintains_bind, rule assertion_rules, assumption, rule between_bind [OF safe_get])
qed

end

end
