(* ===== verification/Util.thy ===== *)
theory Util
  imports ApiClient
begin

text \<open>
  pkg/util: whether a MultiClusterIngress belongs to this provider (ingressclass.go) and whether
  a MultiClusterService asks for a load balancer (multiclusterservice.go).
\<close>

section \<open>Ingress classes\<close>

text \<open>
  The loop of \<open>GetDefaultIngressClass\<close>, with its two variables. Reading a missing annotation
  gives the empty string in Go, which is not \<open>true\<close> either.
\<close>

fun scan_default :: "deps \<Rightarrow> IngressClass list \<Rightarrow> string \<Rightarrow> bool \<Rightarrow> error + string" where
  "scan_default d [] defaultClass found = Inr defaultClass"
| "scan_default d (ingClass # rest) defaultClass found =
     (if Annotations ingClass (AnnotationIsDefaultIngressClass d) \<noteq> Some ''true''
      then scan_default d rest defaultClass found
      else if found then Inl (Errorf ''multiple default IngressClasses found'')
      else scan_default d rest (Name ingClass) True)"

definition GetDefaultIngressClass :: "deps \<Rightarrow> 'w client \<Rightarrow> ('w, error + string) io" where
  "GetDefaultIngressClass d c = do {
     r \<leftarrow> api_list ClassKind (ingress_classes c) all_objects;
     case r of
       Inl e \<Rightarrow> ret (Inl e)
     | Inr ingClassList \<Rightarrow> ret (scan_default d ingClassList '''' False)
   }"

text \<open>The second half of \<open>CheckIngressClassMatched\<close>: the class is known by name.\<close>

definition class_matches :: "'w client \<Rightarrow> string \<Rightarrow> string \<Rightarrow> ('w, bool) io" where
  "class_matches c className ingClassName = do {
     r \<leftarrow> api_get ClassKind ClassObj (ingress_classes c) ('''', className);
     case r of
       Inl e \<Rightarrow> ret False
     | Inr ingClass \<Rightarrow> ret (ClassController ingClass = ingClassName)
   }"

definition CheckIngressClassMatched ::
  "deps \<Rightarrow> 'w client \<Rightarrow> MultiClusterIngress \<Rightarrow> string \<Rightarrow> ('w, bool) io" where
  "CheckIngressClassMatched d c mci ingClassName =
     (case IngressClassName (mciSpec mci) of
        None \<Rightarrow> do {
          r \<leftarrow> GetDefaultIngressClass d c;
          case r of
            Inl e \<Rightarrow> ret False
          | Inr defaultName \<Rightarrow>
              if defaultName = '''' then ret False else class_matches c defaultName ingClassName
        }
      | Some className \<Rightarrow> class_matches c className ingClassName)"

section \<open>MultiClusterService types\<close>

fun contains_type :: "deps \<Rightarrow> string list \<Rightarrow> bool" where
  "contains_type d [] = False"
| "contains_type d (t # ts) = (if t = ExposureTypeLoadBalancer d then True else contains_type d ts)"

definition MCSContainLoadBalanceType :: "deps \<Rightarrow> MultiClusterService \<Rightarrow> bool" where
  "MCSContainLoadBalanceType d mcs = contains_type d (elems (Types (mcsSpec mcs)))"

lemma contains_type_iff: "contains_type d ts \<longleftrightarrow> ExposureTypeLoadBalancer d \<in> set ts"
  by (induction ts) auto

lemma MCSContainLoadBalanceType_iff:
  "MCSContainLoadBalanceType d mcs \<longleftrightarrow> ExposureTypeLoadBalancer d \<in> set (elems (Types (mcsSpec mcs)))"
  by (simp add: MCSContainLoadBalanceType_def contains_type_iff)

section \<open>What the loop computes\<close>

definition is_default :: "deps \<Rightarrow> IngressClass \<Rightarrow> bool" where
  "is_default d cls \<longleftrightarrow> Annotations cls (AnnotationIsDefaultIngressClass d) = Some ''true''"

lemma scan_default_found:
  "scan_default d cs n True =
     (if filter (is_default d) cs = [] then Inr n
      else Inl (Errorf ''multiple default IngressClasses found''))"
  by (induction cs) (auto simp: is_default_def)

lemma scan_default_cases:
  "scan_default d cs n False =
     (case filter (is_default d) cs of
        [] \<Rightarrow> Inr n
      | [cls] \<Rightarrow> Inr (Name cls)
      | _ \<Rightarrow> Inl (Errorf ''multiple default IngressClasses found''))"
  by (induction cs arbitrary: n) (auto simp: scan_default_found is_default_def split: list.splits)

section \<open>The class of an ingress\<close>

text \<open>
  Which class governs an ingress, and whether this provider controls it: the class the ingress
  names, otherwise the only default class.
\<close>

definition governing_class :: "deps \<Rightarrow> IngressClass list \<Rightarrow> MultiClusterIngress \<Rightarrow> string option" where
  "governing_class d cs mci =
     (case IngressClassName (mciSpec mci) of
        Some n \<Rightarrow> Some n
      | None \<Rightarrow> (case filter (is_default d) cs of
            [cls] \<Rightarrow> if Name cls = '''' then None else Some (Name cls)
          | _ \<Rightarrow> None))"

definition governed_by ::
  "deps \<Rightarrow> (key \<Rightarrow> IngressClass option) \<Rightarrow> IngressClass list \<Rightarrow> string \<Rightarrow> MultiClusterIngress \<Rightarrow> bool" where
  "governed_by d get_of cs provider mci \<longleftrightarrow>
     (case governing_class d cs mci of
        None \<Rightarrow> False
      | Some n \<Rightarrow> (case get_of ('''', n) of
            None \<Rightarrow> False
          | Some cls \<Rightarrow> ClassController cls = provider))"

end
