(* ===== verification/McsController.thy ===== *)
theory McsController
  imports Cloud Util
begin

text \<open>
  pkg/controllers/multiclusterservice/mcs_controller.go: the reconcile of a MultiClusterService,
  one definition per function. \<open>Eventf\<close> is called with the failure's message as its format and
  six further arguments the format has no verbs for; the log records the message.
\<close>

section \<open>The controller\<close>

definition MCSControllerFinalizer :: string where
  "MCSControllerFinalizer = ''karmada.io/multi-cluster-service-controller''"

record 'w MCSController =
  mcsDeps :: deps
  mcsClient :: "'w client"
  mcsBalancer :: "(MultiClusterService, 'w) balancer"
  mcsRetry :: "(MultiClusterService, ('w, call) world) retrier"

section \<open>Status\<close>

definition with_mcs_status :: "LoadBalancerStatus \<Rightarrow> MultiClusterService \<Rightarrow> MultiClusterService" where
  "with_mcs_status st mcs = mcs\<lparr>mcsLoadBalancer := st\<rparr>"

definition mcs_status_attempt ::
  "'w MCSController \<Rightarrow> LoadBalancerStatus \<Rightarrow> MultiClusterService
    \<Rightarrow> ('w, error option \<times> MultiClusterService) io" where
  "mcs_status_attempt c newStatus mcs = do {
     (updateErr, mcs) \<leftarrow> api_status_update MCSObj (mcss (mcsClient c)) (with_mcs_status newStatus mcs);
     if updateErr = None then ret (None, mcs)
     else do {
       r \<leftarrow> api_get MCSKind MCSObj (mcss (mcsClient c)) (key_of mcs);
       case r of
         Inr updated \<Rightarrow> ret (updateErr, updated)
       | Inl e \<Rightarrow> ret (updateErr, mcs)
     }
   }"

definition updateMCSStatus ::
  "'w MCSController \<Rightarrow> MultiClusterService \<Rightarrow> LoadBalancerStatus option \<Rightarrow> ('w, error option) io" where
  "updateMCSStatus c mcs newStatus =
     (case newStatus of
        None \<Rightarrow> ret None
      | Some st \<Rightarrow>
          if mcsLoadBalancer mcs = st then ret None
          else do {
            (err, _) \<leftarrow> mcsRetry c (mcs_status_attempt c st) mcs;
            ret err
          })"

definition handleMCSCreate ::
  "'w MCSController \<Rightarrow> MultiClusterService \<Rightarrow> ('w, error option) io" where
  "handleMCSCreate c mcs = do {
     (status, err) \<leftarrow> lb_ensure MCSObj (mcsBalancer c) mcs;
     if err \<noteq> None then ret err
     else updateMCSStatus c mcs status
   }"

definition handleMCSUpdate ::
  "'w MCSController \<Rightarrow> MultiClusterService \<Rightarrow> ('w, error option) io" where
  "handleMCSUpdate c mcs = do {
     (status, err) \<leftarrow> lb_update MCSObj (mcsBalancer c) mcs;
     if err \<noteq> None then ret err
     else updateMCSStatus c mcs status
   }"

section \<open>Reconcile\<close>

text \<open>The part of \<open>handleMCSCreateOrUpdate\<close> after the finalizer.\<close>

definition sync_mcs_balancer ::
  "'w MCSController \<Rightarrow> MultiClusterService \<Rightarrow> ('w, error option) io" where
  "sync_mcs_balancer c mcs = do {
     (_, exist, err) \<leftarrow> lb_get MCSObj (mcsBalancer c) mcs;
     if err \<noteq> None then ret err
     else if exist then handleMCSUpdate c mcs
     else handleMCSCreate c mcs
   }"

definition handleMCSCreateOrUpdate ::
  "'w MCSController \<Rightarrow> MultiClusterService \<Rightarrow> ('w, error option) io" where
  "handleMCSCreateOrUpdate c mcs = do {
     let (finalizersUpdated, fs) = AddFinalizer (mcsDeps c) (Finalizers mcs) MCSControllerFinalizer;
     let mcs = mcs\<lparr>Finalizers := fs\<rparr>;
     if finalizersUpdated
     then do {
       (err, mcs) \<leftarrow> api_update MCSObj (mcss (mcsClient c)) mcs;
       if err \<noteq> None then ret err else sync_mcs_balancer c mcs
     }
     else sync_mcs_balancer c mcs
   }"

text \<open>The deletion, with the event of its failure, as \<open>handleMCSDelete\<close> writes it out twice.\<close>

definition delete_mcs_balancer ::
  "'w MCSController \<Rightarrow> MultiClusterService \<Rightarrow> ('w, error option) io" where
  "delete_mcs_balancer c mcs = do {
     err \<leftarrow> lb_delete MCSObj (mcsBalancer c) mcs;
     if err \<noteq> None then do {
       _ \<leftarrow> note_call (Recorded (MCSObj mcs) ''Failed to delete MultiClusterService'');
       ret err
     }
     else ret None
   }"

text \<open>The end of \<open>handleMCSDelete\<close>, once the load balancer is gone.\<close>

definition release_mcs :: "'w MCSController \<Rightarrow> MultiClusterService \<Rightarrow> ('w, error option) io" where
  "release_mcs c mcs = do {
     let (finalizersUpdated, fs) =
       RemoveFinalizer (mcsDeps c) (Finalizers mcs) MCSControllerFinalizer;
     let mcs = mcs\<lparr>Finalizers := fs\<rparr>;
     if finalizersUpdated
     then do {
       (err, _) \<leftarrow> api_update MCSObj (mcss (mcsClient c)) mcs;
       ret err
     }
     else ret None
   }"

definition handleMCSDelete ::
  "'w MCSController \<Rightarrow> MultiClusterService \<Rightarrow> ('w, error option) io" where
  "handleMCSDelete c mcs =
     (if MCSContainLoadBalanceType (mcsDeps c) mcs
      then do {
        err \<leftarrow> delete_mcs_balancer c mcs;
        if err \<noteq> None then ret err else release_mcs c mcs
      }
      else do {
        (_, exist, err) \<leftarrow> lb_get MCSObj (mcsBalancer c) mcs;
        if err \<noteq> None then do {
          _ \<leftarrow> note_call (Recorded (MCSObj mcs) ''Failed to get MultiClusterService'');
          ret err
        }
        else if exist then do {
          err \<leftarrow> delete_mcs_balancer c mcs;
          if err \<noteq> None then ret err else release_mcs c mcs
        }
        else ret None
      })"

definition ReconcileMCS :: "'w MCSController \<Rightarrow> key \<Rightarrow> ('w, error option) io" where
  "ReconcileMCS c req = do {
     _ \<leftarrow> note_call (Reconciling MCSKind req);
     r \<leftarrow> api_get MCSKind MCSObj (mcss (mcsClient c)) req;
     case r of
       Inl e \<Rightarrow> if e = NotFound then ret None else ret (Some e)
     | Inr mcs \<Rightarrow>
         if \<not> IsZero (DeletionTimestamp mcs) \<or> \<not> MCSContainLoadBalanceType (mcsDeps c) mcs
         then handleMCSDelete c mcs
         else handleMCSCreateOrUpdate c mcs
   }"

section \<open>Contracts of the libraries\<close>

definition mcs_contract :: "'w MCSController \<Rightarrow> bool" where
  "mcs_contract c \<longleftrightarrow> finalizers_ok (mcsDeps c) \<and> retry_ok (mcsRetry c) \<and> keeps_key (mcss (mcsClient c))"

lemma mcs_contractD:
  assumes "mcs_contract c"
  shows "finalizers_ok (mcsDeps c)" and "retry_ok (mcsRetry c)" and "keeps_key (mcss (mcsClient c))"
  using assms by (simp_all add: mcs_contract_def)

lemma with_mcs_status_fields [simp]:
  "key_of (with_mcs_status st mcs) = key_of mcs"
  "mcsLoadBalancer (with_mcs_status st mcs) = st"
  by (simp_all add: with_mcs_status_def key_of_def)

section \<open>The status part\<close>

lemma mcs_status_attempt_run:
  assumes keys: "keeps_key (mcss (mcsClient c))"
    and run: "run_state (mcs_status_attempt c st v) s = ((e, v'), s')"
  shows "key_of v' = key_of v" and "quietly (calls s) (calls s')"
    and "e = None \<Longrightarrow> calls s' = calls s @ [Wrote StatusVerb (MCSObj (with_mcs_status st v)) None]"
proof -
  obtain e1 m1 w1 where u: "cStatusUpdate (mcss (mcsClient c)) (with_mcs_status st v) (env s) = ((e1, m1), w1)"
    by (rule out2)
  obtain r w2 where g: "cGet (mcss (mcsClient c)) (key_of m1) w1 = (r, w2)"
    by (metis surj_pair)
  have "key_of m1 = key_of v" and "r = Inr x \<Longrightarrow> key_of x = key_of m1" for x
    using keeps_keyD(3) [OF keys u] keeps_keyD(1) [OF keys] g by auto
  then show "key_of v' = key_of v" and "quietly (calls s) (calls s')"
    and "e = None \<Longrightarrow> calls s' = calls s @ [Wrote StatusVerb (MCSObj (with_mcs_status st v)) None]"
    using run u g by (auto simp: mcs_status_attempt_def run_api split: sum.splits if_splits)
qed

text \<open>A run of \<open>updateMCSStatus\<close>: nothing to store, or the retried attempts.\<close>

lemma updateMCSStatus_run:
  assumes c: "mcs_contract c" and run: "run_state (updateMCSStatus c mcs newStatus) s = (e, s')"
  obtains (kept) "e = None" and "s' = s" and "newStatus = None \<or> newStatus = Some (mcsLoadBalancer mcs)"
    | (tried) st v where "newStatus = Some st" and
      "run_state (mcsRetry c (mcs_status_attempt c st) mcs) s = ((e, v), s')"
proof (cases "newStatus = None \<or> newStatus = Some (mcsLoadBalancer mcs)")
  case True
  then show thesis using run by (intro kept) (auto simp: updateMCSStatus_def)
next
  case False
  then obtain st where st: "newStatus = Some st" "mcsLoadBalancer mcs \<noteq> st" by auto
  obtain e1 v s1 where "run_state (mcsRetry c (mcs_status_attempt c st) mcs) s = ((e1, v), s1)"
    by (rule out2)
  then show thesis using run st by (intro tried [of st v]) (auto simp: updateMCSStatus_def)
qed

lemma updateMCSStatus_quiet:
  assumes c: "mcs_contract c" and run: "run_state (updateMCSStatus c mcs st) s = (e, s')"
  shows "quietly (calls s) (calls s')"
  using c run
proof (cases rule: updateMCSStatus_run)
  case (tried x v)
  show ?thesis
    by (rule retry_quietly [OF mcs_contractD(2) [OF c] tried(2)])
      (metis surj_pair mcs_status_attempt_run(2) [OF mcs_contractD(3) [OF c]])
qed simp

lemma updateMCSStatus_stored:
  assumes c: "mcs_contract c" and run: "run_state (updateMCSStatus c mcs newStatus) s = (None, s')"
  obtains (kept) "s' = s" and "newStatus = None \<or> newStatus = Some (mcsLoadBalancer mcs)"
    | (stored) st l m where "newStatus = Some st" and "calls s' = l @ [Wrote StatusVerb (MCSObj m) None]"
      and "key_of m = key_of mcs" and "mcsLoadBalancer m = st"
  using c run
proof (cases rule: updateMCSStatus_run)
  case (tried st v)
  note attempt = mcs_status_attempt_run [OF mcs_contractD(3) [OF c]]
  have "(\<lambda>v s'. \<exists>l m. calls s' = l @ [Wrote StatusVerb (MCSObj m) None] \<and> key_of m = key_of mcs \<and>
      mcsLoadBalancer m = st) v s'"
  proof (rule retry_success [where I = "\<lambda>v s. key_of v = key_of mcs",
        OF mcs_contractD(2) [OF c] tried(2)])
    fix v t v' t'
    assume "key_of v = key_of mcs" "run_state (mcs_status_attempt c st v) t = ((None, v'), t')"
    then have "calls t' = calls t @ [Wrote StatusVerb (MCSObj (with_mcs_status st v)) None]"
      and "key_of (with_mcs_status st v) = key_of mcs"
      using attempt(3) by simp_all
    then show "\<exists>l m. calls t' = l @ [Wrote StatusVerb (MCSObj m) None] \<and> key_of m = key_of mcs \<and>
        mcsLoadBalancer m = st" by fastforce
  qed (use attempt(1) in auto)
  then obtain l m where "calls s' = l @ [Wrote StatusVerb (MCSObj m) None]"
    and "key_of m = key_of mcs" and "mcsLoadBalancer m = st" by blast
  then show thesis by (rule stored [OF tried(1)])
qed (rule kept)

section \<open>The finalizer protocol\<close>

text \<open>
  The calls of a run of \<open>sync_mcs_balancer\<close>: the provider's answer, and the one operation it calls
  for with the status update that follows.
\<close>

lemma sync_mcs_balancer_run:
  assumes c: "mcs_contract c" and run: "run_state (sync_mcs_balancer c mcs) s = (e, s')"
  obtains (unknown) ex e2 where "calls s' = calls s @ [LBGot (MCSObj mcs) ex (Some e2)]" and "e = Some e2"
    | (known) ex e3 where
      "quietly (calls s @ [LBGot (MCSObj mcs) ex None, lb_entry ex (MCSObj mcs) e3]) (calls s')"
      and "e3 = None \<or> e = e3"
proof -
  obtain st ex e2 s2 where r2: "run_state (lb_get MCSObj (mcsBalancer c) mcs) s = ((st, ex, e2), s2)"
    by (metis surj_pair)
  obtain st3 e3 s3 where r3:
    "run_state ((if ex then lb_update else lb_ensure) MCSObj (mcsBalancer c) mcs) s2 = ((st3, e3), s3)"
    by (rule out2)
  note l2 = run_lb_get_calls [OF r2] and l3 = run_lb_write [OF r3]
  show thesis
  proof (cases e2)
    case (Some a)
    then show thesis using run r2 l2 by (intro unknown [of ex a]) (auto simp: sync_mcs_balancer_def)
  next
    case None
    have "(e3 \<noteq> None \<and> e = e3 \<and> s' = s3) \<or> (e3 = None \<and> run_state (updateMCSStatus c mcs st3) s3 = (e, s'))"
      using run r2 r3 None
      by (auto simp: sync_mcs_balancer_def handleMCSUpdate_def handleMCSCreate_def split: if_splits)
    then have "quietly (calls s3) (calls s')" and "e3 = None \<or> e = e3"
      using updateMCSStatus_quiet [OF c] by auto
    then show thesis using None by (intro known [of ex e3]) (auto simp: l2 l3)
  qed
qed

lemma sync_mcs_balancer_protocol:
  assumes c: "mcs_contract c" and run: "run_state (sync_mcs_balancer c mcs) s = (e, s')"
    and prot: "protected MCSKind MCSControllerFinalizer (key_of mcs) (calls s)"
    and ok: "finalizer_protocol MCSKind MCSControllerFinalizer (calls s)"
  shows "finalizer_protocol MCSKind MCSControllerFinalizer (calls s')"
  using c run
proof (cases rule: sync_mcs_balancer_run)
  case (unknown ex e2)
  then show ?thesis using protocol_sync(1) [OF ok, of "MCSObj mcs"] prot by simp
next
  case (known ex e3)
  then show ?thesis using protocol_sync(2) [OF ok, of "MCSObj mcs"] prot
    by (intro quietly_keeps(4) [OF known(1)]) simp
qed

lemma sync_mcs_balancer_failed:
  assumes c: "mcs_contract c" and run: "run_state (sync_mcs_balancer c mcs) s = (None, s')"
    and ok: "\<not> failed (calls s)"
  shows "\<not> failed (calls s')"
  using c run
proof (cases rule: sync_mcs_balancer_run)
  case (known ex e3)
  then show ?thesis using ok by (auto simp: quietly_keeps(3) [OF known(1)] failed_sync)
qed simp

text \<open>A run of \<open>handleMCSCreateOrUpdate\<close>: the finalizer is there, refused or stored.\<close>

lemma handleMCSCreateOrUpdate_run:
  assumes c: "mcs_contract c" and run: "run_state (handleMCSCreateOrUpdate c mcs) s = (e, s')"
  obtains (found) fs where "MCSControllerFinalizer \<in> set (Finalizers mcs)"
      and "run_state (sync_mcs_balancer c (mcs\<lparr>Finalizers := fs\<rparr>)) s = (e, s')"
    | (refused) x where "calls s' = calls s @ [Wrote UpdateVerb (MCSObj x) e]" and "e \<noteq> None"
      and "MCSControllerFinalizer \<in> set (Finalizers x)" and "key_of x = key_of mcs"
      and "env s' = snd (cUpdate (mcss (mcsClient c)) x (env s))"
    | (stored) x y s1 where "calls s1 = calls s @ [Wrote UpdateVerb (MCSObj x) None]"
      and "MCSControllerFinalizer \<in> set (Finalizers x)" and "key_of x = key_of mcs"
      and "key_of y = key_of mcs" and "env s1 = snd (cUpdate (mcss (mcsClient c)) x (env s))"
      and "run_state (sync_mcs_balancer c y) s1 = (e, s')"
proof -
  obtain b fs where add: "AddFinalizer (mcsDeps c) (Finalizers mcs) MCSControllerFinalizer = (b, fs)"
    by (metis surj_pair)
  note fin = finalizers_pairD(1) [OF mcs_contractD(1) [OF c] add]
  let ?x = "mcs\<lparr>Finalizers := fs\<rparr>"
  obtain e1 y w where u: "cUpdate (mcss (mcsClient c)) ?x (env s) = ((e1, y), w)" by (rule out2)
  let ?s1 = "s\<lparr>env := w, calls := calls s @ [Wrote UpdateVerb (MCSObj ?x) e1]\<rparr>"
  have "key_of y = key_of mcs" using keeps_keyD(2) [OF mcs_contractD(3) [OF c] u] by simp
  consider "\<not> b" | "b" "e1 = None" | "b" "e1 \<noteq> None" by blast
  then show thesis
  proof cases
    case 1
    then show thesis using run fin by (intro found [of fs]) (auto simp: handleMCSCreateOrUpdate_def add Let_def)
  next
    case 2
    then have "run_state (sync_mcs_balancer c y) ?s1 = (e, s')"
      using run u by (simp add: handleMCSCreateOrUpdate_def add run_api Let_def)
    then show thesis using 2 fin u \<open>key_of y = key_of mcs\<close> by (intro stored [of ?s1 ?x y]) simp_all
  next
    case 3
    then have "e = e1" "s' = ?s1"
      using run u by (auto simp: handleMCSCreateOrUpdate_def add run_api Let_def)
    then show thesis using 3 fin u by (intro refused [of ?x]) simp_all
  qed
qed

lemma handleMCSCreateOrUpdate_protocol:
  assumes c: "mcs_contract c" and run: "run_state (handleMCSCreateOrUpdate c mcs) s = (e, s')"
    and read: "calls s = l @ [Got MCSKind k (Inr (MCSObj mcs))]"
    and ok: "finalizer_protocol MCSKind MCSControllerFinalizer l"
  shows "finalizer_protocol MCSKind MCSControllerFinalizer (calls s')"
  using c run
proof (cases rule: handleMCSCreateOrUpdate_run)
  case (found fs)
  then show ?thesis
    by (intro sync_mcs_balancer_protocol [OF c found(2)])
      (use ok in \<open>auto simp: read log_simps is_obj_def carries_def\<close>)
next
  case (refused x)
  then show ?thesis using ok by (auto simp: read log_simps carries_def)
next
  case (stored x y s1)
  then show ?thesis
    by (intro sync_mcs_balancer_protocol [OF c stored(6)])
      (use ok in \<open>auto simp: read log_simps is_obj_def carries_def\<close>)
qed

lemma handleMCSCreateOrUpdate_failed:
  assumes c: "mcs_contract c" and run: "run_state (handleMCSCreateOrUpdate c mcs) s = (None, s')"
    and ok: "\<not> failed (calls s)"
  shows "\<not> failed (calls s')"
  using c run
proof (cases rule: handleMCSCreateOrUpdate_run)
  case (stored x y s1)
  then show ?thesis using ok by (intro sync_mcs_balancer_failed [OF c stored(6)]) (simp add: log_simps)
qed (use ok sync_mcs_balancer_failed [OF c] in auto)

text \<open>
  The calls of a run of \<open>handleMCSDelete\<close>: without the type, the provider is asked first; then the
  deletion, and the write that releases the object.
\<close>

definition mcs_asked :: "'w MCSController \<Rightarrow> MultiClusterService \<Rightarrow> call list" where
  "mcs_asked c mcs =
     (if MCSContainLoadBalanceType (mcsDeps c) mcs then [] else [LBGot (MCSObj mcs) True None])"

lemma handleMCSDelete_run:
  assumes "run_state (handleMCSDelete c mcs) s = (e, s')"
  obtains (unknown) ex e1 where "\<not> MCSContainLoadBalanceType (mcsDeps c) mcs" and "e = Some e1"
      and "calls s' = calls s @ [LBGot (MCSObj mcs) ex e, Recorded (MCSObj mcs) ''Failed to get MultiClusterService'']"
    | (none) "\<not> MCSContainLoadBalanceType (mcsDeps c) mcs" and "e = None"
      and "calls s' = calls s @ [LBGot (MCSObj mcs) False None]"
    | (undeleted) e1 where "e = Some e1"
      and "calls s' = calls s @ mcs_asked c mcs @
        [LBDeleted (MCSObj mcs) e, Recorded (MCSObj mcs) ''Failed to delete MultiClusterService'']"
    | (kept) "\<not> fst (RemoveFinalizer (mcsDeps c) (Finalizers mcs) MCSControllerFinalizer)" and "e = None"
      and "calls s' = calls s @ mcs_asked c mcs @ [LBDeleted (MCSObj mcs) None]"
    | (released) x where "fst (RemoveFinalizer (mcsDeps c) (Finalizers mcs) MCSControllerFinalizer)"
      and "x = mcs\<lparr>Finalizers := snd (RemoveFinalizer (mcsDeps c) (Finalizers mcs) MCSControllerFinalizer)\<rparr>"
      and "calls s' = calls s @ mcs_asked c mcs @ [LBDeleted (MCSObj mcs) None, Wrote UpdateVerb (MCSObj x) e]"
  using assms
  by (auto simp: handleMCSDelete_def delete_mcs_balancer_def release_mcs_def mcs_asked_def run_api
      lb_defs split: prod.splits if_splits)

lemma handleMCSDelete_protocol:
  assumes run: "run_state (handleMCSDelete c mcs) s = (e, s')"
    and ok: "finalizer_protocol MCSKind MCSControllerFinalizer (calls s)"
  shows "finalizer_protocol MCSKind MCSControllerFinalizer (calls s')"
  using run by (cases rule: handleMCSDelete_run) (use ok in \<open>auto simp: mcs_asked_def log_simps is_obj_def\<close>)

lemma handleMCSDelete_failed:
  assumes run: "run_state (handleMCSDelete c mcs) s = (None, s')" and ok: "\<not> failed (calls s)"
  shows "\<not> failed (calls s')"
  using run by (cases rule: handleMCSDelete_run) (use ok in \<open>auto simp: mcs_asked_def log_simps\<close>)

text \<open>A run of \<open>ReconcileMCS\<close>: one read, and the handler the object calls for.\<close>

definition wants_balancer :: "deps \<Rightarrow> MultiClusterService \<Rightarrow> bool" where
  "wants_balancer d mcs \<longleftrightarrow> DeletionTimestamp mcs = None \<and> MCSContainLoadBalanceType d mcs"

lemma ReconcileMCS_run:
  assumes "run_state (ReconcileMCS c req) s = (e, s')"
  obtains (unread) e1 where "calls s' = calls s @ [Reconciling MCSKind req, Got MCSKind req (Inl e1)]"
      and "e = (if e1 = NotFound then None else Some e1)"
      and "cGet (mcss (mcsClient c)) req (env s) = (Inl e1, env s')"
    | (unwanted) mcs s1 where "calls s1 = calls s @ [Reconciling MCSKind req, Got MCSKind req (Inr (MCSObj mcs))]"
      and "\<not> wants_balancer (mcsDeps c) mcs" and "cGet (mcss (mcsClient c)) req (env s) = (Inr mcs, env s1)"
      and "run_state (handleMCSDelete c mcs) s1 = (e, s')"
    | (wanted) mcs s1 where "calls s1 = calls s @ [Reconciling MCSKind req, Got MCSKind req (Inr (MCSObj mcs))]"
      and "wants_balancer (mcsDeps c) mcs" and "cGet (mcss (mcsClient c)) req (env s) = (Inr mcs, env s1)"
      and "run_state (handleMCSCreateOrUpdate c mcs) s1 = (e, s')"
proof -
  obtain r w where g: "cGet (mcss (mcsClient c)) req (env s) = (r, w)"
    by (cases "cGet (mcss (mcsClient c)) req (env s)")
  let ?s1 = "s\<lparr>env := w, calls := calls s @ [Reconciling MCSKind req, Got MCSKind req (map_sum id MCSObj r)]\<rparr>"
  show thesis
  proof (cases r)
    case (Inl a)
    then show thesis using assms g
      by (intro unread [of a]) (auto simp: ReconcileMCS_def run_api split: if_splits)
  next
    case (Inr mcs)
    show thesis
    proof (cases "wants_balancer (mcsDeps c) mcs")
      case True
      then show thesis using assms g Inr
        by (intro wanted [of ?s1 mcs]) (auto simp: ReconcileMCS_def run_api IsZero_def wants_balancer_def)
    next
      case False
      then show thesis using assms g Inr
        by (intro unwanted [of ?s1 mcs])
          (auto simp: ReconcileMCS_def run_api IsZero_def wants_balancer_def split: if_splits)
    qed
  qed
qed

lemma ReconcileMCS_protocol:
  assumes c: "mcs_contract c" and ok: "finalizer_protocol MCSKind MCSControllerFinalizer (calls s)"
  shows "finalizer_protocol MCSKind MCSControllerFinalizer (calls (snd (run_state (ReconcileMCS c req) s)))"
proof -
  obtain e s' where run: "run_state (ReconcileMCS c req) s = (e, s')"
    by (cases "run_state (ReconcileMCS c req) s")
  then have "finalizer_protocol MCSKind MCSControllerFinalizer (calls s')"
  proof (cases rule: ReconcileMCS_run)
    case (unread e1)
    then show ?thesis using ok by (simp add: log_simps)
  next
    case (unwanted mcs s1)
    then show ?thesis using ok
      by (intro handleMCSDelete_protocol [OF unwanted(4)]) (simp add: log_simps)
  next
    case (wanted mcs s1)
    then show ?thesis using ok
      by (intro handleMCSCreateOrUpdate_protocol [OF c wanted(4),
            of "calls s @ [Reconciling MCSKind req]" req]) (simp_all add: log_simps)
  qed
  then show ?thesis by (simp add: run)
qed

lemma ReconcileMCS_failed:
  assumes c: "mcs_contract c" and run: "run_state (ReconcileMCS c req) s = (None, s')"
  shows "\<not> failed (calls s')"
  using run
proof (cases rule: ReconcileMCS_run)
  case (unread e1)
  then show ?thesis by (simp add: log_simps)
next
  case (unwanted mcs s1)
  then show ?thesis by (intro handleMCSDelete_failed [OF unwanted(4)]) (simp add: log_simps)
next
  case (wanted mcs s1)
  then show ?thesis by (intro handleMCSCreateOrUpdate_failed [OF c wanted(4)]) (simp add: log_simps)
qed

interpretation mcs_log: keeps_log "ReconcileMCS c"
  "\<lambda>l. mcs_contract c \<longrightarrow> finalizer_protocol MCSKind MCSControllerFinalizer l" for c
  by unfold_locales (auto intro: ReconcileMCS_protocol)

end
