(* ===== verification/McsSharing.thy ===== *)
theory McsSharing
  imports Assertions McsController
begin

text \<open>
  The MultiClusterService controller next to others that write the same objects, as
  \<open>mci_sharing\<close> is for the ingress controller. This controller also lets go of live objects, those
  that do not ask for a load balancer any more.
\<close>

definition mcs_wanted :: "deps \<Rightarrow> MultiClusterService \<Rightarrow> bool" where
  "mcs_wanted d mcs \<longleftrightarrow> DeletionTimestamp mcs = None \<and> MCSContainLoadBalanceType d mcs"

locale mcs_sharing =
  guarded_balancers ok held seen "mcs_wanted (mcsDeps c)" MCSControllerFinalizer
    "mcss (mcsClient c)" "mcsBalancer c" has own
  for c :: "'w MCSController" and ok and held and seen and has :: "'w \<Rightarrow> 'k \<Rightarrow> bool" and own +
  assumes contract: "mcs_contract c"
begin

lemma mcs_status_attempt_safe: "maintains (safe K) (mcs_status_attempt c st v)"
  unfolding mcs_status_attempt_def by (rule assertion_rules | assumption)+

lemma updateMCSStatus_safe: "maintains (safe K) (updateMCSStatus c mcs st)"
  unfolding updateMCSStatus_def
  by (rule assertion_rules maintains_retry mcs_contractD(2) [OF contract] mcs_status_attempt_safe | assumption)+

lemma write_balancer_safe:
  "maintains (safe K) (handleMCSUpdate c mcs)"
  "key_of mcs \<in> K \<Longrightarrow> maintains (safe K) (handleMCSCreate c mcs)"
  unfolding handleMCSUpdate_def handleMCSCreate_def
  by (rule assertion_rules updateMCSStatus_safe | assumption)+

lemma sync_mcs_balancer_safe: "key_of mcs \<in> K \<Longrightarrow> maintains (safe K) (sync_mcs_balancer c mcs)"
  unfolding sync_mcs_balancer_def by (rule assertion_rules write_balancer_safe | assumption)+

lemma handleMCSCreateOrUpdate_safe:
  assumes "MCSControllerFinalizer \<in> set (Finalizers mcs) \<Longrightarrow> key_of mcs \<in> K"
  shows "maintains (safe K) (handleMCSCreateOrUpdate c mcs)"
proof -
  obtain b fs where add: "AddFinalizer (mcsDeps c) (Finalizers mcs) MCSControllerFinalizer = (b, fs)" by fastforce
  let ?x = "mcs\<lparr>Finalizers := fs\<rparr>"
  have b: "b \<longleftrightarrow> MCSControllerFinalizer \<notin> set (Finalizers mcs)" and fs: "MCSControllerFinalizer \<in> set (Finalizers ?x)"
    and key: "key_of ?x = key_of mcs"
    using finalizers_pairD(1) [OF mcs_contractD(1) [OF contract] add] by (simp_all add: key_of_def)
  show ?thesis
  proof (cases b)
    case False
    then have "maintains (safe K) (sync_mcs_balancer c ?x)"
      using assms b key by (intro sync_mcs_balancer_safe) simp
    then show ?thesis using False by (simp add: handleMCSCreateOrUpdate_def add)
  next
    case True
    have "between (\<lambda>w. safe K w \<and> (e = None \<longrightarrow> safe (insert (key_of mcs) K) w \<and> key_of m = key_of mcs))
        (if e \<noteq> None then ret e else sync_mcs_balancer c m) (\<lambda>_. safe K)" for e m
    proof (cases "key_of m = key_of mcs")
      case True
      have "between (safe (insert (key_of mcs) K)) (sync_mcs_balancer c m) (\<lambda>_. safe K)"
        by (rule between_consequence [OF sync_mcs_balancer_safe [where K = "insert (key_of mcs) K"]])
          (use True in \<open>auto simp: guarded_def\<close>)
      then show ?thesis
        by - (rule between_if, rule between_ret, simp, erule between_consequence, auto)
    qed (auto simp: between_def)
    then have "maintains (safe K) (do {
        (err, mcs) \<leftarrow> api_update MCSObj (mcss (mcsClient c)) ?x;
        if err \<noteq> None then ret err else sync_mcs_balancer c mcs })"
      by - (rule between_bind [OF safe_update [OF fs]], rule assertion_rules, simp add: key)
    then show ?thesis using True by (simp add: handleMCSCreateOrUpdate_def add)
  qed
qed

text \<open>The release of an object that the controller does not want.\<close>

lemma delete_and_release_safe:
  assumes "\<not> mcs_wanted (mcsDeps c) mcs"
  shows "between (\<lambda>w. safe {} w \<and> seen w mcs)
    (do { err \<leftarrow> delete_mcs_balancer c mcs; if err \<noteq> None then ret err else release_mcs c mcs }) (\<lambda>_. safe {})"
proof -
  have delete: "between (\<lambda>w. safe {} w \<and> seen w mcs) (delete_mcs_balancer c mcs)
      (\<lambda>e w. safe {} w \<and> seen w mcs \<and> (e = None \<longrightarrow> \<not> has w (own (key_of mcs))))"
    unfolding delete_mcs_balancer_def
    by (rule between_bind [OF safe_delete], rule between_if, rule between_bind, rule between_note, assumption,
        rule between_ret, simp, rule between_ret, simp)
  have "between (\<lambda>w. safe {} w \<and> seen w mcs \<and> \<not> has w (own (key_of mcs)))
      (do { (err, _) \<leftarrow> api_update MCSObj (mcss (mcsClient c)) (mcs\<lparr>Finalizers := fs\<rparr>); ret err }) (\<lambda>_. safe {})" for fs
    by (rule between_bind [OF safe_release]) (simp_all add: assms assertion_rules)
  then have release: "between (\<lambda>w. safe {} w \<and> seen w mcs \<and> \<not> has w (own (key_of mcs))) (release_mcs c mcs) (\<lambda>_. safe {})"
    unfolding release_mcs_def Let_def
    by - (rule assertion_rules, rule between_if, assumption, rule between_ret, simp)
  show ?thesis
    by (rule between_bind [OF delete], rule between_if, rule between_ret, simp,
        rule between_consequence [OF release], simp, simp)
qed

lemma handleMCSDelete_safe:
  assumes "\<not> mcs_wanted (mcsDeps c) mcs"
  shows "between (\<lambda>w. safe {} w \<and> seen w mcs) (handleMCSDelete c mcs) (\<lambda>_. safe {})"
  unfolding handleMCSDelete_def
  by (rule between_if, rule delete_and_release_safe [OF assms], rule between_bind [OF safe_lb_get_seen],
      rule assertion_rules, rule assertion_rules, rule between_if, rule between_bind, rule between_note, assumption,
      rule between_ret, simp, rule between_if, rule delete_and_release_safe [OF assms], rule between_ret, simp)

theorem ReconcileMCS_safe: "maintains (safe {}) (ReconcileMCS c req)"
proof -
  have "between (\<lambda>w. safe {} w \<and> (\<forall>x. r = Inr x \<longrightarrow> key_of x = req \<and> seen w x \<and>
      (mcs_wanted (mcsDeps c) x \<longrightarrow> MCSControllerFinalizer \<in> set (Finalizers x) \<longrightarrow> safe {req} w)))
      (case r of
         Inl e \<Rightarrow> if e = NotFound then ret None else ret (Some e)
       | Inr mcs \<Rightarrow>
           if \<not> IsZero (DeletionTimestamp mcs) \<or> \<not> MCSContainLoadBalanceType (mcsDeps c) mcs
           then handleMCSDelete c mcs
           else handleMCSCreateOrUpdate c mcs) (\<lambda>_. safe {})" (is "between (?P r) _ _") for r
  proof (cases r)
    case (Inr mcs)
    show ?thesis
    proof (cases "mcs_wanted (mcsDeps c) mcs")
      case True
      have "between (?P r) (handleMCSCreateOrUpdate c mcs) (\<lambda>_. safe {})"
      proof (cases "MCSControllerFinalizer \<in> set (Finalizers mcs) \<longrightarrow> key_of mcs = req")
        case True
        then show ?thesis
          by (cases "MCSControllerFinalizer \<in> set (Finalizers mcs)")
            (use Inr \<open>mcs_wanted (mcsDeps c) mcs\<close> in \<open>auto simp: guarded_def
                intro: between_consequence [OF handleMCSCreateOrUpdate_safe [of mcs "{req}"]]
                between_consequence [OF handleMCSCreateOrUpdate_safe [of mcs "{}"]]\<close>)
      qed (simp add: between_def Inr)
      then show ?thesis using Inr True by (simp add: IsZero_def mcs_wanted_def)
    next
      case False
      have "between (?P r) (handleMCSDelete c mcs) (\<lambda>_. safe {})"
        by (rule between_consequence [OF handleMCSDelete_safe [OF False]]) (use Inr in auto)
      then show ?thesis using Inr False by (auto simp: IsZero_def mcs_wanted_def)
    qed
  qed (auto intro: assertion_rules)
  then show ?thesis
    unfolding ReconcileMCS_def
    by - (rule maintains_bind, rule assertion_rules, assumption, rule between_bind [OF safe_get])
qed

end

end
