(* ===== verification/Unreliable.thy ===== *)
theory Unreliable
  imports Assertions Testbed
begin

text \<open>
  Calls that fail: what may become of a call, the test server and the provider with such calls, and
  assertions about whole states (the log included) that follow a reconcile through them.
\<close>

section \<open>What becomes of a call\<close>

text \<open>It is answered, it does not get through, or its answer gets lost.\<close>

datatype fate = Granted | Refused | Unanswered

definition timeout :: error where
  "timeout = APIError ''timeout''"

fun fated :: "'r \<Rightarrow> fate \<Rightarrow> ('w \<Rightarrow> 'r \<times> 'w) \<Rightarrow> 'w \<Rightarrow> 'r \<times> 'w" where
  "fated lost Granted f w = f w"
| "fated lost Refused f w = (lost, w)"
| "fated lost Unanswered f w = (lost, snd (f w))"

text \<open>The fate of a call may depend on its verb, the key it is about and the state of the world.\<close>

type_synonym 'w fates = "string \<Rightarrow> key \<Rightarrow> 'w \<Rightarrow> fate"

definition unreliable_client :: "'w fates \<Rightarrow> ('o ObjectMeta_scheme, 'w) kind_client \<Rightarrow> ('o ObjectMeta_scheme, 'w) kind_client" where
  "unreliable_client \<phi> c = \<lparr>
     cGet = \<lambda>k w. fated (Inl timeout) (\<phi> ''get'' k w) (cGet c k) w,
     cList = \<lambda>opts w. fated (Inl timeout) (\<phi> ''list'' ('''', '''') w) (cList c opts) w,
     cCreate = \<lambda>x w. fated (Some timeout, x) (\<phi> ''create'' (key_of x) w) (cCreate c x) w,
     cUpdate = \<lambda>x w. fated (Some timeout, x) (\<phi> ''update'' (key_of x) w) (cUpdate c x) w,
     cPatch = \<lambda>x base w. fated (Some timeout, x) (\<phi> ''patch'' (key_of x) w) (cPatch c x base) w,
     cStatusUpdate = \<lambda>x w. fated (Some timeout, x) (\<phi> ''status'' (key_of x) w) (cStatusUpdate c x) w,
     cDelete = \<lambda>x w. fated (Some timeout) (\<phi> ''delete'' (key_of x) w) (cDelete c x) w\<rparr>"

definition unreliable_balancer :: "'w fates \<Rightarrow> ('o ObjectMeta_scheme, 'w) balancer \<Rightarrow> ('o ObjectMeta_scheme, 'w) balancer" where
  "unreliable_balancer \<phi> b = \<lparr>
     GetBalancer = \<lambda>x w. fated (None, False, Some timeout) (\<phi> ''get'' (key_of x) w) (GetBalancer b x) w,
     EnsureBalancer = \<lambda>x w. fated (None, Some timeout) (\<phi> ''ensure'' (key_of x) w) (EnsureBalancer b x) w,
     UpdateBalancer = \<lambda>x w. fated (None, Some timeout) (\<phi> ''update'' (key_of x) w) (UpdateBalancer b x) w,
     DeleteBalancer = \<lambda>x w. fated (Some timeout) (\<phi> ''delete'' (key_of x) w) (DeleteBalancer b x) w\<rparr>"

definition unreliable_server :: "(kind \<Rightarrow> Testbed fates) \<Rightarrow> Testbed client" where
  "unreliable_server \<phi> = \<lparr>
     mcis = unreliable_client (\<phi> MCIKind) (mcis (mem_server std_deps)),
     mcss = unreliable_client (\<phi> MCSKind) (mcss (mem_server std_deps)),
     services = unreliable_client (\<phi> ServiceKind) (services (mem_server std_deps)),
     exports = unreliable_client (\<phi> ExportKind) (exports (mem_server std_deps)),
     policies = unreliable_client (\<phi> PolicyKind) (policies (mem_server std_deps)),
     cluster_policies = unreliable_client (\<phi> ClusterPolicyKind) (cluster_policies (mem_server std_deps)),
     bindings = unreliable_client (\<phi> BindingKind) (bindings (mem_server std_deps)),
     clusters = unreliable_client (\<phi> ClusterKind) (clusters (mem_server std_deps)),
     ingress_classes = unreliable_client (\<phi> ClassKind) (ingress_classes (mem_server std_deps))\<rparr>"

lemma unreliable_server_simps [simp]:
  "mcis (unreliable_server \<phi>) = unreliable_client (\<phi> MCIKind) (mcis (mem_server std_deps))"
  "mcss (unreliable_server \<phi>) = unreliable_client (\<phi> MCSKind) (mcss (mem_server std_deps))"
  "services (unreliable_server \<phi>) = unreliable_client (\<phi> ServiceKind) (services (mem_server std_deps))"
  "exports (unreliable_server \<phi>) = unreliable_client (\<phi> ExportKind) (exports (mem_server std_deps))"
  "policies (unreliable_server \<phi>) = unreliable_client (\<phi> PolicyKind) (policies (mem_server std_deps))"
  "cluster_policies (unreliable_server \<phi>) = unreliable_client (\<phi> ClusterPolicyKind) (cluster_policies (mem_server std_deps))"
  "bindings (unreliable_server \<phi>) = unreliable_client (\<phi> BindingKind) (bindings (mem_server std_deps))"
  "clusters (unreliable_server \<phi>) = unreliable_client (\<phi> ClusterKind) (clusters (mem_server std_deps))"
  by (simp_all add: unreliable_server_def)

section \<open>Operations between assertions about states\<close>

definition leads ::
  "(('w, 'c) world \<Rightarrow> bool) \<Rightarrow> (('w, 'c) world, 'a) state \<Rightarrow> ('a \<Rightarrow> ('w, 'c) world \<Rightarrow> bool) \<Rightarrow> bool" where
  "leads P m Q \<longleftrightarrow> (\<forall>s. P s \<longrightarrow> (case run_state m s of (r, s') \<Rightarrow> Q r s'))"

named_theorems leads_rules \<open>how assertions about states pass through the operations of the monad\<close>

lemma leadsI: "(\<And>s r s'. P s \<Longrightarrow> run_state m s = (r, s') \<Longrightarrow> Q r s') \<Longrightarrow> leads P m Q"
  by (auto simp: leads_def split: prod.splits)

lemma leadsD: "leads P m Q \<Longrightarrow> run_state m s = (r, s') \<Longrightarrow> P s \<Longrightarrow> Q r s'"
  by (auto simp: leads_def split: prod.splits)

lemma leads_consequence:
  "leads P m Q \<Longrightarrow> (\<And>s. P' s \<Longrightarrow> P s) \<Longrightarrow> (\<And>r s. Q r s \<Longrightarrow> Q' r s) \<Longrightarrow> leads P' m Q'"
  by (fastforce simp: leads_def split: prod.splits)

lemma leads_ret [leads_rules]: "(\<And>s. P s \<Longrightarrow> Q x s) \<Longrightarrow> leads P (ret x) Q"
  by (simp add: leads_def)

lemma leads_note: "(\<And>s. P s \<Longrightarrow> Q () (s\<lparr>calls := calls s @ [c]\<rparr>)) \<Longrightarrow> leads P (note_call c) Q"
  by (simp add: leads_def run_note_call)

lemma leads_bind: "leads P m R \<Longrightarrow> (\<And>x. leads (R x) (n x) Q) \<Longrightarrow> leads P (m \<bind> n) Q"
  by (fastforce simp: leads_def split: prod.splits)

lemma leads_if [leads_rules]:
  "(b \<Longrightarrow> leads P m Q) \<Longrightarrow> (\<not> b \<Longrightarrow> leads P n Q) \<Longrightarrow> leads P (if b then m else n) Q"
  by simp

lemma leads_cases [leads_rules]:
  "(\<And>a b. x = (a, b) \<Longrightarrow> leads P (f a b) Q) \<Longrightarrow> leads P (case x of (a, b) \<Rightarrow> f a b) Q"
  "(\<And>e. y = Inl e \<Longrightarrow> leads P (g e) Q) \<Longrightarrow> (\<And>v. y = Inr v \<Longrightarrow> leads P (h v) Q)
    \<Longrightarrow> leads P (case y of Inl e \<Rightarrow> g e | Inr v \<Rightarrow> h v) Q"
  "(z = None \<Longrightarrow> leads P m Q) \<Longrightarrow> (\<And>v. z = Some v \<Longrightarrow> leads P (k v) Q)
    \<Longrightarrow> leads P (case z of None \<Rightarrow> m | Some v \<Rightarrow> k v) Q"
  by (auto split: prod.splits sum.splits option.splits)

lemma leads_let [leads_rules]: "leads P (f x) Q \<Longrightarrow> leads P (let y = x in f y) Q"
  by simp

lemma leads_pure: "(c \<Longrightarrow> leads P m Q) \<Longrightarrow> leads (\<lambda>s. c \<and> P s) m Q"
  by (auto simp: leads_def)

text \<open>What a precondition says of values may be used like an assumption.\<close>

lemma leads_known: "(\<And>s. P s \<Longrightarrow> c) \<Longrightarrow> (c \<Longrightarrow> leads P m Q) \<Longrightarrow> leads P m Q"
  unfolding leads_def by metis

text \<open>Attempts that keep an assertion about the captured variables and the state.\<close>

lemma leads_retry:
  assumes "retry_ok retry" and "\<And>v. leads (I v) (fn v) (\<lambda>r. I (snd r))"
  shows "leads (I v) (retry fn v) (\<lambda>r. I (snd r))"
proof (rule leadsI)
  fix s r s'
  assume s: "I v s" "run_state (retry fn v) s = (r, s')"
  moreover obtain e v' where "r = (e, v')" by fastforce
  ultimately show "I (snd r) s'"
    using retry_invariant [OF assms(1), where I = I] leadsD [OF assms(2)] by fastforce
qed

lemma fated_cases:
  assumes "fated lost fate f w = (r, w')"
  obtains "f w = (r, w')" | "r = lost" and "w' = w" | "r = lost" and "w' = snd (f w)"
  using assms by (cases fate) auto

lemma leads_call:
  assumes "\<And>s r w'. P s \<Longrightarrow> f (env s) = (r, w') \<Longrightarrow> Q r (s\<lparr>env := w', calls := calls s @ [entry r]\<rparr>)"
  shows "leads P (lift_call f entry) Q"
  using assms by (auto simp: leads_def run_lift_call split: prod.splits)

section \<open>Calls of the server\<close>

lemma leads_get:
  assumes "\<And>s r. P s \<Longrightarrow> r = Inl timeout \<or> r = (case find_key k (store (env s)) of None \<Rightarrow> Inl NotFound | Some x \<Rightarrow> Inr x) \<Longrightarrow>
    Q r (s\<lparr>calls := calls s @ [Got kd k (map_sum id mk r)]\<rparr>)"
  shows "leads P (api_get kd mk (unreliable_client \<phi> (mem_client store put has_field)) k) Q"
  unfolding api_defs
proof (rule leads_call)
  fix s r w'
  assume "P s" and "cGet (unreliable_client \<phi> (mem_client store put has_field)) k (env s) = (r, w')"
  moreover from this(2) have "w' = env s \<and> (r = Inl timeout \<or> r = (case find_key k (store (env s)) of None \<Rightarrow> Inl NotFound | Some x \<Rightarrow> Inr x))"
    by (auto simp: unreliable_client_def elim!: fated_cases)
  ultimately show "Q r (s\<lparr>env := w', calls := calls s @ [Got kd k (map_sum id mk r)]\<rparr>)" using assms by simp
qed

lemma leads_list:
  assumes "\<And>s r. P s \<Longrightarrow> r = Inl timeout \<or> r = Inr (mem_list has_field (store (env s)) opts) \<Longrightarrow>
    Q r (s\<lparr>calls := calls s @ [Listed kd opts (error_of r)]\<rparr>)"
  shows "leads P (api_list kd (unreliable_client \<phi> (mem_client store put has_field)) opts) Q"
  unfolding api_defs
proof (rule leads_call)
  fix s r w'
  assume "P s" and "cList (unreliable_client \<phi> (mem_client store put has_field)) opts (env s) = (r, w')"
  moreover from this(2) have "w' = env s \<and> (r = Inl timeout \<or> r = Inr (mem_list has_field (store (env s)) opts))"
    by (auto simp: unreliable_client_def elim!: fated_cases)
  ultimately show "Q r (s\<lparr>env := w', calls := calls s @ [Listed kd opts (error_of r)]\<rparr>)" using assms by simp
qed

text \<open>
  A write has failed, or the stored version was the one it was made from, and it has happened; then
  its answer may still be lost.
\<close>

definition written :: "'o ObjectMeta_scheme \<Rightarrow> 'o ObjectMeta_scheme list \<Rightarrow> 'o ObjectMeta_scheme list" where
  "written x xs = (if DeletionTimestamp x \<noteq> None \<and> Finalizers x = [] then filter (\<lambda>y. key_of y \<noteq> key_of x) xs
     else put_key (next_version x) xs)"

definition stored_version :: "'o ObjectMeta_scheme \<Rightarrow> 'o ObjectMeta_scheme list \<Rightarrow> bool" where
  "stored_version x xs \<longleftrightarrow> (\<exists>old. find_key (key_of x) xs = Some old \<and> ResourceVersion old = ResourceVersion x)"

lemma mem_write_cases:
  assumes "mem_write store put x w = (r, w')"
  obtains (failed) e where "r = (Some e, x)" and "w' = w"
    | (did) y where "stored_version x (store w)" and "r = (None, y)" and "y = x \<or> y = next_version x"
      and "w' = put (written x (store w)) w"
  using assms that by (auto simp: mem_write_def stored_version_def written_def split: option.splits if_splits)

lemma leads_write:
  assumes failed: "\<And>s e. P s \<Longrightarrow> Q (Some e, x) (s\<lparr>calls := calls s @ [Wrote v (mk x) (Some e)]\<rparr>)"
    and did: "\<And>s e y. P s \<Longrightarrow> stored_version x (store (env s)) \<Longrightarrow> y = x \<or> e = None \<and> y = next_version x \<Longrightarrow>
      Q (e, y) (s\<lparr>env := put (written x (store (env s))) (env s), calls := calls s @ [Wrote v (mk x) e]\<rparr>)"
  shows "leads P (lift_call (\<lambda>w. fated (Some timeout, x) (f w) (mem_write store put x) w) (\<lambda>r. Wrote v (mk x) (fst r))) Q"
proof (rule leads_call)
  fix s r w'
  assume s: "P s" and call: "fated (Some timeout, x) (f (env s)) (mem_write store put x) (env s) = (r, w')"
  obtain r0 w0 where wr: "mem_write store put x (env s) = (r0, w0)" by fastforce
  from call show "Q r (s\<lparr>env := w', calls := calls s @ [Wrote v (mk x) (fst r)]\<rparr>)"
  proof (cases rule: fated_cases)
    case 1
    then show ?thesis
      by (cases rule: mem_write_cases) (use s failed [of s] did [of s] in auto)
  next
    case 2
    then show ?thesis using s failed [of s timeout] by simp
  next
    case 3
    from wr show ?thesis
      by (cases rule: mem_write_cases) (use 3 wr s failed [of s timeout] did [of s x "Some timeout"] in auto)
  qed
qed

lemma leads_writes:
  assumes "\<And>s e. P s \<Longrightarrow> Q (Some e, x) (s\<lparr>calls := calls s @ [Wrote v (mk x) (Some e)]\<rparr>)"
    and "\<And>s e y. P s \<Longrightarrow> stored_version x (store (env s)) \<Longrightarrow> y = x \<or> e = None \<and> y = next_version x \<Longrightarrow>
      Q (e, y) (s\<lparr>env := put (written x (store (env s))) (env s), calls := calls s @ [Wrote v (mk x) e]\<rparr>)"
  shows "v = UpdateVerb \<Longrightarrow> leads P (api_update mk (unreliable_client \<phi> (mem_client store put has_field)) x) Q"
    and "v = PatchVerb \<Longrightarrow> leads P (api_patch mk (unreliable_client \<phi> (mem_client store put has_field)) x base) Q"
    and "v = StatusVerb \<Longrightarrow> leads P (api_status_update mk (unreliable_client \<phi> (mem_client store put has_field)) x) Q"
  using leads_write [where P = P and Q = Q and x = x and v = v and mk = mk and store = store and put = put] assms
  by (simp_all add: api_defs unreliable_client_def)

lemma leads_create:
  assumes failed: "\<And>s e. P s \<Longrightarrow> Q (Some e, x) (s\<lparr>calls := calls s @ [Wrote CreateVerb (mk x) (Some e)]\<rparr>)"
    and did: "\<And>s e y. P s \<Longrightarrow> find_key (key_of x) (store (env s)) = None \<Longrightarrow> y = x \<or> e = None \<and> y = next_version x \<Longrightarrow>
      Q (e, y) (s\<lparr>env := put (store (env s) @ [next_version x]) (env s), calls := calls s @ [Wrote CreateVerb (mk x) e]\<rparr>)"
  shows "leads P (api_create mk (unreliable_client \<phi> (mem_client store put has_field)) x) Q"
  unfolding api_defs
proof (rule leads_call)
  fix s r w'
  assume s: "P s" and "cCreate (unreliable_client \<phi> (mem_client store put has_field)) x (env s) = (r, w')"
  then have "fated (Some timeout, x) (\<phi> ''create'' (key_of x) (env s)) (cCreate (mem_client store put has_field) x) (env s) = (r, w')"
    by (simp add: unreliable_client_def)
  then show "Q r (s\<lparr>env := w', calls := calls s @ [Wrote CreateVerb (mk x) (fst r)]\<rparr>)"
    by (cases rule: fated_cases)
      (use s failed [of s] did [of s] in \<open>auto split: if_splits\<close>)
qed

lemma leads_delete:
  assumes failed: "\<And>s e. P s \<Longrightarrow> Q (Some e) (s\<lparr>calls := calls s @ [Wrote DeleteVerb (mk x) (Some e)]\<rparr>)"
    and did: "\<And>s e. P s \<Longrightarrow>
      Q e (s\<lparr>env := put (filter (\<lambda>y. key_of y \<noteq> key_of x) (store (env s))) (env s), calls := calls s @ [Wrote DeleteVerb (mk x) e]\<rparr>)"
  shows "leads P (api_delete mk (unreliable_client \<phi> (mem_client store put has_field)) x) Q"
  unfolding api_defs
proof (rule leads_call)
  fix s r w'
  assume s: "P s" and "cDelete (unreliable_client \<phi> (mem_client store put has_field)) x (env s) = (r, w')"
  then have "fated (Some timeout) (\<phi> ''delete'' (key_of x) (env s)) (cDelete (mem_client store put has_field) x) (env s) = (r, w')"
    by (simp add: unreliable_client_def)
  then show "Q r (s\<lparr>env := w', calls := calls s @ [Wrote DeleteVerb (mk x) r]\<rparr>)"
    by (cases rule: fated_cases)
      (use s failed [of s] did [of s] in \<open>auto split: if_splits\<close>)
qed

end
