(* ===== verification/Commons.thy ===== *)
theory Commons
  imports SharedServer MciSharing McsSharing Unreliable
begin

text \<open>
  The two load balancer controllers in a cluster they share with users and other controllers, next
  to the fake provider: others act between any two calls, every call may fail with or without
  effect (a controller that is killed is one whose further calls all fail), and the caches lag
  behind. The properties: whatever happens, the provider never holds a load balancer that nobody
  would remove.
\<close>

section \<open>The cluster\<close>

datatype actor_move =
    OnIngress "MultiClusterIngress move"
  | OnService "MultiClusterService move"
  | ClustersBecome "Cluster list"

text \<open>The schedule says what happens just before each of the coming calls and what becomes of it.\<close>

record Commons = Provider +
  commonIngresses :: "MultiClusterIngress shared"
  commonServices :: "MultiClusterService shared"
  commonClusters :: "Cluster list"
  commonSchedule :: "(actor_move list \<times> fate) list"

fun act :: "actor_move \<Rightarrow> Commons \<Rightarrow> Commons" where
  "act (OnIngress m) w = w\<lparr>commonIngresses := moved MCIControllerFinalizer m (commonIngresses w)\<rparr>"
| "act (OnService m) w = w\<lparr>commonServices := moved MCSControllerFinalizer m (commonServices w)\<rparr>"
| "act (ClustersBecome cs) w = w\<lparr>commonClusters := cs\<rparr>"

definition act_all :: "actor_move list \<Rightarrow> Commons \<Rightarrow> Commons" where
  "act_all ms w = fold act ms w"

definition among_others :: "'r \<Rightarrow> (Commons \<Rightarrow> 'r \<times> Commons) \<Rightarrow> Commons \<Rightarrow> 'r \<times> Commons" where
  "among_others lost f w =
     (case commonSchedule w of
        [] \<Rightarrow> f w
      | (ms, fate) # later \<Rightarrow>
          (let w = act_all ms (w\<lparr>commonSchedule := later\<rparr>)
           in case fate of Granted \<Rightarrow> f w | Refused \<Rightarrow> (lost, w) | Unanswered \<Rightarrow> (lost, snd (f w))))"

section \<open>The clients\<close>

definition on_part :: "('w \<Rightarrow> 'v) \<Rightarrow> ('v \<Rightarrow> 'w \<Rightarrow> 'w) \<Rightarrow> ('v \<Rightarrow> 'r \<times> 'v) \<Rightarrow> 'w \<Rightarrow> 'r \<times> 'w" where
  "on_part get put f w = (case f (get w) of (r, v) \<Rightarrow> (r, put v w))"

text \<open>Reads come from the cache, writes go to the server.\<close>

definition shared_client ::
  "(Commons \<Rightarrow> 'o ObjectMeta_scheme shared) \<Rightarrow> ('o ObjectMeta_scheme shared \<Rightarrow> Commons \<Rightarrow> Commons)
    \<Rightarrow> ('o ObjectMeta_scheme \<Rightarrow> 'o ObjectMeta_scheme \<Rightarrow> 'o ObjectMeta_scheme)
    \<Rightarrow> ('o ObjectMeta_scheme \<Rightarrow> 'o ObjectMeta_scheme \<Rightarrow> 'o ObjectMeta_scheme)
    \<Rightarrow> ('o ObjectMeta_scheme, Commons) kind_client" where
  "shared_client get put keep status =
     \<lparr>cGet = \<lambda>k. among_others (Inl timeout) (\<lambda>w.
        (case find_key k (shown (get w)) of None \<Rightarrow> Inl NotFound | Some x \<Rightarrow> Inr x, w)),
      cList = \<lambda>opts. among_others (Inl timeout) (\<lambda>w. (Inr (mem_list (\<lambda>_ _. False) (shown (get w)) opts), w)),
      cCreate = \<lambda>x. among_others (Some timeout, x) (on_part get put (server_create x)),
      cUpdate = \<lambda>x. among_others (Some timeout, x) (on_part get put (server_update keep x)),
      cPatch = \<lambda>x base. among_others (Some timeout, x) (on_part get put (server_patch x base)),
      cStatusUpdate = \<lambda>x. among_others (Some timeout, x) (on_part get put (server_update status x)),
      cDelete = \<lambda>x. among_others (Some timeout) (on_part get put (server_delete (key_of x)))\<rparr>"

definition shared_provider :: "('o, Commons) balancer \<Rightarrow> ('o, Commons) balancer" where
  "shared_provider b =
     \<lparr>GetBalancer = \<lambda>x. among_others (None, False, Some timeout) (GetBalancer b x),
      EnsureBalancer = \<lambda>x. among_others (None, Some timeout) (EnsureBalancer b x),
      UpdateBalancer = \<lambda>x. among_others (None, Some timeout) (UpdateBalancer b x),
      DeleteBalancer = \<lambda>x. among_others (Some timeout) (DeleteBalancer b x)\<rparr>"

text \<open>What a write of the status, and what another write leaves as it is stored.\<close>

definition mci_keep :: "MultiClusterIngress \<Rightarrow> MultiClusterIngress \<Rightarrow> MultiClusterIngress" where
  "mci_keep old x = x\<lparr>mciStatus := mciStatus old\<rparr>"

definition mci_status :: "MultiClusterIngress \<Rightarrow> MultiClusterIngress \<Rightarrow> MultiClusterIngress" where
  "mci_status old x = old\<lparr>mciStatus := mciStatus x\<rparr>"

definition mcs_keep :: "MultiClusterService \<Rightarrow> MultiClusterService \<Rightarrow> MultiClusterService" where
  "mcs_keep old x = x\<lparr>mcsLoadBalancer := mcsLoadBalancer old\<rparr>"

definition mcs_status :: "MultiClusterService \<Rightarrow> MultiClusterService \<Rightarrow> MultiClusterService" where
  "mcs_status old x = old\<lparr>mcsLoadBalancer := mcsLoadBalancer x\<rparr>"

definition no_objects :: "('o ObjectMeta_scheme, Commons) kind_client" where
  "no_objects = mem_client (\<lambda>_. []) (\<lambda>_ w. w) (\<lambda>_ _. False)"

definition shared_clusters :: "(Cluster, Commons) kind_client" where
  "shared_clusters = mem_client commonClusters (\<lambda>cs w. w\<lparr>commonClusters := cs\<rparr>) (\<lambda>_ _. False)
     \<lparr>cList := \<lambda>opts. among_others (Inl timeout) (\<lambda>w. (Inr (mem_list (\<lambda>_ _. False) (commonClusters w) opts), w))\<rparr>"

definition shared_server :: "Commons client" where
  "shared_server = \<lparr>
     mcis = shared_client commonIngresses (\<lambda>sh w. w\<lparr>commonIngresses := sh\<rparr>) mci_keep mci_status,
     mcss = shared_client commonServices (\<lambda>sh w. w\<lparr>commonServices := sh\<rparr>) mcs_keep mcs_status,
     services = no_objects, exports = no_objects, policies = no_objects, cluster_policies = no_objects,
     bindings = no_objects, clusters = shared_clusters, ingress_classes = no_objects\<rparr>"

definition shared_mci_controller :: "Commons MCIController" where
  "shared_mci_controller = \<lparr>mciDeps = std_deps, mciClient = shared_server,
     mciLoadBalancer = shared_provider (fst (LoadBalancer std_deps)),
     mciRetry = retry_upto 4, mciBlockRetry = retry_upto 4, mciProviderClassName = ''fake''\<rparr>"

definition shared_mcs_controller :: "Commons MCSController" where
  "shared_mcs_controller = \<lparr>mcsDeps = std_deps, mcsClient = shared_server,
     mcsBalancer = shared_provider (fst (MCSLoadBalancer std_deps)), mcsRetry = retry_upto 4\<rparr>"

section \<open>Calls among others\<close>

lemma act_all_induct:
  assumes "P w" and "\<And>m w. P w \<Longrightarrow> P (act m w)"
  shows "P (act_all ms w)"
  using assms(1) unfolding act_all_def by (induction ms arbitrary: w) (simp_all add: assms(2))

text \<open>A call among others has run, in the state the others left, or has been lost before.\<close>

lemma among_others_cases:
  assumes "among_others lost f w = (r, w')"
  obtains (run) ms l where "f (act_all ms (w\<lparr>commonSchedule := l\<rparr>)) = (r, w')"
    | (unanswered) ms l where "r = lost" and "w' = snd (f (act_all ms (w\<lparr>commonSchedule := l\<rparr>)))"
    | (refused) ms l where "r = lost" and "w' = act_all ms (w\<lparr>commonSchedule := l\<rparr>)"
proof (cases "commonSchedule w")
  case Nil
  then have "f w = (r, w')" using assms by (simp add: among_others_def)
  moreover have "act_all [] (w\<lparr>commonSchedule := commonSchedule w\<rparr>) = w" by (simp add: act_all_def)
  ultimately have "f (act_all [] (w\<lparr>commonSchedule := commonSchedule w\<rparr>)) = (r, w')" by (simp only:)
  then show thesis by (rule run)
next
  case (Cons x l)
  obtain ms fate where "x = (ms, fate)" by fastforce
  then show thesis using assms Cons run [of ms l] unanswered [of ms l] refused [of ms l]
    by (cases fate) (auto simp: among_others_def Let_def)
qed

lemma steady_kept:
  assumes "steady ok held got f" and "ok w \<and> (\<forall>k. held w0 k \<longrightarrow> held w k) \<and> (\<forall>x. got w0 x \<longrightarrow> got w x)"
  shows "ok (snd (f w)) \<and> (\<forall>k. held w0 k \<longrightarrow> held (snd (f w)) k) \<and> (\<forall>x. got w0 x \<longrightarrow> got (snd (f w)) x)"
proof -
  obtain r w' where f: "f w = (r, w')" by fastforce
  show ?thesis using steadyD [OF assms(1) f] assms(2) by (simp add: f)
qed

text \<open>What the others and every call keep is kept by a call among others.\<close>

lemma among_others_steady:
  assumes "steady ok held got f" and "\<And>m. steady ok held got (\<lambda>w. ((), act m w))"
    and "\<And>l. steady ok held got (\<lambda>w. ((), w\<lparr>commonSchedule := l\<rparr>))"
  shows "steady ok held got (among_others lost f)"
  unfolding steady_def
proof (intro allI impI)
  fix w r w'
  assume w: "ok w" "among_others lost f w = (r, w')"
  let ?kept = "\<lambda>v. ok v \<and> (\<forall>k. held w k \<longrightarrow> held v k) \<and> (\<forall>x. got w x \<longrightarrow> got v x)"
  have scheduled: "?kept (w\<lparr>commonSchedule := l\<rparr>)" for l
    using steady_kept [OF assms(3), of w w l] w(1) by simp
  have acted: "?kept (act m v)" if "?kept v" for m v
    using steady_kept [OF assms(2) that, of m] by simp
  have others: "?kept (act_all ms (w\<lparr>commonSchedule := l\<rparr>))" for ms l
    by (rule act_all_induct [of ?kept, OF scheduled acted])
  have called: "?kept (snd (f v))" if "?kept v" for v
    by (rule steady_kept [OF assms(1) that])
  from w(2) show "?kept w'"
  proof (cases rule: among_others_cases)
    case (run ms l)
    then show ?thesis using called [OF others, of ms l] by simp
  next
    case (unanswered ms l)
    then show ?thesis using called [OF others, of ms l] by simp
  next
    case (refused ms l)
    then show ?thesis using others [of ms l] by simp
  qed
qed

lemma among_others_leaves:
  assumes "leaves view f" and "\<And>m w. view (act m w) = view w" and "\<And>l w. view (w\<lparr>commonSchedule := l\<rparr>) = view w"
  shows "leaves view (among_others lost f)"
  unfolding leaves_def
proof
  fix w
  obtain r w' where out: "among_others lost f w = (r, w')" by fastforce
  have others: "view (act_all ms (w\<lparr>commonSchedule := l\<rparr>)) = view w" for ms l
    by (rule act_all_induct) (simp_all add: assms(2,3))
  have "view w' = view w"
    using out by (cases rule: among_others_cases)
      (use others assms(1) in \<open>auto simp: leaves_def dest: sym\<close>, metis snd_conv)
  then show "view (snd (among_others lost f w)) = view w" by (simp add: out)
qed

section \<open>The contracts\<close>

text \<open>
  One kind of objects of the shared cluster: its part of the state, that no other kind's calls
  reach, and what a write keeps of an object.
\<close>

locale shared_part =
  fixes get :: "Commons \<Rightarrow> 'x ObjectMeta_scheme shared" and put :: "'x ObjectMeta_scheme shared \<Rightarrow> Commons \<Rightarrow> Commons"
    and keep status :: "'x ObjectMeta_scheme \<Rightarrow> 'x ObjectMeta_scheme \<Rightarrow> 'x ObjectMeta_scheme"
    and wanted :: "'x ObjectMeta_scheme \<Rightarrow> bool" and fin :: string
  assumes get_put: "get (put sh w) = sh"
    and get_schedule: "get (w\<lparr>commonSchedule := l\<rparr>) = get w"
    and get_act: "get (act m w) = get w \<or> (\<exists>mv. get (act m w) = moved fin mv (get w))"
    and keep_key: "key_of (keep old x) = key_of x" and keep_finalizers: "Finalizers (keep old x) = Finalizers x"
    and status_key: "key_of (status old x) = key_of old" and status_finalizers: "Finalizers (status old x) = Finalizers old"
begin

abbreviation part_sound :: "Commons \<Rightarrow> bool" where
  "part_sound \<equiv> \<lambda>w. sound wanted fin (get w)"

abbreviation part_holds :: "Commons \<Rightarrow> key \<Rightarrow> bool" where
  "part_holds \<equiv> \<lambda>w. holds fin (get w)"

abbreviation part_reached :: "Commons \<Rightarrow> 'x ObjectMeta_scheme \<Rightarrow> bool" where
  "part_reached \<equiv> \<lambda>w. reached (get w)"

lemma part_steady: "steady_shared wanted fin f \<Longrightarrow> steady part_sound part_holds part_reached (on_part get put f)"
  by (simp add: steady_def on_part_def get_put split: prod.splits)

lemma unchanged_steady:
  "(\<And>w. get (snd (f w)) = get w) \<Longrightarrow> steady part_sound part_holds part_reached f"
  unfolding steady_def by (metis snd_conv)

lemma act_steady: "steady part_sound part_holds part_reached (\<lambda>w. ((), act m w))"
  unfolding steady_def
proof (intro allI impI)
  fix w and r :: unit and w'
  assume w: "part_sound w" "((), act m w) = (r, w')"
  from get_act [of m w] consider "get w' = get w" | mv where "get w' = moved fin mv (get w)"
    using w(2) by auto
  then show "part_sound w' \<and> (\<forall>k. part_holds w k \<longrightarrow> part_holds w' k) \<and> (\<forall>x. part_reached w x \<longrightarrow> part_reached w' x)"
  proof cases
    case (2 mv)
    show ?thesis using steadyD [OF moved_steady [of wanted fin mv] refl w(1)] by (simp add: 2)
  qed (use w(1) in simp)
qed

lemmas among_steady = among_others_steady [OF _ act_steady unchanged_steady]

lemma calls_steady:
  "steady part_sound part_holds part_reached f \<Longrightarrow> steady part_sound part_holds part_reached (among_others lost f)"
  by (rule among_steady) (simp_all add: get_schedule)

lemma acted_sound: "part_sound w \<Longrightarrow> part_sound (act_all ms (w\<lparr>commonSchedule := l\<rparr>))"
  by (rule act_all_induct [where P = part_sound])
    (simp_all add: get_schedule steadyD(1) [OF act_steady refl])

lemma shared_client_laws:
  "shared_objects part_sound part_holds part_reached wanted fin (shared_client get put keep status)"
proof
  let ?c = "shared_client get put keep status"
  note client = shared_client_def kind_client.select_convs
  show "steady part_sound part_holds part_reached (cGet ?c k)" for k
    unfolding client by (rule calls_steady, rule unchanged_steady) simp
  show "steady part_sound part_holds part_reached (cStatusUpdate ?c x)" for x
    unfolding client by (intro calls_steady part_steady server_update_steady) (simp_all add: status_key status_finalizers)
  show "steady part_sound part_holds part_reached (cPatch ?c x base)" if "fin \<in> set (Finalizers x)" for x base
    unfolding client by (intro calls_steady part_steady server_patch_steady that)
  show "steady part_sound part_holds part_reached (cUpdate ?c x)" if "fin \<in> set (Finalizers x)" for x
    unfolding client by (intro calls_steady part_steady server_update_steady) (simp_all add: keep_key keep_finalizers that)
  show "key_of x = k \<and> part_reached w' x" and
    "wanted x \<Longrightarrow> fin \<in> set (Finalizers x) \<Longrightarrow> part_holds w' k"
    if w: "part_sound w" "cGet ?c k w = (Inr x, w')" for w k x w'
  proof -
    from w(2) obtain ms l where w': "w' = act_all ms (w\<lparr>commonSchedule := l\<rparr>)"
      and x: "find_key k (shown (get w')) = Some x"
      unfolding client by (cases rule: among_others_cases) (auto split: option.splits)
    have sound: "part_sound w'" unfolding w' by (rule acted_sound [OF w(1)])
    note x = find_keyD [OF x]
    then show "key_of x = k \<and> part_reached w' x"
      using sound shown_reached by (auto simp: sound_def)
    show "part_holds w' k" if "wanted x" "fin \<in> set (Finalizers x)"
      using sound x that shown_version unfolding sound_def by blast
  qed
  show "part_holds w' (key_of x)"
    if "fin \<in> set (Finalizers x)" "fin \<notin> set (Finalizers base)" "cPatch ?c x base w = ((None, y), w')" for x base w y w'
    using that(3) unfolding client
    by (cases rule: among_others_cases)
      (use server_patch_holds [OF that(1,2)] in \<open>auto simp: on_part_def get_put split: prod.splits\<close>)
  show "part_holds w' (key_of x) \<and> key_of y = key_of x"
    if "fin \<in> set (Finalizers x)" "cUpdate ?c x w = ((None, y), w')" for x w y w'
    using that(2) unfolding client
    by (cases rule: among_others_cases)
      (use server_update_holds [of x keep fin] keep_key keep_finalizers that(1) in \<open>auto simp: on_part_def get_put split: prod.splits\<close>)
  show "part_sound w' \<and> (\<forall>k. k \<noteq> key_of x \<longrightarrow> part_holds w k \<longrightarrow> part_holds w' k)"
    if w: "part_sound w" "part_reached w x" "\<not> wanted x" "cUpdate ?c (x\<lparr>Finalizers := fs\<rparr>) w = (r, w')" for w x fs r w'
  proof -
    have others: "part_sound v \<and> (\<forall>k. part_holds w k \<longrightarrow> part_holds v k) \<and> part_reached v x"
      if "v = act_all ms (w\<lparr>commonSchedule := l\<rparr>)" for v ms l
      unfolding that
      by (rule act_all_induct [where P = "\<lambda>v. part_sound v \<and> (\<forall>k. part_holds w k \<longrightarrow> part_holds v k) \<and> part_reached v x"])
        (use w(1,2) steadyD [OF act_steady refl] in \<open>auto simp: get_schedule\<close>)
    have update: "part_sound (snd (on_part get put (server_update keep (x\<lparr>Finalizers := fs\<rparr>)) v)) \<and>
        (\<forall>k. k \<noteq> key_of x \<longrightarrow> part_holds v k \<longrightarrow> part_holds (snd (on_part get put (server_update keep (x\<lparr>Finalizers := fs\<rparr>)) v)) k)"
      if v: "part_sound v \<and> (\<forall>k. part_holds w k \<longrightarrow> part_holds v k) \<and> part_reached v x" for v
    proof -
      have "key_of (x\<lparr>Finalizers := fs\<rparr>) = key_of x" by (simp add: key_of_def)
      then have key: "\<forall>old. key_of old = key_of x \<longrightarrow> key_of (keep old (x\<lparr>Finalizers := fs\<rparr>)) = key_of x"
        by (simp add: keep_key)
      obtain q sh where run: "server_update keep (x\<lparr>Finalizers := fs\<rparr>) (get v) = (q, sh)" by fastforce
      show ?thesis
        using server_update_let_go [where wanted = wanted and fin = fin, OF _ _ w(3) key run] v
        by (simp add: on_part_def run get_put)
    qed
    from w(4) show ?thesis unfolding client
    proof (cases rule: among_others_cases)
      case (run ms l)
      then show ?thesis using update [OF others [OF refl, of ms l]] others [OF refl, of ms l] by auto
    next
      case (unanswered ms l)
      then show ?thesis using update [OF others [OF refl, of ms l]] others [OF refl, of ms l] by auto
    next
      case (refused ms l)
      then show ?thesis using others [OF refl, of ms l] by auto
    qed
  qed
qed

lemma server_update_key:
  assumes "\<forall>old. key_of old = key_of x \<longrightarrow> key_of (part old x) = key_of x"
  shows "key_of (snd (fst (among_others (Some timeout, x) (on_part get put (server_update part x)) w))) = key_of x"
proof -
  have run: "key_of (snd (fst (on_part get put (server_update part x) v))) = key_of x" for v
  proof (cases "find_key (key_of x) (sharedObjects (get v))")
    case (Some old)
    have "key_of ((part old x)\<lparr>DeletionTimestamp := DeletionTimestamp old\<rparr>) = key_of (part old x)"
      by (simp add: key_of_def)
    moreover have "key_of (part old x) = key_of x" using assms find_keyD [OF Some] by simp
    ultimately show ?thesis using Some by (simp add: on_part_def server_update_def accepted_def Let_def)
  qed (simp add: on_part_def server_update_def)
  obtain r w' where out: "among_others (Some timeout, x) (on_part get put (server_update part x)) w = (r, w')" by fastforce
  then show ?thesis
  proof (cases rule: among_others_cases)
    case (run ms l)
    with \<open>\<And>v. key_of (snd (fst (on_part get put (server_update part x) v))) = key_of x\<close> show ?thesis
      unfolding out by (metis fst_conv)
  qed (simp_all add: out)
qed

lemma shared_client_keeps_key: "keeps_key (shared_client get put keep status)"
  unfolding keeps_key_def
proof (intro conjI allI impI)
  fix k w x
  assume "fst (cGet (shared_client get put keep status) k w) = Inr x"
  then obtain w' where "cGet (shared_client get put keep status) k w = (Inr x, w')"
    by (metis prod.collapse)
  then show "key_of x = k" unfolding shared_client_def kind_client.select_convs
    by (cases rule: among_others_cases) (auto split: option.splits dest: find_keyD)
qed (simp_all add: shared_client_def server_update_key keep_key status_key)

text \<open>The clients of this part leave alone what is no part of it.\<close>

lemma shared_client_leaves:
  assumes "\<And>sh w. view (put sh w) = view w" and "\<And>m w. view (act m w) = view w"
    and "\<And>l w. view (w\<lparr>commonSchedule := l\<rparr>) = view w"
  shows "client_leaves view (shared_client get put keep status)"
proof -
  show ?thesis
    unfolding client_leaves_def shared_client_def kind_client.select_convs
    by (intro conjI allI among_others_leaves assms(2,3))
      (simp_all add: leaves_def on_part_def assms(1) split: prod.splits)
qed

end

text \<open>A provider among others keeps the contract of cloud.go.\<close>

locale balancer_among_others = keyed_balancer b has name
  for b :: "('x ObjectMeta_scheme, Commons) balancer" and has :: "Commons \<Rightarrow> 'k \<Rightarrow> bool" and name +
  assumes has_act: "has (act m w) = has w" and has_schedule: "has (w\<lparr>commonSchedule := l\<rparr>) = has w"
    and delete_makes_none: "DeleteBalancer b x w = (e, w') \<Longrightarrow> has w' n \<Longrightarrow> has w n"
begin

lemma has_acted: "has (act_all ms (w\<lparr>commonSchedule := l\<rparr>)) = has w"
  by (rule act_all_induct [where P = "\<lambda>v. has v = has w"]) (simp_all add: has_act has_schedule)

text \<open>A call among others has run from a state in which the provider holds the same.\<close>

lemma among_others_has:
  assumes "among_others lost f w = (r, w')"
  obtains (run) v where "has v = has w" and "f v = (r, w')"
    | (lost) v q where "has v = has w" and "r = lost" and "f v = (q, w')"
    | (before) "has w' = has w" and "r = lost"
  using assms
proof (cases rule: among_others_cases)
  case (run ms l)
  then show thesis using that(1) [OF has_acted] by blast
next
  case (unanswered ms l)
  obtain q where "f (act_all ms (w\<lparr>commonSchedule := l\<rparr>)) = (q, w')"
    using unanswered(2) by (metis prod.collapse)
  with unanswered(1) show thesis by (rule that(2) [OF has_acted])
next
  case (refused ms l)
  then show thesis using that(3) has_acted by simp
qed

lemma shared_provider_keyed: "keyed_balancer (shared_provider b) has name"
proof
  note provider = shared_provider_def balancer.select_convs
  show "has w' k = has w k" if "GetBalancer (shared_provider b) x w = (r, w')" for x w r w' k
    using that unfolding provider by (cases rule: among_others_has) (auto dest: get_keeps [where k = k])
  show "ex = has w (name x)" if "GetBalancer (shared_provider b) x w = ((st, ex, None), w')" for x w st ex w'
    using that unfolding provider by (cases rule: among_others_has) (auto dest: get_reports)
  show "has w' (name x)" "st \<noteq> None" if "EnsureBalancer (shared_provider b) x w = ((st, None), w')" for x w st w'
    using that unfolding provider by (cases rule: among_others_has; auto dest: ensure_makes ensure_status)+
  show "has w' k = has w k" if "EnsureBalancer (shared_provider b) x w = (q, w')" "k \<noteq> name x" for x w q w' k
    using that(1) unfolding provider
    by (cases rule: among_others_has) (auto dest: ensure_frame [OF _ that(2)])
  show "has w' k = has w k" if "UpdateBalancer (shared_provider b) x w = (q, w')" for x w q w' k
    using that unfolding provider by (cases rule: among_others_has) (auto dest: update_keeps [where k = k])
  show "has w (name x)" "st \<noteq> None" if "UpdateBalancer (shared_provider b) x w = ((st, None), w')" for x w st w'
    using that unfolding provider by (cases rule: among_others_has; auto dest: update_needs update_status)+
  show "\<not> has w' (name x)" if "DeleteBalancer (shared_provider b) x w = (None, w')" for x w w'
    using that unfolding provider by (cases rule: among_others_has) (auto dest: delete_removes)
  show "has w' k = has w k" if "DeleteBalancer (shared_provider b) x w = (e, w')" "k \<noteq> name x" for x w e w' k
    using that(1) unfolding provider
    by (cases rule: among_others_has) (auto dest: delete_frame [OF _ that(2)])
qed (rule name_key)

lemma shared_delete_only: "DeleteBalancer (shared_provider b) x w = (e, w') \<Longrightarrow> has w' n \<Longrightarrow> has w n"
  unfolding shared_provider_def balancer.select_convs
  by (erule among_others_has) (auto dest: delete_makes_none [where n = n])

end

end
