(* ===== verification/MciCloud.thy ===== *)
theory MciCloud
  imports MciController Testbed
begin

text \<open>
  What a reconcile of a MultiClusterIngress does to the cloud (the locale \<open>mci_cloud\<close>, interpreted
  on the fake provider), and the properties of mci_controller.go with runs that witness them.
\<close>

section \<open>The cloud after a reconcile\<close>

text \<open>
  A controller whose libraries meet their contracts, whose provider meets that of cloud.go, and
  whose client does not reach into the cloud.
\<close>

locale mci_cloud = keyed_balancer "mciLoadBalancer c" has name
  for c :: "'w MCIController" and has :: "'w \<Rightarrow> 'k \<Rightarrow> bool" and name +
  assumes contract: "mci_contract c"
    and mcis_leave: "client_leaves has (mcis (mciClient c))"
    and clusters_leave: "client_leaves has (clusters (mciClient c))"
begin

lemmas mci_view = api_view [OF mcis_leave]

lemma mci_status_attempt_view:
  assumes "run_state (mci_status_attempt c st mci) s = (r, s')"
  shows "has (env s') = has (env s)"
proof -
  obtain e m s1 where u: "run_state (api_status_update MCIObj (mcis (mciClient c)) (with_lb_status st mci)) s = ((e, m), s1)"
    by (rule out2)
  obtain r2 s2 where g: "run_state (api_get MCIKind MCIObj (mcis (mciClient c)) (key_of m)) s1 = (r2, s2)"
    by (metis surj_pair)
  have "s' = s1 \<or> s' = s2"
    using assms u g by (auto simp: mci_status_attempt_def split: if_splits sum.splits)
  then show ?thesis using mci_view(6) [OF u] mci_view(1) [OF g] by auto
qed

lemma block_attempt_view:
  assumes "run_state (block_attempt c k cs v) s = (r, s')"
  shows "has (env s') = has (env s)"
proof -
  obtain mci caller same where v: "v = (mci, caller, same)" by (cases v)
  obtain e m s1 where u: "run_state (api_status_update MCIObj (mcis (mciClient c)) (with_blocked cs mci)) s = ((e, m), s1)"
    by (rule out2)
  obtain r2 s2 where g: "run_state (api_get MCIKind MCIObj (mcis (mciClient c)) k) s1 = (r2, s2)"
    by (metis surj_pair)
  have "s' = s \<or> s' = s1 \<or> s' = s2"
    using assms u g by (auto simp: v block_attempt_def Let_def split: if_splits sum.splits)
  then show ?thesis using mci_view(6) [OF u] mci_view(1) [OF g] by auto
qed

lemma updateMCIStatus_view:
  assumes "run_state (updateMCIStatus c mci st) s = (e, s')"
  shows "has (env s') = has (env s)"
proof (cases "\<exists>x. st = Some x \<and> statusLoadBalancer (mciStatus mci) \<noteq> x")
  case True
  then obtain x where x: "st = Some x" "statusLoadBalancer (mciStatus mci) \<noteq> x" by blast
  obtain e v s1 where out: "run_state (mciRetry c (mci_status_attempt c x) mci) s = ((e, v), s1)"
    by (rule out2)
  have "s' = s1" using assms x by (simp add: updateMCIStatus_def out)
  then show ?thesis
    using retry_view [where view = has, OF mci_contractD(2) [OF contract] out mci_status_attempt_view]
    by simp
next
  case False
  then show ?thesis using assms by (auto simp: updateMCIStatus_def split: option.splits)
qed

lemma updateMCITrafficBlockClusters_view:
  assumes "run_state (updateMCITrafficBlockClusters c mci) s = ((e, mci'), s')"
  shows "has (env s') = has (env s)"
proof -
  obtain r w where list: "cList (clusters (mciClient c)) all_objects (env s) = (r, w)"
    by (cases "cList (clusters (mciClient c)) all_objects (env s)")
  then have w: "has w = has (env s)"
    by (rule client_leavesD(2) [OF clusters_leave])
  from assms list show ?thesis
  proof (cases rule: run_updateMCITrafficBlockClusters)
    case failed
    then show ?thesis using w by simp
  next
    case (tried cs m same)
    from retry_view [where view = has, OF mci_contractD(3) [OF contract] tried(2) block_attempt_view]
    show ?thesis using w by simp
  qed
qed

lemma sync_balancer_has:
  assumes run: "run_state (sync_balancer c mci) s = (e, s')"
  shows "e = None \<Longrightarrow> has (env s') (name mci)"
    and "k \<noteq> name mci \<Longrightarrow> has (env s') k \<longleftrightarrow> has (env s) k"
proof -
  obtain e1 mci1 s1 where r1: "run_state (updateMCITrafficBlockClusters c mci) s = ((e1, mci1), s1)"
    by (rule out2)
  note v1 = updateMCITrafficBlockClusters_view [OF r1]
  obtain le where "key_of mci1 = key_of mci"
    using updateMCITrafficBlockClusters_quiet [OF contract r1] by blast
  then have name: "name mci1 = name mci" by (rule name_key)
  obtain st ex e2 s2 where r2: "run_state (lb_get MCIObj (mciLoadBalancer c) mci1) s1 = ((st, ex, e2), s2)"
    by (metis surj_pair)
  obtain st3 e3 s3 where r3:
    "run_state ((if ex then lb_update else lb_ensure) MCIObj (mciLoadBalancer c) mci1) s2 = ((st3, e3), s3)"
    by (rule out2)
  consider "e1 \<noteq> None" "e = e1" "s' = s1" | "e1 = None" "e2 \<noteq> None" "e = e2" "s' = s2"
    | "e2 = None" "e3 \<noteq> None" "e = e3" "s' = s3"
    | "e2 = None" "e3 = None" "run_state (updateMCIStatus c mci1 st3) s3 = (e, s')"
    using run r1 r2 r3
    by (auto simp: sync_balancer_def handleMCIUpdate_def handleMCICreate_def split: if_splits)
  then have "(e = None \<longrightarrow> has (env s') (name mci)) \<and> (k \<noteq> name mci \<longrightarrow> has (env s') k = has (env s) k)" for k
  proof cases
    case 2
    then show ?thesis using run_lb_get(1) [OF r2] v1 by auto
  next
    case 3
    then show ?thesis using run_get_then_write(2) [OF r2 [unfolded 3(1)] r3] v1 name by auto
  next
    case 4
    note w = run_get_then_write [OF r2 [unfolded 4(1)] r3]
    show ?thesis using w updateMCIStatus_view [OF 4(3)] v1 name 4(2) by simp
  qed (use v1 in auto)
  then show "e = None \<Longrightarrow> has (env s') (name mci)"
    and "k \<noteq> name mci \<Longrightarrow> has (env s') k \<longleftrightarrow> has (env s) k" by blast+
qed

lemma handleMCICreateOrUpdate_has:
  assumes run: "run_state (handleMCICreateOrUpdate c mci) s = (e, s')"
  shows "e = None \<Longrightarrow> has (env s') (name mci)"
    and "k \<noteq> name mci \<Longrightarrow> has (env s') k \<longleftrightarrow> has (env s) k"
proof -
  let ?x = "mci\<lparr>Finalizers := snd (AddFinalizer (mciDeps c) (Finalizers mci) MCIControllerFinalizer)\<rparr>"
  obtain e1 y s1 where p: "run_state (api_patch MCIObj (mcis (mciClient c)) ?x mci) s = ((e1, y), s1)"
    by (rule out2)
  note v = mci_view(5) [OF p]
  consider "run_state (sync_balancer c mci) s = (e, s')" | "e = e1" "e1 \<noteq> None" "s' = s1"
    | "run_state (sync_balancer c mci) s1 = (e, s')"
    using run p by (auto simp: handleMCICreateOrUpdate_def Let_def split: if_splits)
  then have "(e = None \<longrightarrow> has (env s') (name mci)) \<and> (k \<noteq> name mci \<longrightarrow> has (env s') k = has (env s) k)" for k
    using sync_balancer_has v by cases auto
  then show "e = None \<Longrightarrow> has (env s') (name mci)"
    and "k \<noteq> name mci \<Longrightarrow> has (env s') k \<longleftrightarrow> has (env s) k" by blast+
qed

lemma handleMCIDelete_has:
  assumes run: "run_state (handleMCIDelete c mci) s = (e, s')"
  shows "e = None \<Longrightarrow> \<not> has (env s') (name mci)"
    and "k \<noteq> name mci \<Longrightarrow> has (env s') k \<longleftrightarrow> has (env s) k"
proof -
  let ?x = "mci\<lparr>Finalizers := snd (RemoveFinalizer (mciDeps c) (Finalizers mci) MCIControllerFinalizer)\<rparr>"
  obtain e1 s1 where d: "run_state (lb_delete MCIObj (mciLoadBalancer c) mci) s = (e1, s1)"
    by (metis surj_pair)
  obtain e2 y s2 where u: "run_state (api_update MCIObj (mcis (mciClient c)) ?x) s1 = ((e2, y), s2)"
    by (rule out2)
  have "e1 \<noteq> None \<Longrightarrow> e = e1" and "s' = s1 \<or> s' = s2"
    using run d u by (auto simp: handleMCIDelete_def split: if_splits prod.splits)
  moreover have "has (env s2) = has (env s1)" by (rule mci_view(4) [OF u])
  ultimately show "e = None \<Longrightarrow> \<not> has (env s') (name mci)"
    and "k \<noteq> name mci \<Longrightarrow> has (env s') k \<longleftrightarrow> has (env s) k"
    using run_lb_delete [OF d] by metis+
qed

theorem ReconcileMCI_settles:
  assumes run: "run_state (ReconcileMCI c req) s = (e, s')"
    and read: "cGet (mcis (mciClient c)) req (env s) = (Inr mci, w)"
  shows "e = None \<Longrightarrow> has (env s') (name mci) \<longleftrightarrow> DeletionTimestamp mci = None"
    and "k \<noteq> name mci \<Longrightarrow> has (env s') k \<longleftrightarrow> has (env s) k"
proof -
  have w: "has w = has (env s)"
    by (rule client_leavesD(1) [OF mcis_leave read])
  from run have "(e = None \<longrightarrow> (has (env s') (name mci) \<longleftrightarrow> DeletionTimestamp mci = None)) \<and>
      (k \<noteq> name mci \<longrightarrow> has (env s') k = has (env s) k)" for k
  proof (cases rule: ReconcileMCI_run)
    case (unread e1)
    then show ?thesis using read by simp
  next
    case (deleting x s1)
    then have "x = mci" "env s1 = w" using read by auto
    then show ?thesis using handleMCIDelete_has [OF deleting(4)] deleting(2) w by simp
  next
    case (live x s1)
    then have "x = mci" "env s1 = w" using read by auto
    then show ?thesis using handleMCICreateOrUpdate_has [OF live(4)] live(2) w by simp
  qed
  then show "e = None \<Longrightarrow> has (env s') (name mci) \<longleftrightarrow> DeletionTimestamp mci = None"
    and "k \<noteq> name mci \<Longrightarrow> has (env s') k \<longleftrightarrow> has (env s) k" by blast+
qed

end

text \<open>A controller's life keeps the finalizer protocol, whatever its client and provider do.\<close>

interpretation mci_log: keeps_log "ReconcileMCI c"
  "\<lambda>l. mci_contract c \<longrightarrow> finalizer_protocol MCIKind MCIControllerFinalizer l" for c
  by unfold_locales (auto intro: ReconcileMCI_protocol)
section \<open>The controller on the fake provider\<close>

definition test_mci_controller :: "Testbed MCIController" where
  "test_mci_controller = \<lparr>mciDeps = std_deps, mciClient = mem_server std_deps,
     mciLoadBalancer = fst (LoadBalancer std_deps), mciRetry = retry_upto 4,
     mciBlockRetry = retry_upto 4, mciProviderClassName = ''fake''\<rparr>"

definition mci_key :: "deps \<Rightarrow> MultiClusterIngress \<Rightarrow> string" where
  "mci_key d mci = NamespacedNameString d (key_of mci)"

lemma test_mci_controller_simps [simp]:
  "mciDeps test_mci_controller = std_deps"
  "mciClient test_mci_controller = mem_server std_deps"
  "mciLoadBalancer test_mci_controller = fst (LoadBalancer std_deps)"
  "mciRetry test_mci_controller = retry_upto 4"
  "mciBlockRetry test_mci_controller = retry_upto 4"
  by (simp_all add: test_mci_controller_def)

lemma test_mci_contract: "mci_contract test_mci_controller"
  by (simp add: mci_contract_def std_finalizers_ok retry_upto_ok)

lemma mci_key_is: "mci_key d = (\<lambda>mci. NamespacedNameString d (key_of mci))"
  by (simp add: mci_key_def [abs_def])

interpretation test_mci: mci_cloud test_mci_controller has_balancer "mci_key std_deps"
proof -
  have "keyed_balancer (mciLoadBalancer test_mci_controller) has_balancer (mci_key std_deps)"
    unfolding test_mci_controller_simps mci_key_is by (rule fake_mci_keyed.keyed_balancer_axioms)
  then show "mci_cloud test_mci_controller has_balancer (mci_key std_deps)"
    unfolding mci_cloud_def mci_cloud_axioms_def test_mci_controller_simps
    by (simp only: mem_server_leaves test_mci_contract simp_thms)
qed

definition mci_world :: "MultiClusterIngress list \<Rightarrow> Cluster list \<Rightarrow> (Testbed, call) world" where
  "mci_world xs cs = \<lparr>env = empty_testbed\<lparr>apiMCIs := xs, apiClusters := cs\<rparr>, calls = []\<rparr>"

lemmas run_test = mci_world_def mem_write_def mem_list_def sample_mci_def sample_cluster_def
  empty_testbed_def meta_literal_def ObjectMeta.defs run_api lb_defs mci_balancer_defs key_of_def
  next_version_def all_objects_def mci_key_def addCall_def status_with_def empty_status_def
  BuildServiceRefIndexes_def spec_backends_def Let_def

lemmas mci_defs = ReconcileMCI_def IsZero_def handleMCICreateOrUpdate_def handleMCIDelete_def
  sync_balancer_def updateMCITrafficBlockClusters_def block_attempt_def updateMCIStatus_def
  mci_status_attempt_def handleMCIUpdate_def handleMCICreate_def MCIControllerFinalizer_def
  with_blocked_def with_lb_status_def

definition deleting_mci :: MultiClusterIngress where
  "deleting_mci = sample_mci\<lparr>Finalizers := [MCIControllerFinalizer], DeletionTimestamp := Some ''now''\<rparr>"

definition synced_mci :: MultiClusterIngress where
  "synced_mci = with_lb_status (status_with ''1.2.3.4'') (with_blocked (Some [''m1'']) (sample_mci\<lparr>Finalizers := [MCIControllerFinalizer], ResourceVersion := ''iii''\<rparr>))"

definition first_run :: "error option \<times> (Testbed, call) world" where
  "first_run = run_state (ReconcileMCI test_mci_controller (''shop'', ''web'')) (mci_world [sample_mci] [sample_cluster])"

definition delete_run :: "error option \<times> (Testbed, call) world" where
  "delete_run = run_state (ReconcileMCI test_mci_controller (''shop'', ''web'')) (mci_world [deleting_mci] [])"

lemma first_run_result: "fst first_run = None" "apiMCIs (env (snd first_run)) = [synced_mci]"
  by (simp_all add: first_run_def synced_mci_def run_test mci_defs)

lemma first_run_eq:
  "run_state (ReconcileMCI test_mci_controller (''shop'', ''web'')) (mci_world [sample_mci] [sample_cluster]) =
     (None, snd first_run)"
  using first_run_result(1) by (simp add: first_run_def prod_eq_iff)

lemma first_run_read:
  "cGet (mcis (mciClient test_mci_controller)) (''shop'', ''web'') (env (mci_world [sample_mci] cs)) =
     (Inr sample_mci, env (mci_world [sample_mci] cs))"
  by (simp add: run_test)

lemma first_run_calls: "calls (snd first_run) =
  (let m = sample_mci; f = m\<lparr>Finalizers := [MCIControllerFinalizer]\<rparr>;
       blocked = with_blocked (Some [''m1'']); lb = with_lb_status (status_with ''1.2.3.4'');
       k = (''shop'', ''web'') in
   [Reconciling MCIKind k, Got MCIKind k (Inr (MCIObj m)), Wrote PatchVerb (MCIObj f) None,
    Listed ClusterKind all_objects None,
    Wrote StatusVerb (MCIObj (blocked m)) (Some Conflict),
    Got MCIKind k (Inr (MCIObj (f\<lparr>ResourceVersion := ''i''\<rparr>))),
    Wrote StatusVerb (MCIObj (blocked (f\<lparr>ResourceVersion := ''i''\<rparr>))) None,
    LBGot (MCIObj (blocked m)) False None, LBEnsured (MCIObj (blocked m)) None,
    Wrote StatusVerb (MCIObj (lb (blocked m))) (Some Conflict),
    Got MCIKind k (Inr (MCIObj (blocked (f\<lparr>ResourceVersion := ''ii''\<rparr>)))),
    Wrote StatusVerb (MCIObj (lb (blocked (f\<lparr>ResourceVersion := ''ii''\<rparr>)))) None])"
  by (simp add: first_run_def run_test mci_defs)

lemma delete_run_calls: "calls (snd delete_run) = [Reconciling MCIKind (''shop'', ''web''),
   Got MCIKind (''shop'', ''web'') (Inr (MCIObj deleting_mci)), LBDeleted (MCIObj deleting_mci) None,
   Wrote UpdateVerb (MCIObj (deleting_mci\<lparr>Finalizers := []\<rparr>)) None]" "fst delete_run = None"
  by (simp_all add: delete_run_def deleting_mci_def run_test mci_defs)

lemma lives:
  "life (ReconcileMCI test_mci_controller) (snd first_run)"
  "life (ReconcileMCI test_mci_controller) (snd delete_run)"
  unfolding first_run_def delete_run_def mci_world_def by (intro life.intros)+

section \<open>Properties\<close>

text \<open>
  C14: at any time of a controller's life, whatever the API server and the provider answer, a
  write of a MultiClusterIngress's metadata that leaves the controller's finalizer out comes only
  after the same reconcile had the provider delete the load balancer of that ingress
  successfully, and asked for none since.
\<close>

theorem mci_finalizer_released_last:
  assumes "mci_contract c" and "life (ReconcileMCI c) s"
    and "calls s = p @ Wrote v (MCIObj x) e # q" and "v \<noteq> StatusVerb"
    and "MCIControllerFinalizer \<notin> set (Finalizers x)"
  shows "\<exists>p1 y p2. p = p1 @ LBDeleted (MCIObj y) None # p2 \<and> key_of y = key_of x \<and>
    (\<forall>c \<in> set p2. \<not> starts c \<and> \<not> makes_balancer MCIKind (key_of x) c)"
proof -
  have "allowed MCIKind MCIControllerFinalizer p (Wrote v (MCIObj x) e)"
    using mci_log.life_safe [OF assms(2)] assms(1,3)
    by (simp add: finalizer_protocol_def everywhereD)
  then have "gone MCIKind (key_of x) p"
    using assms(4,5) by (simp add: allowed_def carries_def)
  then show ?thesis using goneD [of MCIKind "key_of x" p] unfolding is_obj_cases by blast
qed

lemma mci_finalizer_released_last_witness:
  "\<exists>p1 y p2. take 3 (calls (snd delete_run)) = p1 @ LBDeleted (MCIObj y) None # p2 \<and>
     key_of y = key_of (deleting_mci\<lparr>Finalizers := []\<rparr>)"
  using mci_finalizer_released_last [OF test_mci_contract lives(2), where v = UpdateVerb
      and e = None and q = "[]" and x = "deleting_mci\<lparr>Finalizers := []\<rparr>"]
  by (simp add: delete_run_calls) blast

text \<open>
  C15: at any time of a controller's life, the provider is asked to create or update the load
  balancer of an ingress only after the same reconcile read or wrote the ingress with the
  controller's finalizer and has not written it without; and right before, the provider
  answered whether the load balancer exists: it is created only if not, updated only if so.
\<close>

theorem mci_provider_after_finalizer:
  assumes "mci_contract c" and "life (ReconcileMCI c) s"
    and "calls s = p @ lb_entry ex (MCIObj x) e # q"
  shows "(\<exists>p1 c1 p2. p = p1 @ c1 # p2 \<and> shows_finalizer MCIKind MCIControllerFinalizer (key_of x) c1 \<and>
      (\<forall>c \<in> set p2. \<not> starts c \<and> \<not> leaves_out MCIKind MCIControllerFinalizer (key_of x) c)) \<and>
    p \<noteq> [] \<and> last p = LBGot (MCIObj x) ex None"
proof -
  have ok: "allowed MCIKind MCIControllerFinalizer p (lb_entry ex (MCIObj x) e)"
    using mci_log.life_safe [OF assms(2)] assms(1,3)
    by (simp add: finalizer_protocol_def everywhereD)
  then have "protected MCIKind MCIControllerFinalizer (key_of x) p"
    by (auto simp: allowed_def lb_entry_def split: if_splits)
  moreover have "p \<noteq> [] \<and> last p = LBGot (MCIObj x) ex None"
    using ok by (auto simp: allowed_def lb_entry_def split: if_splits)
  ultimately show ?thesis using protectedD by blast
qed

lemma mci_provider_after_finalizer_witness:
  "last (take 8 (calls (snd first_run))) = LBGot (MCIObj (with_blocked (Some [''m1'']) sample_mci)) False None"
  using mci_provider_after_finalizer [OF test_mci_contract lives(1), where e = None and
      p = "take 8 (calls (snd first_run))" and q = "drop 9 (calls (snd first_run))" and
      x = "with_blocked (Some [''m1'']) sample_mci" and ex = False]
  by (simp add: first_run_calls lb_entry_def Let_def)

text \<open>
  C18: when a reconcile of an existing ingress returns nil, the provider holds a load balancer for
  it exactly if the ingress is not being deleted; and whatever it returns, the load balancers of
  all other ingresses are as before.
\<close>

theorem mci_reconcile_settles_cloud:
  assumes "mci_cloud c has name"
    and "run_state (ReconcileMCI c req) s = (e, s')"
    and "cGet (mcis (mciClient c)) req (env s) = (Inr mci, w)"
  shows "(e = None \<longrightarrow> (has (env s') (name mci) \<longleftrightarrow> DeletionTimestamp mci = None)) \<and>
    (\<forall>k. k \<noteq> name mci \<longrightarrow> (has (env s') k \<longleftrightarrow> has (env s) k))"
  using mci_cloud.ReconcileMCI_settles [OF assms] by blast+

lemma mci_reconcile_settles_cloud_witness:
  "has_balancer (env (snd first_run)) (mci_key std_deps sample_mci)"
  using mci_reconcile_settles_cloud [OF test_mci.mci_cloud_axioms first_run_eq first_run_read]
  by (simp add: sample_mci_def meta_literal_def ObjectMeta.defs)

text \<open>
  C35: a reconcile that returns nil has not swallowed a failure: none of its Lists, its writes of
  metadata and its calls of the provider returned an error.
\<close>

theorem mci_success_means_no_failure:
  assumes "mci_contract c" and "run_state (ReconcileMCI c req) s = (None, s')"
  shows "\<not> failed (calls s')"
  using assms by (rule ReconcileMCI_failed)

lemma mci_success_means_no_failure_witness: "\<not> failed (calls (snd first_run))"
  by (rule mci_success_means_no_failure [OF test_mci_contract first_run_eq])



text \<open>
  When creating or updating the load balancer succeeds, the status the provider returned is the
  ingress's load balancer status: the ingress had it already, and nothing was written, or the
  last call stored it in the ingress.
\<close>

lemma mci_provider_status_stored:
  assumes "mci_contract c"
    and "run_state ((if ex then handleMCIUpdate else handleMCICreate) c mci) s = (None, s')"
  shows "\<exists>st w. (if ex then UpdateBalancer else EnsureBalancer) (mciLoadBalancer c) mci (env s) = ((Some st, None), w) \<and>
    (statusLoadBalancer (mciStatus mci) = st \<and> calls s' = calls s @ [lb_entry ex (MCIObj mci) None] \<or>
     (\<exists>l m. calls s' = l @ [Wrote StatusVerb (MCIObj m) None] \<and> key_of m = key_of mci \<and>
        statusLoadBalancer (mciStatus m) = st))"
proof -
  let ?op = "if ex then UpdateBalancer else EnsureBalancer"
  obtain st1 e w where op: "?op (mciLoadBalancer c) mci (env s) = ((st1, e), w)" by (rule out2)
  let ?s1 = "s\<lparr>env := w, calls := calls s @ [lb_entry ex (MCIObj mci) e]\<rparr>"
  have e: "e = None" and upd: "run_state (updateMCIStatus c mci st1) ?s1 = (None, s')"
    using assms(2) op
    by (cases ex; cases e; simp add: handleMCIUpdate_def handleMCICreate_def lb_defs run_api lb_entry_def)+
  from assms(1) upd show ?thesis
  proof (cases rule: updateMCIStatus_stored)
    case (same st)
    then show ?thesis using op e by simp
  next
    case (stored st l m)
    then show ?thesis using op e by blast
  qed
qed

text \<open>
  A provider that returns no status and no error makes the ingress controller panic, after the
  load balancer was created.
\<close>

lemma mci_nil_status_panics:
  assumes "EnsureBalancer (mciLoadBalancer c) mci (env s) = ((None, None), w)"
  shows "run_state (handleMCICreate c mci) s =
    (Some Panic, s\<lparr>env := w, calls := calls s @ [LBEnsured (MCIObj mci) None]\<rparr>)"
  using assms by (simp add: handleMCICreate_def updateMCIStatus_def lb_defs run_api)

text \<open>
  C38: a write of the clusters to block that conflicts is lost without an error when the read that
  follows it fails: the second attempt finds its own unsaved clusters in the object it holds,
  takes them for stored and returns nil.
\<close>

theorem mci_block_update_lost:
  assumes "mciBlockRetry c = retry_upto (Suc n)"
    and "cList (clusters (mciClient c)) all_objects (env s) = (Inr cs, w1)"
    and "blocked = blocked_clusters c mci cs" and "blocked \<noteq> TrafficBlockClusters (mciStatus mci)"
    and "cStatusUpdate (mcis (mciClient c)) (with_blocked blocked mci) w1 =
      ((Some Conflict, with_blocked blocked mci), w2)"
    and "cGet (mcis (mciClient c)) (key_of mci) w2 = (Inl err, w3)"
  shows "run_state (updateMCITrafficBlockClusters c mci) s = ((None, with_blocked blocked mci),
    s\<lparr>env := w3, calls := calls s @ [Listed ClusterKind all_objects None,
      Wrote StatusVerb (MCIObj (with_blocked blocked mci)) (Some Conflict),
      Got MCIKind (key_of mci) (Inl err)]\<rparr>)"
proof -
  let ?b = "with_blocked blocked mci"
  let ?fn = "block_attempt c (key_of mci) blocked"
  let ?s1 = "s\<lparr>env := w1, calls := calls s @ [Listed ClusterKind all_objects None]\<rparr>"
  let ?s3 = "s\<lparr>env := w3, calls := calls s @ [Listed ClusterKind all_objects None,
    Wrote StatusVerb (MCIObj ?b) (Some Conflict), Got MCIKind (key_of mci) (Inl err)]\<rparr>"
  have first: "run_state (?fn (mci, mci, True)) ?s1 = ((Some Conflict, ?b, ?b, True), ?s3)"
    using assms(4-6) by (simp add: block_attempt_def run_api Let_def)
  have second: "run_state (?fn (?b, ?b, True)) ?s3 = ((None, ?b, ?b, True), ?s3)"
    by (simp add: block_attempt_def with_blocked_def)
  have "run_state (retry_upto (Suc n) ?fn (mci, mci, True)) ?s1 = ((None, ?b, ?b, True), ?s3)"
    using retry_once [where fn = ?fn, OF retry_upto_ok second] by (simp add: first)
  then show ?thesis using assms(1,2) unfolding assms(3)
    by (simp add: updateMCITrafficBlockClusters_def run_api Let_def blocked_clusters_def [symmetric]
        del: retry_upto.simps)
qed

text \<open>A server whose reads of ingresses time out, and that holds a newer version.\<close>

definition flaky_controller :: "Testbed MCIController" where
  "flaky_controller = test_mci_controller\<lparr>mciClient := (mem_server std_deps)\<lparr>mcis :=
     (mcis (mem_server std_deps))\<lparr>cGet := \<lambda>k w. (Inl (APIError ''timeout''), w)\<rparr>\<rparr>\<rparr>"

lemma flaky_controller_simps [simp]:
  "mciDeps flaky_controller = std_deps" "mciBlockRetry flaky_controller = retry_upto (Suc 3)"
  "clusters (mciClient flaky_controller) = clusters (mem_server std_deps)"
  "cGet (mcis (mciClient flaky_controller)) k w = (Inl (APIError ''timeout''), w)"
  "cStatusUpdate (mcis (mciClient flaky_controller)) = cStatusUpdate (mcis (mem_server std_deps))"
  by (simp_all add: flaky_controller_def test_mci_controller_def)

lemma sample_blocked: "blocked_clusters flaky_controller sample_mci [sample_cluster] = Some [''m1'']"
  by (simp add: blocked_clusters_def sample_mci_def
      with_lb_status_def sample_cluster_def meta_literal_def ObjectMeta.defs)

lemma mci_block_update_lost_witness:
  "fst (fst (run_state (updateMCITrafficBlockClusters flaky_controller sample_mci)
     (mci_world [sample_mci\<lparr>ResourceVersion := ''i''\<rparr>] [sample_cluster]))) = None"
proof -
  let ?s = "mci_world [sample_mci\<lparr>ResourceVersion := ''i''\<rparr>] [sample_cluster]"
  have "run_state (updateMCITrafficBlockClusters flaky_controller sample_mci) ?s =
    ((None, with_blocked (Some [''m1'']) sample_mci), ?s\<lparr>env := env ?s, calls := calls ?s @
      [Listed ClusterKind all_objects None,
       Wrote StatusVerb (MCIObj (with_blocked (Some [''m1'']) sample_mci)) (Some Conflict),
       Got MCIKind (key_of sample_mci) (Inl (APIError ''timeout''))]\<rparr>)"
    by (rule mci_block_update_lost [where n = 3 and cs = "[sample_cluster]" and ?w1.0 = "env ?s" and ?w2.0 = "env ?s"])
      (simp_all add: sample_blocked, simp_all add: run_test with_blocked_def)
  then show ?thesis by simp
qed

text \<open>
  A reconcile of an ingress that is up to date changes nothing but the load balancer's
  configuration: with the finalizer in place, the clusters to block unchanged and the provider
  returning the status the ingress has, it makes exactly these five calls and returns nil.
\<close>

lemma mci_steady_state:
  assumes "mci_contract c"
    and "cGet (mcis (mciClient c)) req (env s) = (Inr mci, w1)"
    and "DeletionTimestamp mci = None" and "MCIControllerFinalizer \<in> set (Finalizers mci)"
    and "cList (clusters (mciClient c)) all_objects w1 = (Inr cs, w2)"
    and "TrafficBlockClusters (mciStatus mci) = blocked_clusters c mci cs"
    and "GetBalancer (mciLoadBalancer c) mci w2 = ((st0, True, None), w3)"
    and "UpdateBalancer (mciLoadBalancer c) mci w3 =
      ((Some (statusLoadBalancer (mciStatus mci)), None), w4)"
  shows "run_state (ReconcileMCI c req) s = (None, s\<lparr>env := w4, calls := calls s @
    [Reconciling MCIKind req, Got MCIKind req (Inr (MCIObj mci)), Listed ClusterKind all_objects None,
     LBGot (MCIObj mci) True None, LBUpdated (MCIObj mci) None]\<rparr>)"
proof -
  let ?attempt = "block_attempt c (key_of mci) (blocked_clusters c mci cs)"
  have "run_state (?attempt (mci, mci, True)) t = ((None, mci, mci, True), t)" for t
    using assms(6) by (simp add: block_attempt_def)
  from retry_once [where fn = ?attempt, OF mci_contractD(3) [OF assms(1)] this]
  have "run_state (mciBlockRetry c ?attempt (mci, mci, True)) t = ((None, mci, mci, True), t)" for t
    by simp
  then have "run_state (updateMCITrafficBlockClusters c mci) (s\<lparr>env := w1, calls := l\<rparr>) =
      ((None, mci), s\<lparr>env := w2, calls := l @ [Listed ClusterKind all_objects None]\<rparr>)" for l
    using assms(5) by (simp add: updateMCITrafficBlockClusters_def run_api Let_def
        blocked_clusters_def [symmetric])
  then show ?thesis using assms(2-4,7,8) mci_contractD(1) [OF assms(1)]
    by (simp add: ReconcileMCI_def run_api IsZero_def handleMCICreateOrUpdate_def finalizers_okD
        sync_balancer_def lb_defs handleMCIUpdate_def updateMCIStatus_def)
qed

end
