(* ===== verification/McsCloud.thy ===== *)
theory McsCloud
  imports McsController Testbed
begin

text \<open>
  What a reconcile of a MultiClusterService does to the cloud (the locale \<open>mcs_cloud\<close>,
  interpreted on the fake provider), and the properties of mcs_controller.go with runs that
  witness them.
\<close>

section \<open>The cloud after a reconcile\<close>

locale mcs_cloud = keyed_balancer "mcsBalancer c" has name
  for c :: "'w MCSController" and has :: "'w \<Rightarrow> 'k \<Rightarrow> bool" and name +
  assumes contract: "mcs_contract c"
    and mcss_leave: "client_leaves has (mcss (mcsClient c))"
begin

lemmas mcs_view = api_view [OF mcss_leave]

lemma mcs_status_attempt_view:
  assumes "run_state (mcs_status_attempt c st mcs) s = (r, s')"
  shows "has (env s') = has (env s)"
proof -
  obtain e m s1 where u: "run_state (api_status_update MCSObj (mcss (mcsClient c)) (with_mcs_status st mcs)) s = ((e, m), s1)"
    by (rule out2)
  obtain r2 s2 where g: "run_state (api_get MCSKind MCSObj (mcss (mcsClient c)) (key_of m)) s1 = (r2, s2)"
    by (metis surj_pair)
  have "s' = s1 \<or> s' = s2"
    using assms u g by (auto simp: mcs_status_attempt_def split: if_splits sum.splits)
  then show ?thesis using mcs_view(6) [OF u] mcs_view(1) [OF g] by auto
qed

lemma updateMCSStatus_view:
  assumes "run_state (updateMCSStatus c mcs st) s = (e, s')"
  shows "has (env s') = has (env s)"
  using contract assms
proof (cases rule: updateMCSStatus_run)
  case (tried x v)
  show ?thesis
    by (rule retry_view [where view = has, OF mcs_contractD(2) [OF contract] tried(2) mcs_status_attempt_view])
qed simp

lemma sync_mcs_balancer_has:
  assumes run: "run_state (sync_mcs_balancer c mcs) s = (e, s')"
  shows "e = None \<Longrightarrow> has (env s') (name mcs)"
    and "k \<noteq> name mcs \<Longrightarrow> has (env s') k \<longleftrightarrow> has (env s) k"
proof -
  obtain st ex e2 s2 where r2: "run_state (lb_get MCSObj (mcsBalancer c) mcs) s = ((st, ex, e2), s2)"
    by (metis surj_pair)
  obtain st3 e3 s3 where r3:
    "run_state ((if ex then lb_update else lb_ensure) MCSObj (mcsBalancer c) mcs) s2 = ((st3, e3), s3)"
    by (rule out2)
  consider "e2 \<noteq> None" "e = e2" "s' = s2"
    | "e2 = None" "e3 \<noteq> None" "e = e3" "s' = s3"
    | "e2 = None" "e3 = None" "run_state (updateMCSStatus c mcs st3) s3 = (e, s')"
    using run r2 r3
    by (auto simp: sync_mcs_balancer_def handleMCSUpdate_def handleMCSCreate_def split: if_splits)
  then have "(e = None \<longrightarrow> has (env s') (name mcs)) \<and> (k \<noteq> name mcs \<longrightarrow> has (env s') k = has (env s) k)" for k
  proof cases
    case 1
    then show ?thesis using run_lb_get(1) [OF r2] by auto
  next
    case 2
    then show ?thesis using run_get_then_write(2) [OF r2 [unfolded 2(1)] r3] by auto
  next
    case 3
    note w = run_get_then_write [OF r2 [unfolded 3(1)] r3]
    show ?thesis using w updateMCSStatus_view [OF 3(3)] 3(2) by simp
  qed
  then show "e = None \<Longrightarrow> has (env s') (name mcs)"
    and "k \<noteq> name mcs \<Longrightarrow> has (env s') k \<longleftrightarrow> has (env s) k" by blast+
qed

lemma mcss_update_view: "has (snd (cUpdate (mcss (mcsClient c)) x w)) = has w"
  using mcss_leave by (simp add: client_leaves_def leaves_def)

lemma handleMCSCreateOrUpdate_has:
  assumes run: "run_state (handleMCSCreateOrUpdate c mcs) s = (e, s')"
  shows "e = None \<Longrightarrow> has (env s') (name mcs)"
    and "k \<noteq> name mcs \<Longrightarrow> has (env s') k \<longleftrightarrow> has (env s) k"
proof -
  from contract run
  have "(e = None \<longrightarrow> has (env s') (name mcs)) \<and> (k \<noteq> name mcs \<longrightarrow> has (env s') k = has (env s) k)" for k
  proof (cases rule: handleMCSCreateOrUpdate_run)
    case (found fs)
    have "name (mcs\<lparr>Finalizers := fs\<rparr>) = name mcs" by (rule name_key) simp
    then show ?thesis using sync_mcs_balancer_has [OF found(2)] by simp
  next
    case (refused x)
    then show ?thesis by (auto simp: mcss_update_view)
  next
    case (stored x y s1)
    have "name y = name mcs" using stored(4) by (rule name_key)
    then show ?thesis using sync_mcs_balancer_has [OF stored(6)] stored(5) by (simp add: mcss_update_view)
  qed
  then show "e = None \<Longrightarrow> has (env s') (name mcs)"
    and "k \<noteq> name mcs \<Longrightarrow> has (env s') k \<longleftrightarrow> has (env s) k" by blast+
qed

lemma release_mcs_view:
  assumes "run_state (release_mcs c mcs) s = (e, s')"
  shows "has (env s') = has (env s)"
proof -
  let ?x = "mcs\<lparr>Finalizers := snd (RemoveFinalizer (mcsDeps c) (Finalizers mcs) MCSControllerFinalizer)\<rparr>"
  obtain e2 y s2 where u: "run_state (api_update MCSObj (mcss (mcsClient c)) ?x) s = ((e2, y), s2)"
    by (rule out2)
  have "s' = s \<or> s' = s2"
    using assms u by (auto simp: release_mcs_def split: if_splits prod.splits)
  then show ?thesis using mcs_view(4) [OF u] by auto
qed

lemma delete_mcs_balancer_has:
  assumes "run_state (delete_mcs_balancer c mcs) s = (e, s')"
  shows "e = None \<Longrightarrow> \<not> has (env s') (name mcs)"
    and "k \<noteq> name mcs \<Longrightarrow> has (env s') k \<longleftrightarrow> has (env s) k"
proof -
  obtain e1 s1 where d: "run_state (lb_delete MCSObj (mcsBalancer c) mcs) s = (e1, s1)"
    by (metis surj_pair)
  have "e = e1" and "env s' = env s1"
    using assms d by (auto simp: delete_mcs_balancer_def run_note_call split: if_splits)
  then show "e = None \<Longrightarrow> \<not> has (env s') (name mcs)"
    and "k \<noteq> name mcs \<Longrightarrow> has (env s') k \<longleftrightarrow> has (env s) k"
    using run_lb_delete [OF d] by simp_all
qed

lemma delete_and_release_has:
  assumes "run_state (do {
       err \<leftarrow> delete_mcs_balancer c mcs;
       if err \<noteq> None then ret err else release_mcs c mcs
     }) s = (e, s')"
  shows "e = None \<Longrightarrow> \<not> has (env s') (name mcs)"
    and "k \<noteq> name mcs \<Longrightarrow> has (env s') k \<longleftrightarrow> has (env s) k"
proof -
  obtain e1 s1 where d: "run_state (delete_mcs_balancer c mcs) s = (e1, s1)"
    by (metis surj_pair)
  consider "e1 \<noteq> None" "e = e1" "s' = s1" | "e1 = None" "run_state (release_mcs c mcs) s1 = (e, s')"
    using assms d by (auto split: if_splits)
  then have "(e = None \<longrightarrow> \<not> has (env s') (name mcs)) \<and> (k \<noteq> name mcs \<longrightarrow> has (env s') k = has (env s) k)" for k
  proof cases
    case 2
    then show ?thesis using delete_mcs_balancer_has [OF d] release_mcs_view [OF 2(2)] by simp
  qed (use delete_mcs_balancer_has [OF d] in auto)
  then show "e = None \<Longrightarrow> \<not> has (env s') (name mcs)"
    and "k \<noteq> name mcs \<Longrightarrow> has (env s') k \<longleftrightarrow> has (env s) k" by blast+
qed

lemma handleMCSDelete_has:
  assumes run: "run_state (handleMCSDelete c mcs) s = (e, s')"
  shows "e = None \<Longrightarrow> \<not> has (env s') (name mcs)"
    and "k \<noteq> name mcs \<Longrightarrow> has (env s') k \<longleftrightarrow> has (env s) k"
proof -
  obtain st ex e1 s1 where g: "run_state (lb_get MCSObj (mcsBalancer c) mcs) s = ((st, ex, e1), s1)"
    by (metis surj_pair)
  let ?rest = "do {
     err \<leftarrow> delete_mcs_balancer c mcs;
     if err \<noteq> None then ret err else release_mcs c mcs
   }"
  consider (typed) "run_state ?rest s = (e, s')" | (unknown) "e1 \<noteq> None" "e = e1" "env s' = env s1"
    | (found) "run_state ?rest s1 = (e, s')" | (none) "e1 = None" "\<not> ex" "s' = s1"
    using run g by (auto simp: handleMCSDelete_def run_note_call split: if_splits)
  then have "(e = None \<longrightarrow> \<not> has (env s') (name mcs)) \<and> (k \<noteq> name mcs \<longrightarrow> has (env s') k = has (env s) k)" for k
  proof cases
    case typed
    then show ?thesis using delete_and_release_has by blast
  next
    case unknown
    then show ?thesis using run_lb_get(1) [OF g] by auto
  next
    case found
    then show ?thesis using delete_and_release_has [OF found] run_lb_get(1) [OF g] by blast
  next
    case none
    then show ?thesis using run_lb_get [OF g] by auto
  qed
  then show "e = None \<Longrightarrow> \<not> has (env s') (name mcs)"
    and "k \<noteq> name mcs \<Longrightarrow> has (env s') k \<longleftrightarrow> has (env s) k" by blast+
qed

theorem ReconcileMCS_settles:
  assumes run: "run_state (ReconcileMCS c req) s = (e, s')"
    and read: "cGet (mcss (mcsClient c)) req (env s) = (Inr mcs, w)"
  shows "e = None \<Longrightarrow> has (env s') (name mcs) \<longleftrightarrow> wants_balancer (mcsDeps c) mcs"
    and "k \<noteq> name mcs \<Longrightarrow> has (env s') k \<longleftrightarrow> has (env s) k"
proof -
  have w: "has w = has (env s)"
    by (rule client_leavesD(1) [OF mcss_leave read])
  from run have "(e = None \<longrightarrow> (has (env s') (name mcs) \<longleftrightarrow> wants_balancer (mcsDeps c) mcs)) \<and>
      (k \<noteq> name mcs \<longrightarrow> has (env s') k = has (env s) k)" for k
  proof (cases rule: ReconcileMCS_run)
    case (unread e1)
    then show ?thesis using read by simp
  next
    case (unwanted x s1)
    then have "x = mcs" "env s1 = w" using read by auto
    then show ?thesis using handleMCSDelete_has [OF unwanted(4)] unwanted(2) w by simp
  next
    case (wanted x s1)
    then have "x = mcs" "env s1 = w" using read by auto
    then show ?thesis using handleMCSCreateOrUpdate_has [OF wanted(4)] wanted(2) w by simp
  qed
  then show "e = None \<Longrightarrow> has (env s') (name mcs) \<longleftrightarrow> wants_balancer (mcsDeps c) mcs"
    and "k \<noteq> name mcs \<Longrightarrow> has (env s') k \<longleftrightarrow> has (env s) k" by blast+
qed

end

section \<open>The controller on the fake provider\<close>

definition test_mcs_controller :: "Testbed MCSController" where
  "test_mcs_controller = \<lparr>mcsDeps = std_deps, mcsClient = mem_server std_deps,
     mcsBalancer = fst (MCSLoadBalancer std_deps), mcsRetry = retry_upto 4\<rparr>"

definition mcs_key :: "deps \<Rightarrow> MultiClusterService \<Rightarrow> string" where
  "mcs_key d mcs = NamespacedNameString d (key_of mcs)"

lemma test_mcs_controller_simps [simp]:
  "mcsDeps test_mcs_controller = std_deps"
  "mcsClient test_mcs_controller = mem_server std_deps"
  "mcsBalancer test_mcs_controller = fst (MCSLoadBalancer std_deps)"
  "mcsRetry test_mcs_controller = retry_upto 4"
  by (simp_all add: test_mcs_controller_def)

lemma test_mcs_contract: "mcs_contract test_mcs_controller"
  by (simp add: mcs_contract_def std_finalizers_ok retry_upto_ok)

lemma mcs_key_is: "mcs_key d = (\<lambda>mcs. NamespacedNameString d (key_of mcs))"
  by (simp add: mcs_key_def [abs_def])

interpretation test_mcs: mcs_cloud test_mcs_controller has_mcs_balancer "mcs_key std_deps"
proof -
  have "keyed_balancer (mcsBalancer test_mcs_controller) has_mcs_balancer (mcs_key std_deps)"
    unfolding test_mcs_controller_simps mcs_key_is by (rule fake_mcs_keyed.keyed_balancer_axioms)
  then show "mcs_cloud test_mcs_controller has_mcs_balancer (mcs_key std_deps)"
    unfolding mcs_cloud_def mcs_cloud_axioms_def test_mcs_controller_simps
    by (simp only: mem_server_leaves test_mcs_contract simp_thms)
qed

definition mcs_world :: "MultiClusterService list \<Rightarrow> (Testbed, call) world" where
  "mcs_world xs = \<lparr>env = empty_testbed\<lparr>apiMCSs := xs\<rparr>, calls = []\<rparr>"

lemmas run_mcs_test = mcs_world_def mem_write_def mem_list_def sample_mcs_def
  empty_testbed_def meta_literal_def ObjectMeta.defs run_api lb_defs mcs_balancer_defs key_of_def
  next_version_def mcs_key_def addCall_def status_with_def empty_status_def Let_def

lemmas mcs_defs = ReconcileMCS_def IsZero_def handleMCSCreateOrUpdate_def handleMCSDelete_def
  sync_mcs_balancer_def updateMCSStatus_def mcs_status_attempt_def handleMCSUpdate_def
  handleMCSCreate_def MCSControllerFinalizer_def with_mcs_status_def delete_mcs_balancer_def
  release_mcs_def MCSContainLoadBalanceType_def wants_balancer_def


definition deleting_mcs :: MultiClusterService where
  "deleting_mcs = sample_mcs\<lparr>Finalizers := [MCSControllerFinalizer], DeletionTimestamp := Some ''now''\<rparr>"

definition mcs_first_run :: "error option \<times> (Testbed, call) world" where
  "mcs_first_run = run_state (ReconcileMCS test_mcs_controller (''shop'', ''cart'')) (mcs_world [sample_mcs])"

definition mcs_delete_run :: "error option \<times> (Testbed, call) world" where
  "mcs_delete_run = run_state (ReconcileMCS test_mcs_controller (''shop'', ''cart'')) (mcs_world [deleting_mcs])"

lemma mcs_first_run_calls: "calls (snd mcs_first_run) =
  (let m = sample_mcs; f = m\<lparr>Finalizers := [MCSControllerFinalizer]\<rparr>;
       i = f\<lparr>ResourceVersion := ''i''\<rparr>; k = (''shop'', ''cart'') in
   [Reconciling MCSKind k, Got MCSKind k (Inr (MCSObj m)), Wrote UpdateVerb (MCSObj f) None,
    LBGot (MCSObj i) False None, LBEnsured (MCSObj i) None,
    Wrote StatusVerb (MCSObj (with_mcs_status (status_with ''1.2.3.4'') i)) None])"
  by (simp add: mcs_first_run_def run_mcs_test mcs_defs)

lemma mcs_delete_run_calls: "calls (snd mcs_delete_run) =
  [Reconciling MCSKind (''shop'', ''cart''), Got MCSKind (''shop'', ''cart'') (Inr (MCSObj deleting_mcs)),
   LBDeleted (MCSObj deleting_mcs) None,
   Wrote UpdateVerb (MCSObj (deleting_mcs\<lparr>Finalizers := []\<rparr>)) None]"
  by (simp add: mcs_delete_run_def deleting_mcs_def run_mcs_test mcs_defs)

lemma mcs_first_run_eq:
  "run_state (ReconcileMCS test_mcs_controller (''shop'', ''cart'')) (mcs_world [sample_mcs]) =
     (None, snd mcs_first_run)"
proof -
  have "fst mcs_first_run = None" by (simp add: mcs_first_run_def run_mcs_test mcs_defs)
  then show ?thesis by (simp add: mcs_first_run_def prod_eq_iff)
qed

lemma mcs_lives:
  "life (ReconcileMCS test_mcs_controller) (snd mcs_first_run)"
  "life (ReconcileMCS test_mcs_controller) (snd mcs_delete_run)"
  unfolding mcs_first_run_def mcs_delete_run_def mcs_world_def by (intro life.intros)+

section \<open>Properties\<close>

text \<open>
  C16: at any time of a controller's life, whatever the API server and the provider answer, a
  write of a MultiClusterService's metadata that leaves the controller's finalizer out comes
  only after the same reconcile had the provider delete its load balancer successfully, and
  asked for none since.
\<close>

theorem mcs_finalizer_released_last:
  assumes "mcs_contract c" and "life (ReconcileMCS c) s"
    and "calls s = p @ Wrote v (MCSObj x) e # q" and "v \<noteq> StatusVerb"
    and "MCSControllerFinalizer \<notin> set (Finalizers x)"
  shows "\<exists>p1 y p2. p = p1 @ LBDeleted (MCSObj y) None # p2 \<and> key_of y = key_of x \<and>
    (\<forall>c \<in> set p2. \<not> starts c \<and> \<not> makes_balancer MCSKind (key_of x) c)"
proof -
  have "allowed MCSKind MCSControllerFinalizer p (Wrote v (MCSObj x) e)"
    using mcs_log.life_safe [OF assms(2)] assms(1,3)
    by (simp add: finalizer_protocol_def everywhereD)
  then have "gone MCSKind (key_of x) p"
    using assms(4,5) by (simp add: allowed_def carries_def)
  then show ?thesis using goneD [of MCSKind "key_of x" p] unfolding is_obj_cases by blast
qed

lemma mcs_finalizer_released_last_witness:
  "\<exists>p1 y p2. take 3 (calls (snd mcs_delete_run)) = p1 @ LBDeleted (MCSObj y) None # p2 \<and>
     key_of y = key_of (deleting_mcs\<lparr>Finalizers := []\<rparr>)"
  using mcs_finalizer_released_last [OF test_mcs_contract mcs_lives(2), where v = UpdateVerb
      and e = None and q = "[]" and x = "deleting_mcs\<lparr>Finalizers := []\<rparr>"]
  by (simp add: mcs_delete_run_calls) blast

text \<open>
  C17: at any time of a controller's life, the provider is asked to create or update the load
  balancer of a MultiClusterService only after the same reconcile read or wrote the object with
  the controller's finalizer and has not written it without; and right before, the provider
  answered whether the load balancer exists: it is created only if not, updated only if so.
\<close>

theorem mcs_provider_after_finalizer:
  assumes "mcs_contract c" and "life (ReconcileMCS c) s"
    and "calls s = p @ lb_entry ex (MCSObj x) e # q"
  shows "(\<exists>p1 c1 p2. p = p1 @ c1 # p2 \<and> shows_finalizer MCSKind MCSControllerFinalizer (key_of x) c1 \<and>
      (\<forall>c \<in> set p2. \<not> starts c \<and> \<not> leaves_out MCSKind MCSControllerFinalizer (key_of x) c)) \<and>
    p \<noteq> [] \<and> last p = LBGot (MCSObj x) ex None"
proof -
  have ok: "allowed MCSKind MCSControllerFinalizer p (lb_entry ex (MCSObj x) e)"
    using mcs_log.life_safe [OF assms(2)] assms(1,3)
    by (simp add: finalizer_protocol_def everywhereD)
  then have "protected MCSKind MCSControllerFinalizer (key_of x) p"
    by (auto simp: allowed_def lb_entry_def split: if_splits)
  moreover have "p \<noteq> [] \<and> last p = LBGot (MCSObj x) ex None"
    using ok by (auto simp: allowed_def lb_entry_def split: if_splits)
  ultimately show ?thesis using protectedD by blast
qed

lemma mcs_provider_after_finalizer_witness:
  "last (take 4 (calls (snd mcs_first_run))) =
     LBGot (MCSObj (sample_mcs\<lparr>Finalizers := [MCSControllerFinalizer], ResourceVersion := ''i''\<rparr>)) False None"
  using mcs_provider_after_finalizer [OF test_mcs_contract mcs_lives(1), where e = None and
      p = "take 4 (calls (snd mcs_first_run))" and q = "drop 5 (calls (snd mcs_first_run))" and
      x = "sample_mcs\<lparr>Finalizers := [MCSControllerFinalizer], ResourceVersion := ''i''\<rparr>" and ex = False]
  by (simp add: mcs_first_run_calls lb_entry_def Let_def)

text \<open>
  C19: when a reconcile of an existing MultiClusterService returns nil, the provider holds a load
  balancer for it exactly if it is not being deleted and has the LoadBalancer type; and whatever
  it returns, the load balancers of all other objects are as before.
\<close>

theorem mcs_reconcile_settles_cloud:
  assumes "mcs_cloud c has name"
    and "run_state (ReconcileMCS c req) s = (e, s')"
    and "cGet (mcss (mcsClient c)) req (env s) = (Inr mcs, w)"
  shows "(e = None \<longrightarrow> (has (env s') (name mcs) \<longleftrightarrow> DeletionTimestamp mcs = None \<and>
      ExposureTypeLoadBalancer (mcsDeps c) \<in> set (elems (Types (mcsSpec mcs))))) \<and>
    (\<forall>k. k \<noteq> name mcs \<longrightarrow> (has (env s') k \<longleftrightarrow> has (env s) k))"
  using mcs_cloud.ReconcileMCS_settles [OF assms]
  by (auto simp: wants_balancer_def MCSContainLoadBalanceType_iff)

lemma mcs_reconcile_settles_cloud_witness:
  "has_mcs_balancer (env (snd mcs_first_run)) (mcs_key std_deps sample_mcs)"
proof -
  have "cGet (mcss (mcsClient test_mcs_controller)) (''shop'', ''cart'') (env (mcs_world [sample_mcs])) =
      (Inr sample_mcs, env (mcs_world [sample_mcs]))"
    by (simp add: run_mcs_test)
  from mcs_reconcile_settles_cloud [OF test_mcs.mcs_cloud_axioms mcs_first_run_eq this]
  show ?thesis by (simp add: sample_mcs_def meta_literal_def ObjectMeta.defs)
qed

text \<open>
  A reconcile that returns nil has not swallowed a failure: none of its writes of metadata
  and of its calls of the provider returned an error.
\<close>

lemma mcs_success_means_no_failure:
  assumes "mcs_contract c" and "run_state (ReconcileMCS c req) s = (None, s')"
  shows "\<not> failed (calls s')"
  using assms by (rule ReconcileMCS_failed)

text \<open>
  When creating or updating the load balancer succeeds, either there was nothing to store (the
  provider returned no status, or the one the object has) and nothing was written, or the last
  call stored the returned status in the object.
\<close>

lemma mcs_provider_status_stored:
  assumes "mcs_contract c"
    and "run_state ((if ex then handleMCSUpdate else handleMCSCreate) c mcs) s = (None, s')"
  shows "\<exists>st w. (if ex then UpdateBalancer else EnsureBalancer) (mcsBalancer c) mcs (env s) = ((st, None), w) \<and>
    ((st = None \<or> st = Some (mcsLoadBalancer mcs)) \<and> calls s' = calls s @ [lb_entry ex (MCSObj mcs) None] \<or>
     (\<exists>l m. calls s' = l @ [Wrote StatusVerb (MCSObj m) None] \<and> key_of m = key_of mcs \<and>
        st = Some (mcsLoadBalancer m)))"
proof -
  let ?op = "if ex then UpdateBalancer else EnsureBalancer"
  obtain st1 e w where op: "?op (mcsBalancer c) mcs (env s) = ((st1, e), w)" by (rule out2)
  let ?s1 = "s\<lparr>env := w, calls := calls s @ [lb_entry ex (MCSObj mcs) e]\<rparr>"
  have e: "e = None" and upd: "run_state (updateMCSStatus c mcs st1) ?s1 = (None, s')"
    using assms(2) op
    by (cases ex; cases e; simp add: handleMCSUpdate_def handleMCSCreate_def lb_defs run_api lb_entry_def)+
  from assms(1) upd show ?thesis
  proof (cases rule: updateMCSStatus_stored)
    case kept
    then show ?thesis using op e by auto
  next
    case (stored st l m)
    then show ?thesis using op e by blast
  qed
qed

text \<open>
  A MultiClusterService that lost the LoadBalancer type keeps the controller's finalizer once
  the provider reports no load balancer, also while it is being deleted: the reconcile reads the
  object, asks the provider, and returns nil without a write. (This is where the controller is
  left when the load balancer was deleted but the write that releases the object failed.)
\<close>

lemma mcs_finalizer_kept_without_balancer:
  assumes "cGet (mcss (mcsClient c)) req (env s) = (Inr mcs, w1)"
    and "ExposureTypeLoadBalancer (mcsDeps c) \<notin> set (elems (Types (mcsSpec mcs)))"
    and "GetBalancer (mcsBalancer c) mcs w1 = ((st, False, None), w2)"
  shows "run_state (ReconcileMCS c req) s = (None, s\<lparr>env := w2, calls := calls s @
    [Reconciling MCSKind req, Got MCSKind req (Inr (MCSObj mcs)), LBGot (MCSObj mcs) False None]\<rparr>)"
  using assms
  by (simp add: ReconcileMCS_def handleMCSDelete_def MCSContainLoadBalanceType_iff run_api lb_defs)

text \<open>The run that gets there: the second of two reconciles, the first of which failed to write.\<close>

definition untyped_mcs :: MultiClusterService where
  "untyped_mcs = deleting_mcs\<lparr>mcsSpec := (mcsSpec deleting_mcs)\<lparr>Types := None\<rparr>\<rparr>"

definition refusing_mcs_controller :: "Testbed MCSController" where
  "refusing_mcs_controller = test_mcs_controller\<lparr>mcsClient := (mem_server std_deps)\<lparr>mcss :=
     (mcss (mem_server std_deps))\<lparr>cUpdate := \<lambda>x w. ((Some (APIError ''timeout''), x), w)\<rparr>\<rparr>\<rparr>"

definition refused_run :: "error option \<times> (Testbed, call) world" where
  "refused_run = run_state (ReconcileMCS refusing_mcs_controller (''shop'', ''cart''))
     \<lparr>env = empty_testbed\<lparr>apiMCSs := [untyped_mcs], MCSBalancers := Some [''shop/cart'' \<mapsto>
        \<lparr>MCSBalancerName = ''cart'', MCSBalancerNamespace = ''shop'', MCS = sample_mcs,
         MCSEps = None, MCSExternalIP = None\<rparr>]\<rparr>, calls = []\<rparr>"

lemma refused_run_result:
  "fst refused_run = Some (APIError ''timeout'')"
  "apiMCSs (env (snd refused_run)) = [untyped_mcs]"
  "MCSBalancers (env (snd refused_run)) = Some (Map.empty)"
  by (simp_all add: refused_run_def refusing_mcs_controller_def test_mcs_controller_def
      untyped_mcs_def deleting_mcs_def run_mcs_test mcs_defs)

lemma mcs_finalizer_kept_without_balancer_witness:
  "fst (run_state (ReconcileMCS test_mcs_controller (''shop'', ''cart'')) (snd refused_run)) = None \<and>
   apiMCSs (env (snd (run_state (ReconcileMCS test_mcs_controller (''shop'', ''cart'')) (snd refused_run)))) = [untyped_mcs] \<and>
   Finalizers untyped_mcs = [MCSControllerFinalizer] \<and> DeletionTimestamp untyped_mcs = Some ''now''"
proof -
  let ?s = "snd refused_run"
  have "run_state (ReconcileMCS test_mcs_controller (''shop'', ''cart'')) ?s =
    (None, ?s\<lparr>env := addCall ''get'' (env ?s), calls := calls ?s @
      [Reconciling MCSKind (''shop'', ''cart''), Got MCSKind (''shop'', ''cart'') (Inr (MCSObj untyped_mcs)),
       LBGot (MCSObj untyped_mcs) False None]\<rparr>)"
    by (rule mcs_finalizer_kept_without_balancer [where ?w1.0 = "env ?s" and st = None])
      (simp_all add: refused_run_result mcs_balancer_defs Let_def, simp_all add: untyped_mcs_def
        deleting_mcs_def sample_mcs_def meta_literal_def ObjectMeta.defs key_of_def)
  then show ?thesis
    by (simp add: refused_run_result addCall_def) (simp add: untyped_mcs_def deleting_mcs_def)
qed

end
