(* ===== verification/NoLeaks.thy ===== *)
theory NoLeaks
  imports Commons MciCloud McsCloud
begin

text \<open>
  The interpretations of the contracts of \<open>Commons\<close> on the two controllers of the shared cluster,
  and what follows for their lives: no load balancer is ever left without an object that makes a
  controller remove it.
\<close>

section \<open>The parts and the providers\<close>

interpretation ingress_part: shared_part commonIngresses "\<lambda>sh w. w\<lparr>commonIngresses := sh\<rparr>" mci_keep mci_status
  "\<lambda>m. DeletionTimestamp m = None" MCIControllerFinalizer
proof
  show "commonIngresses (act m w) = commonIngresses w \<or>
      (\<exists>mv. commonIngresses (act m w) = moved MCIControllerFinalizer mv (commonIngresses w))" for m w
    by (cases m) auto
qed (simp_all add: mci_keep_def mci_status_def key_of_def)

interpretation service_part: shared_part commonServices "\<lambda>sh w. w\<lparr>commonServices := sh\<rparr>" mcs_keep mcs_status
  "mcs_wanted std_deps" MCSControllerFinalizer
proof
  show "commonServices (act m w) = commonServices w \<or>
      (\<exists>mv. commonServices (act m w) = moved MCSControllerFinalizer mv (commonServices w))" for m w
    by (cases m) auto
qed (simp_all add: mcs_keep_def mcs_status_def key_of_def)

lemma act_keeps_provider [simp]:
  "Balancers (act m w) = Balancers w" "MCSBalancers (act m w) = MCSBalancers w"
  by (cases m; simp)+

interpretation mci_among: balancer_among_others "fst (LoadBalancer std_deps)" has_balancer
  "\<lambda>mci. NamespacedNameString std_deps (key_of mci)"
  by unfold_locales
    (auto simp: has_balancer_def fun_eq_iff mci_balancer_defs Let_def split: if_splits)

interpretation mcs_among: balancer_among_others "fst (MCSLoadBalancer std_deps)" has_mcs_balancer
  "\<lambda>mcs. NamespacedNameString std_deps (key_of mcs)"
  by unfold_locales
    (auto simp: has_mcs_balancer_def fun_eq_iff mcs_balancer_defs Let_def split: if_splits)

section \<open>The controllers\<close>

lemma shared_mci_controller_simps [simp]:
  "mciDeps shared_mci_controller = std_deps" "mciClient shared_mci_controller = shared_server"
  "mciLoadBalancer shared_mci_controller = shared_provider (fst (LoadBalancer std_deps))"
  "mciRetry shared_mci_controller = retry_upto 4" "mciBlockRetry shared_mci_controller = retry_upto 4"
  by (simp_all add: shared_mci_controller_def)

lemma shared_mcs_controller_simps [simp]:
  "mcsDeps shared_mcs_controller = std_deps" "mcsClient shared_mcs_controller = shared_server"
  "mcsBalancer shared_mcs_controller = shared_provider (fst (MCSLoadBalancer std_deps))"
  "mcsRetry shared_mcs_controller = retry_upto 4"
  by (simp_all add: shared_mcs_controller_def)

lemma shared_server_simps [simp]:
  "mcis shared_server = shared_client commonIngresses (\<lambda>sh w. w\<lparr>commonIngresses := sh\<rparr>) mci_keep mci_status"
  "mcss shared_server = shared_client commonServices (\<lambda>sh w. w\<lparr>commonServices := sh\<rparr>) mcs_keep mcs_status"
  "clusters shared_server = shared_clusters"
  by (simp_all add: shared_server_def)

lemma provider_leaves_parts:
  "commonIngresses (snd (GetBalancer (fst (LoadBalancer d)) mci w)) = commonIngresses w"
  "commonIngresses (snd (EnsureBalancer (fst (LoadBalancer d)) mci w)) = commonIngresses w"
  "commonIngresses (snd (UpdateBalancer (fst (LoadBalancer d)) mci w)) = commonIngresses w"
  "commonIngresses (snd (DeleteBalancer (fst (LoadBalancer d)) mci w)) = commonIngresses w"
  "commonServices (snd (GetBalancer (fst (MCSLoadBalancer d)) mcs w)) = commonServices w"
  "commonServices (snd (EnsureBalancer (fst (MCSLoadBalancer d)) mcs w)) = commonServices w"
  "commonServices (snd (UpdateBalancer (fst (MCSLoadBalancer d)) mcs w)) = commonServices w"
  "commonServices (snd (DeleteBalancer (fst (MCSLoadBalancer d)) mcs w)) = commonServices w"
  by (simp_all add: mci_balancer_defs mcs_balancer_defs addCall_def Let_def split: option.splits)

lemma shared_clusters_leaves: "client_leaves has_balancer shared_clusters"
proof -
  have "leaves has_balancer (among_others (Inl timeout)
      (\<lambda>w. (Inr (mem_list (\<lambda>_ _. False) (commonClusters w) opts), w)))" for opts
    by (rule among_others_leaves) (simp_all add: leaves_def has_balancer_def fun_eq_iff)
  then have "leaves has_balancer (cList shared_clusters opts)" for opts
    by (simp add: shared_clusters_def)
  then show ?thesis unfolding client_leaves_def
    by (intro conjI allI)
      (simp_all add: shared_clusters_def leaves_def mem_write_view has_balancer_def fun_eq_iff)
qed

lemma mci_guarded: "guarded_balancers ingress_part.part_sound ingress_part.part_holds ingress_part.part_reached
  (\<lambda>m. DeletionTimestamp m = None) MCIControllerFinalizer (mcis shared_server)
  (shared_provider (fst (LoadBalancer std_deps))) has_balancer (NamespacedNameString std_deps)"
proof (intro guarded_balancers.intro guarded_balancers_axioms.intro)
  show "client_leaves has_balancer (mcis shared_server)"
    unfolding shared_server_simps
    by (rule ingress_part.shared_client_leaves) (simp_all add: has_balancer_def fun_eq_iff)
  show "steady ingress_part.part_sound ingress_part.part_holds ingress_part.part_reached
      (GetBalancer (shared_provider (fst (LoadBalancer std_deps))) x)"
    "steady ingress_part.part_sound ingress_part.part_holds ingress_part.part_reached
      (EnsureBalancer (shared_provider (fst (LoadBalancer std_deps))) x)"
    "steady ingress_part.part_sound ingress_part.part_holds ingress_part.part_reached
      (UpdateBalancer (shared_provider (fst (LoadBalancer std_deps))) x)"
    "steady ingress_part.part_sound ingress_part.part_holds ingress_part.part_reached
      (DeleteBalancer (shared_provider (fst (LoadBalancer std_deps))) x)" for x
    unfolding shared_provider_def balancer.select_convs
    by (intro ingress_part.calls_steady ingress_part.unchanged_steady provider_leaves_parts)+
qed (use ingress_part.shared_client_laws mci_among.shared_provider_keyed mci_among.shared_delete_only
    in \<open>auto simp only: shared_server_simps\<close>)

interpretation shared_mci: mci_sharing shared_mci_controller ingress_part.part_sound ingress_part.part_holds
  ingress_part.part_reached has_balancer "NamespacedNameString std_deps"
proof (intro mci_sharing.intro mci_sharing_axioms.intro)
  show "mci_contract shared_mci_controller"
    by (simp add: mci_contract_def std_finalizers_ok retry_upto_ok ingress_part.shared_client_keeps_key)
  show "steady ingress_part.part_sound ingress_part.part_holds ingress_part.part_reached
      (cList (clusters (mciClient shared_mci_controller)) opts)" for opts
    by (simp add: shared_clusters_def ingress_part.calls_steady ingress_part.unchanged_steady)
qed (use mci_guarded shared_clusters_leaves in \<open>simp_all only: shared_mci_controller_simps shared_server_simps\<close>)

lemma mcs_guarded: "guarded_balancers service_part.part_sound service_part.part_holds service_part.part_reached
  (mcs_wanted std_deps) MCSControllerFinalizer (mcss shared_server)
  (shared_provider (fst (MCSLoadBalancer std_deps))) has_mcs_balancer (NamespacedNameString std_deps)"
proof (intro guarded_balancers.intro guarded_balancers_axioms.intro)
  show "client_leaves has_mcs_balancer (mcss shared_server)"
    unfolding shared_server_simps
    by (rule service_part.shared_client_leaves) (simp_all add: has_mcs_balancer_def fun_eq_iff)
  show "steady service_part.part_sound service_part.part_holds service_part.part_reached
      (GetBalancer (shared_provider (fst (MCSLoadBalancer std_deps))) x)"
    "steady service_part.part_sound service_part.part_holds service_part.part_reached
      (EnsureBalancer (shared_provider (fst (MCSLoadBalancer std_deps))) x)"
    "steady service_part.part_sound service_part.part_holds service_part.part_reached
      (UpdateBalancer (shared_provider (fst (MCSLoadBalancer std_deps))) x)"
    "steady service_part.part_sound service_part.part_holds service_part.part_reached
      (DeleteBalancer (shared_provider (fst (MCSLoadBalancer std_deps))) x)" for x
    unfolding shared_provider_def balancer.select_convs
    by (intro service_part.calls_steady service_part.unchanged_steady provider_leaves_parts)+
qed (use service_part.shared_client_laws mcs_among.shared_provider_keyed mcs_among.shared_delete_only
    in \<open>auto simp only: shared_server_simps\<close>)

interpretation shared_mcs: mcs_sharing shared_mcs_controller service_part.part_sound service_part.part_holds
  service_part.part_reached has_mcs_balancer "NamespacedNameString std_deps"
proof (intro mcs_sharing.intro mcs_sharing_axioms.intro)
  show "mcs_contract shared_mcs_controller"
    by (simp add: mcs_contract_def std_finalizers_ok retry_upto_ok service_part.shared_client_keeps_key)
qed (use mcs_guarded in \<open>simp_all only: shared_mcs_controller_simps shared_server_simps\<close>)

section \<open>Lives in the shared cluster\<close>

text \<open>The start: the cache is up to date, an object has one version, and no balancer exists.\<close>

definition up_to_date :: "'o ObjectMeta_scheme shared \<Rightarrow> bool" where
  "up_to_date sh \<longleftrightarrow> sharedPast sh = [] \<and> distinct (map key_of (sharedObjects sh)) \<and>
     (\<forall>x \<in> set (sharedObjects sh). length (ResourceVersion x) \<le> sharedRevision sh)"

definition mci_start :: "Commons \<Rightarrow> bool" where
  "mci_start w \<longleftrightarrow> up_to_date (commonIngresses w) \<and> Balancers w = None"

definition mcs_start :: "Commons \<Rightarrow> bool" where
  "mcs_start w \<longleftrightarrow> up_to_date (commonServices w) \<and> MCSBalancers w = None"

text \<open>Between reconciles others act, and it is open what will happen around the coming calls.\<close>

fun meanwhile :: "actor_move list \<times> (actor_move list \<times> fate) list \<Rightarrow> Commons \<Rightarrow> Commons" where
  "meanwhile (ms, coming) w = (act_all ms w)\<lparr>commonSchedule := coming\<rparr>"

lemma up_to_date_sound:
  assumes "up_to_date sh"
  shows "sound wanted fin sh"
proof -
  have "key_of x = key_of y \<Longrightarrow> x = y" if "x \<in> set (sharedObjects sh)" "y \<in> set (sharedObjects sh)" for x y
    using assms that by (auto simp: up_to_date_def distinct_map dest: inj_onD)
  then show ?thesis using assms
    by (auto simp: up_to_date_def sound_def in_order_def versions_def not_newer_def holds_def)
qed

lemma guarded_frame:
  assumes "guarded ok held has own {} w" and "steady ok held got (\<lambda>w. ((), f w))" and "has (f w) = has w"
  shows "guarded ok held has own {} (f w)"
  by (rule guarded_step [OF assms(1,2) refl]) (simp add: assms(3))

lemma guarded_owner:
  assumes "guarded ok (\<lambda>w. holds fin (get w)) has own {} w" and "has w n"
  shows "\<exists>m \<in> set (sharedObjects (get w)). own (key_of m) = n \<and> fin \<in> set (Finalizers m)"
  using assms unfolding guarded_def holds_def by blast

lemma act_balancers [simp]:
  "has_balancer (act m w) = has_balancer w" "has_mcs_balancer (act m w) = has_mcs_balancer w"
  "has_balancer (w\<lparr>commonSchedule := l\<rparr>) = has_balancer w"
  "has_mcs_balancer (w\<lparr>commonSchedule := l\<rparr>) = has_mcs_balancer w"
  by (simp_all add: has_balancer_def has_mcs_balancer_def fun_eq_iff)

lemma mci_meanwhile: "shared_mci.safe {} w \<Longrightarrow> shared_mci.safe {} (meanwhile m w)"
proof (cases m)
  case (Pair ms coming)
  assume safe: "shared_mci.safe {} w"
  have "shared_mci.safe {} (act_all ms w)"
    by (rule act_all_induct, rule safe, erule guarded_frame, rule ingress_part.act_steady, simp)
  then show ?thesis unfolding Pair meanwhile.simps
    by (rule guarded_frame [OF _ ingress_part.unchanged_steady]) simp_all
qed

lemma mcs_meanwhile: "shared_mcs.safe {} w \<Longrightarrow> shared_mcs.safe {} (meanwhile m w)"
proof (cases m)
  case (Pair ms coming)
  assume safe: "shared_mcs.safe {} w"
  have "shared_mcs.safe {} (act_all ms w)"
    by (rule act_all_induct, rule safe, erule guarded_frame, rule service_part.act_steady, simp)
  then show ?thesis unfolding Pair meanwhile.simps
    by (rule guarded_frame [OF _ service_part.unchanged_steady]) simp_all
qed

interpretation mci_life: invariant_among mci_start meanwhile "ReconcileMCI shared_mci_controller" "shared_mci.safe {}"
proof
  show "shared_mci.safe {} w" if "mci_start w" for w
    using that up_to_date_sound by (auto simp: mci_start_def guarded_def has_balancer_def)
qed (rule mci_meanwhile shared_mci.ReconcileMCI_safe, assumption?)+

interpretation mcs_life: invariant_among mcs_start meanwhile "ReconcileMCS shared_mcs_controller" "shared_mcs.safe {}"
proof
  show "shared_mcs.safe {} w" if "mcs_start w" for w
    using that up_to_date_sound by (auto simp: mcs_start_def guarded_def has_mcs_balancer_def)
qed (rule mcs_meanwhile shared_mcs.ReconcileMCS_safe, assumption?)+

section \<open>Properties\<close>

text \<open>
  C1: no load balancer of an ingress is ever left behind. At any time of the controller's life in a
  cluster it shares with others (they create, change and delete ingresses between any two of its
  calls; any call may fail, with its effect or without; the controller may be killed at any call and
  started again; its cache may be any number of versions old), every load balancer the provider
  holds belongs to an ingress that is stored with the controller's finalizer, so that the
  ingress cannot go before the controller has removed the balancer.
\<close>

theorem mci_no_leaked_balancer:
  assumes "life_among mci_start meanwhile (ReconcileMCI shared_mci_controller) s"
    and "has_balancer (env s) n"
  shows "\<exists>m \<in> set (sharedObjects (commonIngresses (env s))).
    mci_key std_deps m = n \<and> MCIControllerFinalizer \<in> set (Finalizers m)"
  using guarded_owner [OF mci_life.life_inv [OF assms(1)] assms(2)] by (simp add: mci_key_def)

text \<open>
  C2: likewise no load balancer of a MultiClusterService is ever left behind, although this
  controller also lets go of live objects, when they stop asking for a load balancer.
\<close>

theorem mcs_no_leaked_balancer:
  assumes "life_among mcs_start meanwhile (ReconcileMCS shared_mcs_controller) s"
    and "has_mcs_balancer (env s) n"
  shows "\<exists>m \<in> set (sharedObjects (commonServices (env s))).
    mcs_key std_deps m = n \<and> MCSControllerFinalizer \<in> set (Finalizers m)"
  using guarded_owner [OF mcs_life.life_inv [OF assms(1)] assms(2)] by (simp add: mcs_key_def)

section \<open>Two lives\<close>

text \<open>
  A user deletes the ingress just before the controller creates its balancer; the provider creates
  it, but the answer is lost and the controller is killed.
\<close>

definition commons_of :: "MultiClusterIngress list \<Rightarrow> MultiClusterService list \<Rightarrow> (actor_move list \<times> fate) list \<Rightarrow> Commons" where
  "commons_of xs ys coming = \<lparr>ProviderNameField = '''', Balancers = None, MCSBalancers = None, Calls = None,
     commonIngresses = \<lparr>sharedObjects = xs, sharedPast = [], sharedRevision = 0\<rparr>,
     commonServices = \<lparr>sharedObjects = ys, sharedPast = [], sharedRevision = 0\<rparr>,
     commonClusters = [], commonSchedule = coming\<rparr>"

definition killed_run :: "error option \<times> (Commons, call) world" where
  "killed_run = run_state (ReconcileMCI shared_mci_controller (''shop'', ''web''))
     \<lparr>env = commons_of [sample_mci] [] [([], Granted), ([], Granted), ([], Granted),
        ([OnIngress (Deleted (''shop'', ''web''))], Granted), ([], Unanswered), ([], Refused)], calls = []\<rparr>"

definition killed_mcs_run :: "error option \<times> (Commons, call) world" where
  "killed_mcs_run = run_state (ReconcileMCS shared_mcs_controller (''shop'', ''cart''))
     \<lparr>env = commons_of [] [sample_mcs] [([], Granted), ([], Granted),
        ([OnService (Deleted (''shop'', ''cart''))], Granted), ([], Unanswered), ([], Refused)], calls = []\<rparr>"

lemmas run_shared = commons_of_def shared_client_def shared_provider_def shared_clusters_def no_objects_def
  among_others_def act_all_def on_part_def shown_def versions_def publish_def stamped_def without_def replaced_def
  accepted_def server_update_def server_patch_def server_delete_def forbidden_def timeout_def
  mci_keep_def mci_status_def mcs_keep_def mcs_status_def

lemma killed_run_result: "has_balancer (env (snd killed_run)) ''shop/web''"
  by (simp add: killed_run_def run_shared run_test mci_defs sort_Strings_def)

lemma killed_mcs_run_result: "has_mcs_balancer (env (snd killed_mcs_run)) ''shop/cart''"
  by (simp add: killed_mcs_run_def run_shared run_mcs_test mcs_defs)

lemma mci_no_leaked_balancer_witness:
  "\<exists>m \<in> set (sharedObjects (commonIngresses (env (snd killed_run)))).
    mci_key std_deps m = ''shop/web'' \<and> MCIControllerFinalizer \<in> set (Finalizers m)"
proof (rule mci_no_leaked_balancer)
  show "life_among mci_start meanwhile (ReconcileMCI shared_mci_controller) (snd killed_run)"
    unfolding killed_run_def
    by (intro life_among.intros)
      (simp add: mci_start_def up_to_date_def commons_of_def sample_mci_def meta_literal_def ObjectMeta.defs)
qed (rule killed_run_result)

lemma mcs_no_leaked_balancer_witness:
  "\<exists>m \<in> set (sharedObjects (commonServices (env (snd killed_mcs_run)))).
    mcs_key std_deps m = ''shop/cart'' \<and> MCSControllerFinalizer \<in> set (Finalizers m)"
proof (rule mcs_no_leaked_balancer)
  show "life_among mcs_start meanwhile (ReconcileMCS shared_mcs_controller) (snd killed_mcs_run)"
    unfolding killed_mcs_run_def
    by (intro life_among.intros)
      (simp add: mcs_start_def up_to_date_def commons_of_def sample_mcs_def meta_literal_def ObjectMeta.defs)
qed (rule killed_mcs_run_result)

end
