(* ===== verification/MciLifecycle.thy ===== *)
theory MciLifecycle
  imports MciCloud
begin

text \<open>
  The life of a MultiClusterIngress on an API server with optimistic locking, next to the fake
  provider: from any state of the two, one reconcile brings a live ingress to where it should be,
  although the controller goes on with the version from before its own patch and so meets
  conflicts, and one reconcile releases an ingress that is being deleted.
\<close>

section \<open>Versions of an ingress\<close>

text \<open>
  An object the controller holds is the stored one or, since every write gives a longer version,
  an older one with the same specification and status.
\<close>

definition known :: "MultiClusterIngress \<Rightarrow> MultiClusterIngress \<Rightarrow> bool" where
  "known v cur \<longleftrightarrow> key_of v = key_of cur \<and> mciSpec v = mciSpec cur \<and> mciStatus v = mciStatus cur \<and>
     DeletionTimestamp v = None \<and> DeletionTimestamp cur = None \<and>
     (v = cur \<or> length (ResourceVersion v) < length (ResourceVersion cur))"

text \<open>What a write of the status keeps.\<close>

definition evolves :: "MultiClusterIngress \<Rightarrow> MultiClusterIngress \<Rightarrow> bool" where
  "evolves x z \<longleftrightarrow> key_of z = key_of x \<and> mciSpec z = mciSpec x \<and> Finalizers z = Finalizers x \<and>
     DeletionTimestamp z = DeletionTimestamp x"

lemma mci_next_version [simp]:
  "mciSpec (next_version m) = mciSpec m" "mciStatus (next_version m) = mciStatus m"
  by (simp_all add: next_version_def)

lemma with_status_fields [simp]:
  "ResourceVersion (with_lb_status st m) = ResourceVersion m"
  "DeletionTimestamp (with_lb_status st m) = DeletionTimestamp m"
  "mciSpec (with_lb_status st m) = mciSpec m"
  "mciStatus (with_lb_status st m) = (mciStatus m)\<lparr>statusLoadBalancer := st\<rparr>"
  "ResourceVersion (with_blocked cs m) = ResourceVersion m"
  "DeletionTimestamp (with_blocked cs m) = DeletionTimestamp m"
  "mciSpec (with_blocked cs m) = mciSpec m"
  "mciStatus (with_blocked cs m) = (mciStatus m)\<lparr>TrafficBlockClusters := cs\<rparr>"
  by (simp_all add: with_lb_status_def with_blocked_def)

section \<open>What the provider was told\<close>

text \<open>
  The specification with which the provider last created or updated the balancer of an ingress, by
  the log; none if it has deleted it since.
\<close>

fun see_told :: "call \<Rightarrow> (key \<rightharpoonup> IngressSpec) \<Rightarrow> (key \<rightharpoonup> IngressSpec)" where
  "see_told (LBEnsured (MCIObj m) None) t = t(key_of m \<mapsto> mciSpec m)"
| "see_told (LBUpdated (MCIObj m) None) t = t(key_of m \<mapsto> mciSpec m)"
| "see_told (LBDeleted (MCIObj m) None) t = t(key_of m := None)"
| "see_told c t = t"

definition told :: "call list \<Rightarrow> key \<rightharpoonup> IngressSpec" where
  "told l = fold see_told l (\<lambda>_. None)"

lemma told_append [log_simps]: "told (l @ cs) = fold see_told cs (told l)"
  by (simp add: told_def)

lemma told_quiet: "quiet c \<Longrightarrow> see_told c t = t"
  by (cases c) auto

lemma told_quietly: "quietly l l' \<Longrightarrow> told l' = told l"
  by (rule quietly_induct [where P = "\<lambda>l'. told l' = told l"]) (simp_all add: told_append told_quiet)

section \<open>Status and clusters to block\<close>

lemma updateMCIStatus_completes:
  assumes cur: "find_key (key_of v) (apiMCIs (env s)) = Some cur" and known: "known v cur"
  shows "\<exists>z l. run_state (updateMCIStatus test_mci_controller v (Some st)) s =
      (None, s\<lparr>env := (env s)\<lparr>apiMCIs := put_key z (apiMCIs (env s))\<rparr>, calls := l\<rparr>) \<and>
    evolves cur z \<and> mciStatus z = (mciStatus cur)\<lparr>statusLoadBalancer := st\<rparr>"
proof -
  let ?attempt = "mci_status_attempt test_mci_controller st"
  let ?new = "\<lambda>x. next_version (with_lb_status st x)"
  let ?then_world = "\<lambda>z l. s\<lparr>env := (env s)\<lparr>apiMCIs := put_key z (apiMCIs (env s))\<rparr>, calls := l\<rparr>"
  have accepted: "run_state (?attempt cur) (s\<lparr>calls := l\<rparr>) = ((None, ?new cur),
      ?then_world (?new cur) (l @ [Wrote StatusVerb (MCIObj (with_lb_status st cur)) None]))" for l
    using cur known by (simp add: mci_status_attempt_def run_api known_def write_stored)
  consider (same) "statusLoadBalancer (mciStatus v) = st"
    | (stored) "statusLoadBalancer (mciStatus v) \<noteq> st" "v = cur"
    | (older) "statusLoadBalancer (mciStatus v) \<noteq> st" "length (ResourceVersion v) < length (ResourceVersion cur)"
    using known by (auto simp: known_def)
  then show ?thesis
  proof cases
    case same
    then have "run_state (updateMCIStatus test_mci_controller v (Some st)) s = (None, ?then_world cur (calls s))"
      using put_found [OF cur] by (simp add: updateMCIStatus_def)
    then show ?thesis using same known by (fastforce simp: evolves_def known_def)
  next
    case stored
    have "run_state (?attempt cur) s = ((None, ?new cur),
        ?then_world (?new cur) (calls s @ [Wrote StatusVerb (MCIObj (with_lb_status st cur)) None]))"
      using accepted [of "calls s"] by simp
    then have "\<exists>l. run_state (updateMCIStatus test_mci_controller v (Some st)) s = (None, ?then_world (?new cur) l)"
      using stored by (auto simp: updateMCIStatus_def)
    then show ?thesis by (fastforce simp: evolves_def)
  next
    case older
    have "\<exists>l. run_state (?attempt v) s = ((Some Conflict, cur), s\<lparr>calls := l\<rparr>)"
      using cur known older by (auto simp: mci_status_attempt_def run_api known_def write_older)
    then obtain l where "run_state (?attempt v) s = ((Some Conflict, cur), s\<lparr>calls := l\<rparr>)" by blast
    with accepted [of l]
    have "\<exists>l. run_state (updateMCIStatus test_mci_controller v (Some st)) s = (None, ?then_world (?new cur) l)"
      using older by (auto simp: updateMCIStatus_def)
    then show ?thesis by (fastforce simp: evolves_def)
  qed
qed

text \<open>The attempts to store the clusters to block go the same way.\<close>

lemma block_completes:
  assumes cur: "find_key (key_of v) (apiMCIs (env s)) = Some cur" and known: "known v cur"
  shows "\<exists>caller z l m same. run_state (retry_upto 4 (block_attempt test_mci_controller (key_of v) cs) (v, v, True)) s =
      ((None, m, caller, same), s\<lparr>env := (env s)\<lparr>apiMCIs := put_key z (apiMCIs (env s))\<rparr>, calls := l\<rparr>) \<and>
    evolves cur z \<and> mciStatus z = (mciStatus cur)\<lparr>TrafficBlockClusters := cs\<rparr> \<and> known caller z"
proof -
  let ?attempt = "block_attempt test_mci_controller (key_of v) cs"
  let ?new = "\<lambda>x. next_version (with_blocked cs x)"
  let ?then_world = "\<lambda>z l. s\<lparr>env := (env s)\<lparr>apiMCIs := put_key z (apiMCIs (env s))\<rparr>, calls := l\<rparr>"
  have accepted: "run_state (?attempt (cur, caller, same)) (s\<lparr>calls := l\<rparr>) =
      ((None, ?new cur, if same then ?new cur else caller, same),
       ?then_world (?new cur) (l @ [Wrote StatusVerb (MCIObj (with_blocked cs cur)) None]))"
    if "TrafficBlockClusters (mciStatus cur) \<noteq> cs" for caller same l
    using cur known that by (auto simp: block_attempt_def run_api known_def write_stored Let_def)
  have new: "evolves cur (?new cur)" "mciStatus (?new cur) = (mciStatus cur)\<lparr>TrafficBlockClusters := cs\<rparr>"
      "known (?new cur) (?new cur)" "known (with_blocked cs v) (?new cur)"
    using known by (auto simp: evolves_def known_def)
  consider (same) "TrafficBlockClusters (mciStatus v) = cs"
    | (stored) "TrafficBlockClusters (mciStatus cur) \<noteq> cs" "v = cur"
    | (older) "TrafficBlockClusters (mciStatus cur) \<noteq> cs" "length (ResourceVersion v) < length (ResourceVersion cur)"
    using known by (auto simp: known_def)
  then show ?thesis
  proof cases
    case same
    then have "run_state (retry_upto 4 ?attempt (v, v, True)) s = ((None, v, v, True), ?then_world cur (calls s))"
      using put_found [OF cur] by (simp add: block_attempt_def)
    moreover have "mciStatus cur = (mciStatus cur)\<lparr>TrafficBlockClusters := cs\<rparr>" and "evolves cur cur"
      using same known by (auto simp: evolves_def known_def)
    ultimately show ?thesis using known by blast
  next
    case stored
    then have "run_state (retry_upto 4 ?attempt (v, v, True)) s = ((None, ?new cur, ?new cur, True),
        ?then_world (?new cur) (calls s @ [Wrote StatusVerb (MCIObj (with_blocked cs cur)) None]))"
      using accepted [of cur True "calls s"] by simp
    then show ?thesis using new by blast
  next
    case older
    have "\<exists>l. run_state (?attempt (v, v, True)) s = ((Some Conflict, cur, with_blocked cs v, False), s\<lparr>calls := l\<rparr>)"
      using cur known older by (auto simp: block_attempt_def run_api known_def write_older Let_def)
    then obtain l where "run_state (?attempt (v, v, True)) s = ((Some Conflict, cur, with_blocked cs v, False), s\<lparr>calls := l\<rparr>)"
      by blast
    with accepted [OF older(1), of "with_blocked cs v" False l]
    have "\<exists>l. run_state (retry_upto 4 ?attempt (v, v, True)) s = ((None, ?new cur, with_blocked cs v, False), ?then_world (?new cur) l)"
      by auto
    then show ?thesis using new by blast
  qed
qed

lemma updateMCITrafficBlockClusters_completes:
  assumes "find_key (key_of v) (apiMCIs (env s)) = Some cur" and "known v cur"
  shows "\<exists>caller z l. run_state (updateMCITrafficBlockClusters test_mci_controller v) s =
      ((None, caller), s\<lparr>env := (env s)\<lparr>apiMCIs := put_key z (apiMCIs (env s))\<rparr>, calls := l\<rparr>) \<and>
    evolves cur z \<and> known caller z \<and>
    mciStatus z = (mciStatus cur)\<lparr>TrafficBlockClusters := blocked_clusters test_mci_controller v (apiClusters (env s))\<rparr>"
proof -
  let ?cs = "blocked_clusters test_mci_controller v (apiClusters (env s))"
  let ?s = "s\<lparr>calls := calls s @ [Listed ClusterKind all_objects None]\<rparr>"
  obtain caller z l m same where
    out: "run_state (retry_upto 4 (block_attempt test_mci_controller (key_of v) ?cs) (v, v, True)) ?s =
      ((None, m, caller, same), ?s\<lparr>env := (env s)\<lparr>apiMCIs := put_key z (apiMCIs (env s))\<rparr>, calls := l\<rparr>)"
    and z: "evolves cur z" "mciStatus z = (mciStatus cur)\<lparr>TrafficBlockClusters := ?cs\<rparr>" "known caller z"
    using block_completes [where s = ?s and cs = ?cs, of v] assms by auto
  have all: "mem_list has_field xs all_objects = xs" for has_field and xs :: "Cluster list"
    by (simp add: mem_list_def all_objects_def)
  have "run_state (updateMCITrafficBlockClusters test_mci_controller v) s =
      ((None, caller), s\<lparr>env := (env s)\<lparr>apiMCIs := put_key z (apiMCIs (env s))\<rparr>, calls := l\<rparr>)"
    using out by (simp del: retry_upto_numeral
        add: updateMCITrafficBlockClusters_def run_api Let_def blocked_clusters_def all)
  then show ?thesis using z by blast
qed

section \<open>The whole reconcile\<close>

text \<open>The provider's answers, as the controller asks for them: they leave the store alone.\<close>

lemma fake_get_then_write:
  assumes "only_services v"
  shows "\<exists>s'. run_state (do {
      (_, exist, err) \<leftarrow> lb_get MCIObj (fst (LoadBalancer std_deps)) v;
      if err \<noteq> None then ret err
      else if exist then handleMCIUpdate test_mci_controller v
      else handleMCICreate test_mci_controller v }) s =
    run_state (updateMCIStatus test_mci_controller v
      (Some (answered_status (has_balancer (env s) (mci_key std_deps v))))) s' \<and>
    apiMCIs (env s') = apiMCIs (env s) \<and> told (calls s') = (told (calls s))(key_of v \<mapsto> mciSpec v)"
proof -
  obtain refs where "BuildServiceRefIndexes std_deps v = Some refs"
    using assms BuildServiceRefIndexes_None [of std_deps v] by auto
  then show ?thesis
    by (auto simp: lb_defs run_lift_call mci_balancer_defs mci_key_def handleMCIUpdate_def handleMCICreate_def
        answered_status_def Let_def told_append split: option.splits)
qed

lemma sync_balancer_completes:
  assumes cur: "find_key (key_of v) (apiMCIs (env s)) = Some cur" and known: "known v cur" and "only_services v"
  shows "\<exists>s' z. run_state (sync_balancer test_mci_controller v) s = (None, s') \<and>
    apiMCIs (env s') = put_key z (apiMCIs (env s)) \<and> evolves cur z \<and>
    mciStatus z = (mciStatus cur)
      \<lparr>TrafficBlockClusters := blocked_clusters test_mci_controller v (apiClusters (env s)),
       statusLoadBalancer := answered_status (has_balancer (env s) (mci_key std_deps v))\<rparr> \<and>
    told (calls s') = (told (calls s))(key_of v \<mapsto> mciSpec v)"
proof -
  let ?cs = "blocked_clusters test_mci_controller v (apiClusters (env s))"
  obtain caller y l where
    block: "run_state (updateMCITrafficBlockClusters test_mci_controller v) s =
      ((None, caller), s\<lparr>env := (env s)\<lparr>apiMCIs := put_key y (apiMCIs (env s))\<rparr>, calls := l\<rparr>)"
    and y: "evolves cur y" "known caller y" "mciStatus y = (mciStatus cur)\<lparr>TrafficBlockClusters := ?cs\<rparr>"
    using updateMCITrafficBlockClusters_completes [OF cur known] by blast
  let ?s1 = "s\<lparr>env := (env s)\<lparr>apiMCIs := put_key y (apiMCIs (env s))\<rparr>, calls := l\<rparr>"
  have keys: "key_of caller = key_of y" "key_of y = key_of cur" "key_of v = key_of cur"
    and spec: "mciSpec caller = mciSpec v"
    using y known by (auto simp: known_def evolves_def)
  then have "only_services caller" using assms(3) by (simp add: only_services_def has_backend_def)
  then obtain s2 where
    wrote: "run_state (sync_balancer test_mci_controller v) s = run_state (updateMCIStatus test_mci_controller caller
      (Some (answered_status (has_balancer (env ?s1) (mci_key std_deps caller))))) s2"
    and s2: "apiMCIs (env s2) = apiMCIs (env ?s1)"
    and t2: "told (calls s2) = (told (calls ?s1))(key_of caller \<mapsto> mciSpec caller)"
    using fake_get_then_write [of caller ?s1] by (auto simp: sync_balancer_def block split: prod.splits)
  obtain le where "quietly (calls s @ [Listed ClusterKind all_objects le]) (calls ?s1)"
    using updateMCITrafficBlockClusters_quiet [OF test_mci_contract block] by blast
  then have t1: "told (calls ?s1) = told (calls s)"
    using told_quietly by (simp add: told_append)
  let ?st = "answered_status (has_balancer (env ?s1) (mci_key std_deps caller))"
  have stored: "find_key (key_of caller) (apiMCIs (env s2)) = Some y"
    using find_put [of y "apiMCIs (env s)"] cur keys s2 by simp
  from updateMCIStatus_completes [OF this y(2), of ?st] obtain z l2 where
    "run_state (updateMCIStatus test_mci_controller caller (Some ?st)) s2 =
      (None, s2\<lparr>env := (env s2)\<lparr>apiMCIs := put_key z (apiMCIs (env s2))\<rparr>, calls := l2\<rparr>)"
    "evolves y z" "mciStatus z = (mciStatus y)\<lparr>statusLoadBalancer := ?st\<rparr>"
    by blast
  moreover from this(1) have t3: "told l2 = told (calls s2)"
    using told_quietly [OF updateMCIStatus_quiet [OF test_mci_contract]] by fastforce
  ultimately have z: "evolves y z" "mciStatus z = (mciStatus y)\<lparr>statusLoadBalancer := ?st\<rparr>"
    and status: "run_state (updateMCIStatus test_mci_controller caller (Some ?st)) s2 =
      (None, s2\<lparr>env := (env s2)\<lparr>apiMCIs := put_key z (apiMCIs (env s2))\<rparr>, calls := l2\<rparr>)" by simp_all
  from wrote status have run: "run_state (sync_balancer test_mci_controller v) s =
      (None, s2\<lparr>env := (env s2)\<lparr>apiMCIs := put_key z (apiMCIs (env s2))\<rparr>, calls := l2\<rparr>)" by simp
  have put: "put_key z (apiMCIs (env s2)) = put_key z (apiMCIs (env s))"
    using put_put [of z y] z(1) s2 by (simp add: evolves_def)
  have "?st = answered_status (has_balancer (env s) (mci_key std_deps v))"
    using keys by (simp add: has_balancer_def mci_key_def)
  then have "mciStatus z = (mciStatus cur)\<lparr>TrafficBlockClusters := ?cs,
      statusLoadBalancer := answered_status (has_balancer (env s) (mci_key std_deps v))\<rparr>"
    using y(3) z(2) by simp
  moreover have "evolves cur z" using y(1) z(1) by (simp add: evolves_def)
  moreover have "told l2 = (told (calls s))(key_of v \<mapsto> mciSpec v)" using t1 t2 t3 keys spec by simp
  ultimately show ?thesis using put
    by (intro exI [of _ z] exI [of _ "s2\<lparr>env := (env s2)\<lparr>apiMCIs := put_key z (apiMCIs (env s2))\<rparr>, calls := l2\<rparr>"])
      (simp add: run)
qed

text \<open>The finalizer is stored first; the controller goes on with the object as it was read.\<close>

lemma finalizer_step:
  assumes "find_key k (apiMCIs (env s)) = Some mci" and "DeletionTimestamp mci = None"
  shows "\<exists>cur l. known mci cur \<and> MCIControllerFinalizer \<in> set (Finalizers cur) \<and> told l = told (calls s) \<and>
    set (Finalizers mci) \<subseteq> set (Finalizers cur) \<and>
    run_state (ReconcileMCI test_mci_controller k) s = run_state (sync_balancer test_mci_controller mci)
      (s\<lparr>env := (env s)\<lparr>apiMCIs := put_key cur (apiMCIs (env s))\<rparr>, calls := l\<rparr>)"
proof (cases "MCIControllerFinalizer \<in> set (Finalizers mci)")
  case True
  have "known mci mci" using assms(2) by (simp add: known_def)
  with True show ?thesis using assms put_found [OF assms(1)]
    by (intro exI [of _ mci] exI [of _ "calls s @ [Reconciling MCIKind k, Got MCIKind k (Inr (MCIObj mci))]"])
      (simp add: ReconcileMCI_def run_api IsZero_def handleMCICreateOrUpdate_def told_append)
next
  case False
  let ?m = "mci\<lparr>Finalizers := Finalizers mci @ [MCIControllerFinalizer]\<rparr>"
  have "known mci (next_version ?m)" using assms(2) by (simp add: known_def)
  with False show ?thesis using assms find_key_key [OF assms(1)]
    by (intro exI [of _ "next_version ?m"] exI [of _ "calls s @ [Reconciling MCIKind k,
          Got MCIKind k (Inr (MCIObj mci)), Wrote PatchVerb (MCIObj ?m) None]"])
      (auto simp: ReconcileMCI_def run_api IsZero_def handleMCICreateOrUpdate_def write_stored Let_def told_append)
qed

lemma reconcile_live:
  assumes "find_key k (apiMCIs (env s)) = Some mci" and "DeletionTimestamp mci = None" and "only_services mci"
  shows "\<exists>s' z. run_state (ReconcileMCI test_mci_controller k) s = (None, s') \<and>
    apiMCIs (env s') = put_key z (apiMCIs (env s)) \<and> key_of z = k \<and> mciSpec z = mciSpec mci \<and>
    DeletionTimestamp z = None \<and>
    MCIControllerFinalizer \<in> set (Finalizers z) \<and> set (Finalizers mci) \<subseteq> set (Finalizers z) \<and>
    mciStatus z = (mciStatus mci)
      \<lparr>TrafficBlockClusters := blocked_clusters test_mci_controller mci (apiClusters (env s)),
       statusLoadBalancer := answered_status (has_balancer (env s) (mci_key std_deps mci))\<rparr> \<and>
    (\<forall>n. has_balancer (env s') n \<longleftrightarrow> n = mci_key std_deps mci \<or> has_balancer (env s) n) \<and>
    told (calls s') = (told (calls s))(k \<mapsto> mciSpec mci)"
proof -
  have k: "key_of mci = k" using assms(1) by (rule find_key_key)
  from finalizer_step [OF assms(1,2)] obtain cur l where cur: "known mci cur"
      "MCIControllerFinalizer \<in> set (Finalizers cur)" "set (Finalizers mci) \<subseteq> set (Finalizers cur)"
    and t: "told l = told (calls s)"
    and start: "run_state (ReconcileMCI test_mci_controller k) s = run_state (sync_balancer test_mci_controller mci)
      (s\<lparr>env := (env s)\<lparr>apiMCIs := put_key cur (apiMCIs (env s))\<rparr>, calls := l\<rparr>)" by blast
  let ?s1 = "s\<lparr>env := (env s)\<lparr>apiMCIs := put_key cur (apiMCIs (env s))\<rparr>, calls := l\<rparr>"
  have "find_key (key_of mci) (apiMCIs (env ?s1)) = Some cur"
    using find_put [of cur "apiMCIs (env s)"] assms(1) k cur(1) by (simp add: known_def)
  from sync_balancer_completes [OF this cur(1) assms(3)] obtain s' z where
    sync: "run_state (sync_balancer test_mci_controller mci) ?s1 = (None, s')"
      "apiMCIs (env s') = put_key z (apiMCIs (env ?s1))"
      "told (calls s') = (told (calls ?s1))(key_of mci \<mapsto> mciSpec mci)" and z: "evolves cur z"
      "mciStatus z = (mciStatus cur)
        \<lparr>TrafficBlockClusters := blocked_clusters test_mci_controller mci (apiClusters (env ?s1)),
         statusLoadBalancer := answered_status (has_balancer (env ?s1) (mci_key std_deps mci))\<rparr>"
    by blast
  have run: "run_state (ReconcileMCI test_mci_controller k) s = (None, s')" using start sync by simp
  have get: "cGet (mcis (mciClient test_mci_controller)) k (env s) = (Inr mci, env s)" using assms(1) by simp
  note cloud = test_mci.ReconcileMCI_settles [OF run get]
  then have "has_balancer (env s') n \<longleftrightarrow> n = mci_key std_deps mci \<or> has_balancer (env s) n" for n
    using assms(2) by (cases "n = mci_key std_deps mci") simp_all
  moreover have "put_key z (apiMCIs (env ?s1)) = put_key z (apiMCIs (env s))" "key_of z = k" "mciSpec z = mciSpec mci"
    using z(1) cur(1) k put_put [of z cur] by (auto simp: evolves_def known_def)
  ultimately show ?thesis using run sync(2,3) z cur t k
    by (intro exI [of _ s'] exI [of _ z]) (simp add: evolves_def known_def has_balancer_def)
qed

lemma reconcile_deleting:
  assumes "find_key k (apiMCIs (env s)) = Some mci" and "DeletionTimestamp mci \<noteq> None"
    and "MCIControllerFinalizer \<in> set (Finalizers mci)"
  shows "\<exists>s'. run_state (ReconcileMCI test_mci_controller k) s = (None, s') \<and>
    apiMCIs (env s') = (if set (Finalizers mci) = {MCIControllerFinalizer}
      then filter (\<lambda>x. key_of x \<noteq> k) (apiMCIs (env s))
      else put_key (next_version (mci\<lparr>Finalizers := filter (\<lambda>f. f \<noteq> MCIControllerFinalizer) (Finalizers mci)\<rparr>))
        (apiMCIs (env s))) \<and>
    (\<forall>n. has_balancer (env s') n \<longleftrightarrow> n \<noteq> mci_key std_deps mci \<and> has_balancer (env s) n) \<and>
    told (calls s') = (told (calls s))(k := None)"
proof -
  have k: "key_of mci = k" using assms(1) by (rule find_key_key)
  let ?m = "mci\<lparr>Finalizers := filter (\<lambda>f. f \<noteq> MCIControllerFinalizer) (Finalizers mci)\<rparr>"
  let ?w = "snd (EnsureLoadBalancerDeleted std_deps mci (env s))"
  have store: "apiMCIs ?w = apiMCIs (env s)" by (simp add: EnsureLoadBalancerDeleted_def Let_def)
  have none: "filter (\<lambda>f. f \<noteq> MCIControllerFinalizer) (Finalizers mci) = [] \<longleftrightarrow> set (Finalizers mci) = {MCIControllerFinalizer}"
    using assms(3) by (auto simp: filter_empty_conv)
  have "run_state (ReconcileMCI test_mci_controller k) s = (None,
      s\<lparr>env := snd (mem_write apiMCIs (\<lambda>xs w. w\<lparr>apiMCIs := xs\<rparr>) ?m ?w), calls := calls s @
        [Reconciling MCIKind k, Got MCIKind k (Inr (MCIObj mci)), LBDeleted (MCIObj mci) None,
         Wrote UpdateVerb (MCIObj ?m) None]\<rparr>)"
    using assms k store
    by (simp add: ReconcileMCI_def run_api IsZero_def handleMCIDelete_def lb_defs LoadBalancer_def
        EnsureLoadBalancerDeleted_def mem_write_def Let_def)
  moreover have "snd (mem_write apiMCIs (\<lambda>xs w. w\<lparr>apiMCIs := xs\<rparr>) ?m ?w) = ?w\<lparr>apiMCIs :=
      (if set (Finalizers mci) = {MCIControllerFinalizer} then filter (\<lambda>x. key_of x \<noteq> k) (apiMCIs (env s))
       else put_key (next_version ?m) (apiMCIs (env s)))\<rparr>"
    using assms k store none by (simp add: mem_write_def)
  moreover have "has_balancer (?w\<lparr>apiMCIs := xs\<rparr>) n \<longleftrightarrow> n \<noteq> mci_key std_deps mci \<and> has_balancer (env s) n" for xs n
    by (auto simp: has_balancer_def EnsureLoadBalancerDeleted_def mci_key_def Let_def)
  ultimately show ?thesis using k by (simp add: told_append)
qed

section \<open>Properties\<close>



text \<open>
  C12: on the same server, one reconcile of an ingress that is being deleted and carries the
  controller's finalizer succeeds from any state. Then the provider holds no load balancer for it,
  and the ingress is gone from the server if no other finalizer holds it; otherwise it is stored
  with those others. All other objects, and all other balancers, are as before.
\<close>

theorem mci_deletion_completes:
  assumes "find_key k (apiMCIs (env s)) = Some mci" and "DeletionTimestamp mci \<noteq> None"
    and "MCIControllerFinalizer \<in> set (Finalizers mci)"
  shows "\<exists>s'. run_state (ReconcileMCI test_mci_controller k) s = (None, s') \<and>
    apiMCIs (env s') = (if set (Finalizers mci) = {MCIControllerFinalizer}
      then filter (\<lambda>x. key_of x \<noteq> k) (apiMCIs (env s))
      else put_key (next_version (mci\<lparr>Finalizers := filter (\<lambda>f. f \<noteq> MCIControllerFinalizer) (Finalizers mci)\<rparr>))
        (apiMCIs (env s))) \<and>
    (\<forall>n. has_balancer (env s') n \<longleftrightarrow> n \<noteq> mci_key std_deps mci \<and> has_balancer (env s) n)"
  using reconcile_deleting [OF assms] by blast

lemma mci_deletion_completes_witness:
  "apiMCIs (env (snd delete_run)) = [] \<and> \<not> has_balancer (env (snd delete_run)) ''shop/web''"
proof -
  have fields: "key_of deleting_mci = (''shop'', ''web'')" "DeletionTimestamp deleting_mci \<noteq> None"
      "MCIControllerFinalizer \<in> set (Finalizers deleting_mci)" "set (Finalizers deleting_mci) = {MCIControllerFinalizer}"
      "mci_key std_deps deleting_mci = ''shop/web''"
    by (simp_all add: deleting_mci_def sample_mci_def meta_literal_def ObjectMeta.defs key_of_def mci_key_def)
  have "find_key (''shop'', ''web'') (apiMCIs (env (mci_world [deleting_mci] []))) = Some deleting_mci"
    by (simp add: mci_world_def fields)
  from mci_deletion_completes [OF this fields(2,3)] obtain s' where
    run: "run_state (ReconcileMCI test_mci_controller (''shop'', ''web'')) (mci_world [deleting_mci] []) = (None, s')"
    and "apiMCIs (env s') = filter (\<lambda>x. key_of x \<noteq> (''shop'', ''web'')) (apiMCIs (env (mci_world [deleting_mci] [])))"
    and "\<not> has_balancer (env s') ''shop/web''"
    unfolding fields if_P [OF refl] by blast
  moreover have "snd delete_run = s'" by (simp only: delete_run_def run snd_conv)
  ultimately show ?thesis by (simp add: mci_world_def fields(1))
qed

end
