(* ===== verification/Events.thy ===== *)
theory Events
  imports Util Indexes
begin

text \<open>
  What the event handlers of the controllers have in common: the events controller-runtime
  delivers, channels that hand generic events on, and reads from the cache's indexes.
\<close>

section \<open>Events and channels\<close>

datatype 'o event = CreateEvent 'o | UpdateEvent 'o 'o | DeleteEvent 'o | GenericEvent 'o

text \<open>The object an event is about: for an update, its new version.\<close>

fun event_object :: "'o event \<Rightarrow> 'o" where
  "event_object (CreateEvent x) = x"
| "event_object (UpdateEvent old new) = new"
| "event_object (DeleteEvent x) = x"
| "event_object (GenericEvent x) = x"

text \<open>
  A handler adds requests to the queue or sends objects on one channel; its result is what it
  added or sent, in order. \<open>each\<close> passes what was sent on a channel to the \<open>Generic\<close> method of the
  handler that watches the channel (\<open>source.Channel\<close>).
\<close>

fun each :: "('a \<Rightarrow> ('s, 'b list) state) \<Rightarrow> 'a list \<Rightarrow> ('s, 'b list) state" where
  "each f [] = ret []"
| "each f (x # xs) = do {
     ys \<leftarrow> f x;
     zs \<leftarrow> each f xs;
     ret (ys @ zs)
   }"

text \<open>Delivery by a handler that keeps a property of the state, and whose result depends on nothing else.\<close>

lemma run_each:
  assumes "P s" and "\<And>x s. P s \<Longrightarrow> \<exists>s'. run_state (f x) s = (g x, s') \<and> P s'"
  shows "\<exists>s'. run_state (each f xs) s = (concat (map g xs), s') \<and> P s'"
  using assms(1)
proof (induction xs arbitrary: s)
  case (Cons x xs)
  from assms(2) [OF Cons.prems] obtain s1 where s1: "run_state (f x) s = (g x, s1)" "P s1" by blast
  from Cons.IH [OF s1(2)] obtain s2 where "run_state (each f xs) s1 = (concat (map g xs), s2)" "P s2"
    by blast
  with s1 show ?case by simp
qed simp

section \<open>Reads from the indexed cache\<close>

text \<open>
  The cache holds the ingresses \<open>ms\<close> and the classes \<open>cs\<close>. A List of all objects returns them, a
  List by a field returns those of the namespace whose index function yields the value: the
  functions registered in reference_indexer.go. No read changes anything.
\<close>

definition mcis_in_cache :: "deps \<Rightarrow> 'w client \<Rightarrow> MultiClusterIngress list \<Rightarrow> 'w \<Rightarrow> bool" where
  "mcis_in_cache d c ms w \<longleftrightarrow>
     cList (mcis c) all_objects w = (Inr ms, w) \<and>
     (\<forall>ns v. cList (mcis c) (in_namespace_with ns IndexKeyServiceRefName v) w =
        (Inr (filter (\<lambda>m. Namespace m = ns \<and>
           (\<exists>xs. BuildServiceRefIndexes d m = Some xs \<and> v \<in> set xs)) ms), w)) \<and>
     (\<forall>ns v. cList (mcis c) (in_namespace_with ns IndexKeySecretRefName v) w =
        (Inr (filter (\<lambda>m. Namespace m = ns \<and> v \<in> set (BuildSecretRefIndexes d m)) ms), w))"

definition classes_in_cache :: "'w client \<Rightarrow> IngressClass list \<Rightarrow> 'w \<Rightarrow> bool" where
  "classes_in_cache c cs w \<longleftrightarrow>
     cList (ingress_classes c) all_objects w = (Inr cs, w) \<and>
     (\<forall>k. cGet (ingress_classes c) k w =
        (case find (\<lambda>cls. key_of cls = k) cs of None \<Rightarrow> Inl NotFound | Some cls \<Rightarrow> Inr cls, w))"

definition cached :: "deps \<Rightarrow> 'w client \<Rightarrow> MultiClusterIngress list \<Rightarrow> IngressClass list \<Rightarrow> 'w \<Rightarrow> bool" where
  "cached d c ms cs w \<longleftrightarrow> mcis_in_cache d c ms w \<and> classes_in_cache c cs w"

text \<open>An ingress of this provider, as far as the cache knows.\<close>

definition ours :: "deps \<Rightarrow> IngressClass list \<Rightarrow> string \<Rightarrow> MultiClusterIngress \<Rightarrow> bool" where
  "ours d cs provider = governed_by d (\<lambda>k. find (\<lambda>cls. key_of cls = k) cs) cs provider"

lemma run_CheckIngressClassMatched_cached:
  assumes "cached d c ms cs (env s)"
  shows "\<exists>l. run_state (CheckIngressClassMatched d c mci provider) s = (ours d cs provider mci, s\<lparr>calls := l\<rparr>)"
proof -
  let ?find = "\<lambda>k. find (\<lambda>cls. key_of cls = k) cs"
  have get: "cGet (ingress_classes c) k (env s) =
      (case ?find k of None \<Rightarrow> (Inl NotFound, env s) | Some x \<Rightarrow> (Inr x, env s))" for k
    using assms by (cases k) (simp add: cached_def classes_in_cache_def split: option.splits)
  have list: "cList (ingress_classes c) all_objects (env s) = (Inr cs, env s)"
    using assms by (simp add: cached_def classes_in_cache_def)
  have matches: "\<exists>l. run_state (class_matches c n provider) (s\<lparr>calls := l0\<rparr>) =
      ((case ?find ('''', n) of None \<Rightarrow> False | Some cls \<Rightarrow> ClassController cls = provider), s\<lparr>calls := l\<rparr>)" for n l0
    by (simp add: class_matches_def run_api get split: option.splits) blast
  show ?thesis
  proof (cases "IngressClassName (mciSpec mci)")
    case (Some n)
    then show ?thesis using matches [of n "calls s"]
      by (simp add: CheckIngressClassMatched_def ours_def governed_by_def governing_class_def)
  next
    case None
    let ?l = "calls s @ [Listed ClassKind all_objects None]"
    have "run_state (GetDefaultIngressClass d c) s = (scan_default d cs '''' False, s\<lparr>calls := ?l\<rparr>)"
      by (simp add: GetDefaultIngressClass_def run_api list)
    then show ?thesis using None matches [of _ ?l]
      by (auto simp: CheckIngressClassMatched_def ours_def governed_by_def governing_class_def
          scan_default_cases split: list.splits)
  qed
qed

end
