(* ===== verification/MciHandlers.thy ===== *)
theory MciHandlers
  imports Events MciCloud
begin

text \<open>
  pkg/controllers/multiclusteringress/eventhandlers.go and \<open>setupWatches\<close> of mci_controller.go:
  how events of ingresses, services, endpoint slices, secrets and clusters become requests of
  the ingress controller. One equation per method of a handler; the result is what it adds to the
  queue (keys) or sends on its channel (objects).
\<close>

section \<open>Ingresses\<close>

fun mci_multiClusterIngressEventHandler ::
  "'w MCIController \<Rightarrow> MultiClusterIngress event \<Rightarrow> ('w, key list) io" where
  "mci_multiClusterIngressEventHandler h (CreateEvent mci) = do {
     matched \<leftarrow> CheckIngressClassMatched (mciDeps h) (mciClient h) mci (mciProviderClassName h);
     if \<not> matched then ret [] else ret [key_of mci]
   }"
| "mci_multiClusterIngressEventHandler h (UpdateEvent mciOld mciNew) = do {
     matched \<leftarrow> CheckIngressClassMatched (mciDeps h) (mciClient h) mciNew (mciProviderClassName h);
     if \<not> matched then ret []
     else if SemanticMap (mciDeps h) (Annotations mciOld) (Annotations mciNew) \<and>
        SemanticIngressSpec (mciDeps h) (mciSpec mciOld) (mciSpec mciNew) \<and>
        SemanticBool (mciDeps h) (IsZero (DeletionTimestamp mciOld)) (IsZero (DeletionTimestamp mciNew))
     then ret []
     else ret [key_of mciNew]
   }"
| "mci_multiClusterIngressEventHandler h (DeleteEvent mci) = ret []"
| "mci_multiClusterIngressEventHandler h (GenericEvent mci) = do {
     matched \<leftarrow> CheckIngressClassMatched (mciDeps h) (mciClient h) mci (mciProviderClassName h);
     if \<not> matched then ret [] else ret [key_of mci]
   }"

section \<open>Services\<close>

definition mci_enqueueImpactedMCI_svc ::
  "'w client \<Rightarrow> string \<Rightarrow> string \<Rightarrow> ('w, MultiClusterIngress list) io" where
  "mci_enqueueImpactedMCI_svc c svcNamespace svcName = do {
     r \<leftarrow> api_list MCIKind (mcis c) (in_namespace_with svcNamespace IndexKeyServiceRefName svcName);
     case r of
       Inl e \<Rightarrow> ret []
     | Inr mciList \<Rightarrow> ret mciList
   }"

fun mci_serviceEventHandler ::
  "deps \<Rightarrow> 'w client \<Rightarrow> Service event \<Rightarrow> ('w, MultiClusterIngress list) io" where
  "mci_serviceEventHandler d c (CreateEvent svc) = mci_enqueueImpactedMCI_svc c (Namespace svc) (Name svc)"
| "mci_serviceEventHandler d c (UpdateEvent svcOld svcNew) =
     (if SemanticMap d (Annotations svcOld) (Annotations svcNew) \<and>
         SemanticServiceSpec d (svcSpec svcOld) (svcSpec svcNew) \<and>
         SemanticBool d (IsZero (DeletionTimestamp svcOld)) (IsZero (DeletionTimestamp svcNew))
      then ret []
      else mci_enqueueImpactedMCI_svc c (Namespace svcNew) (Name svcNew))"
| "mci_serviceEventHandler d c (DeleteEvent svc) = mci_enqueueImpactedMCI_svc c (Namespace svc) (Name svc)"
| "mci_serviceEventHandler d c (GenericEvent svc) = mci_enqueueImpactedMCI_svc c (Namespace svc) (Name svc)"

section \<open>Endpoint slices\<close>

definition derivedServicePrefix :: string where
  "derivedServicePrefix = ''derived-''"

text \<open>The literal \<open>&corev1.Service{ObjectMeta: ...}\<close>.\<close>

definition service_literal :: "string \<Rightarrow> string \<Rightarrow> Service" where
  "service_literal ns n = ObjectMeta.extend (meta_literal ns n) \<lparr>svcSpec = ''''\<rparr>"

lemma service_literal_fields [simp]:
  "Namespace (service_literal ns n) = ns" "Name (service_literal ns n) = n"
  by (simp_all add: service_literal_def meta_literal_def ObjectMeta.defs)

definition mci_enqueueImpactedSvc :: "deps \<Rightarrow> EndpointSlice \<Rightarrow> Service list" where
  "mci_enqueueImpactedSvc d eps =
     (case Labels eps (LabelServiceName d) of
        None \<Rightarrow> []
      | Some svcName \<Rightarrow> [service_literal (Namespace eps) (TrimPrefix svcName derivedServicePrefix)])"

fun mci_endpointSlicesEventHandler :: "deps \<Rightarrow> EndpointSlice event \<Rightarrow> Service list" where
  "mci_endpointSlicesEventHandler d (CreateEvent eps) = mci_enqueueImpactedSvc d eps"
| "mci_endpointSlicesEventHandler d (UpdateEvent epsOld epsNew) = mci_enqueueImpactedSvc d epsNew"
| "mci_endpointSlicesEventHandler d (DeleteEvent eps) = mci_enqueueImpactedSvc d eps"
| "mci_endpointSlicesEventHandler d (GenericEvent eps) = []"

section \<open>Secrets\<close>

definition mci_enqueueImpactedMCI_secret ::
  "'w client \<Rightarrow> string \<Rightarrow> string \<Rightarrow> ('w, MultiClusterIngress list) io" where
  "mci_enqueueImpactedMCI_secret c secretNamespace secretName = do {
     r \<leftarrow> api_list MCIKind (mcis c) (in_namespace_with secretNamespace IndexKeySecretRefName secretName);
     case r of
       Inl e \<Rightarrow> ret []
     | Inr mciList \<Rightarrow> ret mciList
   }"

fun mci_secretEventHandler ::
  "deps \<Rightarrow> 'w client \<Rightarrow> Secret event \<Rightarrow> ('w, MultiClusterIngress list) io" where
  "mci_secretEventHandler d c (CreateEvent secret) =
     mci_enqueueImpactedMCI_secret c (Namespace secret) (Name secret)"
| "mci_secretEventHandler d c (UpdateEvent secretOld secretNew) =
     (if SemanticMap d (Annotations secretOld) (Annotations secretNew) \<and>
         SemanticData d (Data secretOld) (Data secretNew) \<and>
         SemanticMap d (StringData secretOld) (StringData secretNew)
      then ret []
      else mci_enqueueImpactedMCI_secret c (Namespace secretNew) (Name secretNew))"
| "mci_secretEventHandler d c (DeleteEvent secret) =
     mci_enqueueImpactedMCI_secret c (Namespace secret) (Name secret)"
| "mci_secretEventHandler d c (GenericEvent secret) = ret []"

section \<open>Clusters\<close>

fun locations_contain :: "string \<Rightarrow> ServiceLocation list \<Rightarrow> bool" where
  "locations_contain n [] = False"
| "locations_contain n (location # locs) =
     (if n \<in> set (elems (LocationClusters location)) then True else locations_contain n locs)"

definition mciSvcLocationsContainsCluster :: "MultiClusterIngress \<Rightarrow> Cluster \<Rightarrow> bool" where
  "mciSvcLocationsContainsCluster mci cluster =
     locations_contain (Name cluster) (elems (ServiceLocations (mciStatus mci)))"

fun mci_clusterEventHandler ::
  "deps \<Rightarrow> 'w client \<Rightarrow> Cluster event \<Rightarrow> ('w, MultiClusterIngress list) io" where
  "mci_clusterEventHandler d c (CreateEvent cluster) = ret []"
| "mci_clusterEventHandler d c (UpdateEvent oldCluster newCluster) =
     (let oldExist = has_action (TrafficControl d) (elems (RemedyActions oldCluster));
          newExist = has_action (TrafficControl d) (elems (RemedyActions newCluster))
      in if oldExist = newExist then ret []
         else do {
           r \<leftarrow> api_list MCIKind (mcis c) all_objects;
           case r of
             Inl e \<Rightarrow> ret []
           | Inr mciList \<Rightarrow> ret (filter (\<lambda>mci. mciSvcLocationsContainsCluster mci newCluster) mciList)
         })"
| "mci_clusterEventHandler d c (DeleteEvent cluster) = ret []"
| "mci_clusterEventHandler d c (GenericEvent cluster) = ret []"

section \<open>The watches\<close>

text \<open>
  \<open>setupWatches\<close>: which handler sees which events. What a handler sends on \<open>mciEventChan\<close> or
  \<open>svcEventChan\<close> reaches the ingress or service handler as a generic event.
\<close>

datatype mci_watched =
    WatchMCI "MultiClusterIngress event"
  | WatchService "Service event"
  | WatchSlice "EndpointSlice event"
  | WatchSecret "Secret event"
  | WatchCluster "Cluster event"

definition on_mciEventChan :: "'w MCIController \<Rightarrow> MultiClusterIngress list \<Rightarrow> ('w, key list) io" where
  "on_mciEventChan h = each (\<lambda>mci. mci_multiClusterIngressEventHandler h (GenericEvent mci))"

definition on_svcEventChan :: "'w MCIController \<Rightarrow> Service list \<Rightarrow> ('w, key list) io" where
  "on_svcEventChan h = each (\<lambda>svc. do {
     sent \<leftarrow> mci_serviceEventHandler (mciDeps h) (mciClient h) (GenericEvent svc);
     on_mciEventChan h sent
   })"

fun mci_setupWatches :: "'w MCIController \<Rightarrow> mci_watched \<Rightarrow> ('w, key list) io" where
  "mci_setupWatches h (WatchMCI e) = mci_multiClusterIngressEventHandler h e"
| "mci_setupWatches h (WatchService e) = do {
     sent \<leftarrow> mci_serviceEventHandler (mciDeps h) (mciClient h) e;
     on_mciEventChan h sent
   }"
| "mci_setupWatches h (WatchSlice e) = on_svcEventChan h (mci_endpointSlicesEventHandler (mciDeps h) e)"
| "mci_setupWatches h (WatchSecret e) = do {
     sent \<leftarrow> mci_secretEventHandler (mciDeps h) (mciClient h) e;
     on_mciEventChan h sent
   }"
| "mci_setupWatches h (WatchCluster e) = do {
     sent \<leftarrow> mci_clusterEventHandler (mciDeps h) (mciClient h) e;
     on_mciEventChan h sent
   }"

section \<open>What reaches the queue\<close>

lemma locations_contain_iff: "locations_contain n locs \<longleftrightarrow> (\<exists>loc \<in> set locs. n \<in> set (elems (LocationClusters loc)))"
  by (induction locs) auto

text \<open>\<open>k\<close> is the key of an ingress of this provider in the cache that \<open>P\<close> holds of.\<close>

definition keys_of_ours ::
  "'w MCIController \<Rightarrow> IngressClass list \<Rightarrow> MultiClusterIngress list \<Rightarrow> (MultiClusterIngress \<Rightarrow> bool) \<Rightarrow> key list" where
  "keys_of_ours h cs ms P =
     map key_of (filter (\<lambda>m. P m \<and> ours (mciDeps h) cs (mciProviderClassName h) m) ms)"

abbreviation in_cache ::
  "'w MCIController \<Rightarrow> MultiClusterIngress list \<Rightarrow> IngressClass list \<Rightarrow> ('w, call) world \<Rightarrow> bool" where
  "in_cache h ms cs s \<equiv> cached (mciDeps h) (mciClient h) ms cs (env s)"

lemma run_generic:
  assumes "in_cache h ms cs s"
  shows "\<exists>s'. run_state (mci_multiClusterIngressEventHandler h (GenericEvent mci)) s =
    (if ours (mciDeps h) cs (mciProviderClassName h) mci then [key_of mci] else [], s') \<and> in_cache h ms cs s'"
proof -
  obtain l where "run_state (CheckIngressClassMatched (mciDeps h) (mciClient h) mci (mciProviderClassName h)) s =
      (ours (mciDeps h) cs (mciProviderClassName h) mci, s\<lparr>calls := l\<rparr>)"
    using run_CheckIngressClassMatched_cached [OF assms] by blast
  then show ?thesis using assms by simp
qed

lemma run_on_mciEventChan:
  assumes "in_cache h ms cs s"
  shows "\<exists>s'. run_state (on_mciEventChan h (filter P ms)) s = (keys_of_ours h cs ms P, s') \<and> in_cache h ms cs s'"
proof -
  have "concat (map (\<lambda>m. if ours (mciDeps h) cs (mciProviderClassName h) m then [key_of m] else []) (filter P ms)) =
      keys_of_ours h cs ms P"
    by (induction ms) (auto simp: keys_of_ours_def)
  then show ?thesis
    using run_each [of "in_cache h ms cs" s "\<lambda>m. mci_multiClusterIngressEventHandler h (GenericEvent m)"
        "\<lambda>m. if ours (mciDeps h) cs (mciProviderClassName h) m then [key_of m] else []" "filter P ms",
        OF assms run_generic]
    unfolding on_mciEventChan_def by simp
qed

text \<open>The ingresses that refer to a service, by the index and by the specification.\<close>

definition refers :: "deps \<Rightarrow> string \<Rightarrow> string \<Rightarrow> MultiClusterIngress \<Rightarrow> bool" where
  "refers d ns n m \<longleftrightarrow> Namespace m = ns \<and> (\<exists>xs. BuildServiceRefIndexes d m = Some xs \<and> n \<in> set xs)"

lemma refers_iff:
  assumes "sets_ok d"
  shows "refers d ns n m \<longleftrightarrow> Namespace m = ns \<and> only_services m \<and> refers_to_service m n"
  using BuildServiceRefIndexes_None [of d m] BuildServiceRefIndexes_set [OF assms, of m]
  by (cases "BuildServiceRefIndexes d m") (auto simp: refers_def)

lemma uses_secret_iff:
  assumes "sets_ok d"
  shows "n \<in> set (BuildSecretRefIndexes d m) \<longleftrightarrow> n \<in> SecretName ` set (elems (TLS (mciSpec m)))"
  using assms by (simp add: BuildSecretRefIndexes_def sets_okD)

lemma run_service_list:
  assumes "in_cache h ms cs s"
  shows "\<exists>s'. run_state (do {
      sent \<leftarrow> mci_enqueueImpactedMCI_svc (mciClient h) ns n; on_mciEventChan h sent }) s =
    (keys_of_ours h cs ms (refers (mciDeps h) ns n), s') \<and> in_cache h ms cs s'"
proof -
  let ?s = "s\<lparr>calls := calls s @ [Listed MCIKind (in_namespace_with ns IndexKeyServiceRefName n) None]\<rparr>"
  have "run_state (mci_enqueueImpactedMCI_svc (mciClient h) ns n) s = (filter (refers (mciDeps h) ns n) ms, ?s)"
    using assms by (simp add: mci_enqueueImpactedMCI_svc_def run_api cached_def mcis_in_cache_def refers_def [abs_def])
  moreover have "in_cache h ms cs ?s" using assms by simp
  ultimately show ?thesis
    using run_on_mciEventChan [of h ms cs ?s "refers (mciDeps h) ns n"] by simp
qed

lemma run_on_svcEventChan:
  assumes "in_cache h ms cs s"
  shows "\<exists>s'. run_state (on_svcEventChan h [service_literal ns n]) s =
    (keys_of_ours h cs ms (refers (mciDeps h) ns n), s') \<and> in_cache h ms cs s'"
  using run_service_list [OF assms, of ns n]
  by (simp add: on_svcEventChan_def)

lemma run_secret_list:
  assumes "in_cache h ms cs s"
  shows "\<exists>s'. run_state (do {
      sent \<leftarrow> mci_enqueueImpactedMCI_secret (mciClient h) ns n; on_mciEventChan h sent }) s =
    (keys_of_ours h cs ms (\<lambda>m. Namespace m = ns \<and> n \<in> set (BuildSecretRefIndexes (mciDeps h) m)), s') \<and>
    in_cache h ms cs s'"
proof -
  let ?P = "\<lambda>m. Namespace m = ns \<and> n \<in> set (BuildSecretRefIndexes (mciDeps h) m)"
  let ?s = "s\<lparr>calls := calls s @ [Listed MCIKind (in_namespace_with ns IndexKeySecretRefName n) None]\<rparr>"
  have "run_state (mci_enqueueImpactedMCI_secret (mciClient h) ns n) s = (filter ?P ms, ?s)"
    using assms by (simp add: mci_enqueueImpactedMCI_secret_def run_api cached_def mcis_in_cache_def)
  moreover have "in_cache h ms cs ?s" using assms by simp
  ultimately show ?thesis using run_on_mciEventChan [of h ms cs ?s ?P] by simp
qed

lemma run_cluster_list:
  assumes "in_cache h ms cs s" and "has_action (TrafficControl (mciDeps h)) (elems (RemedyActions c1)) \<noteq>
    has_action (TrafficControl (mciDeps h)) (elems (RemedyActions c2))"
  shows "\<exists>s'. run_state (mci_setupWatches h (WatchCluster (UpdateEvent c1 c2))) s =
    (keys_of_ours h cs ms (\<lambda>m. mciSvcLocationsContainsCluster m c2), s') \<and> in_cache h ms cs s'"
proof -
  let ?P = "\<lambda>m. mciSvcLocationsContainsCluster m c2"
  let ?s = "s\<lparr>calls := calls s @ [Listed MCIKind all_objects None]\<rparr>"
  have "run_state (mci_clusterEventHandler (mciDeps h) (mciClient h) (UpdateEvent c1 c2)) s = (filter ?P ms, ?s)"
    using assms by (simp add: run_api cached_def mcis_in_cache_def)
  moreover have "in_cache h ms cs ?s" using assms by simp
  ultimately show ?thesis using run_on_mciEventChan [of h ms cs ?s ?P] by simp
qed

section \<open>The handlers on the test server\<close>

lemma find_key_find: "find_key k xs = find (\<lambda>x. key_of x = k) xs"
  by (induction xs) auto

lemma mem_server_cached:
  "cached d (mem_server d) (apiMCIs w) (apiClasses w) w"
  by (auto simp: cached_def mcis_in_cache_def classes_in_cache_def mem_list_def all_objects_def
      in_namespace_with_def find_key_find IndexKeyServiceRefName_def IndexKeySecretRefName_def
      split: option.splits intro!: filter_cong)

definition sample_class :: IngressClass where
  "sample_class = ObjectMeta.extend (meta_literal '''' ''fake'') \<lparr>ClassController = ''fake''\<rparr>"

definition watch_world :: "(Testbed, call) world" where
  "watch_world = \<lparr>env = empty_testbed\<lparr>apiMCIs := [sample_mci], apiClasses := [sample_class]\<rparr>, calls = []\<rparr>"

lemma sample_mci_ours: "ours std_deps [sample_class] ''fake'' sample_mci"
  by (simp add: ours_def governed_by_def governing_class_def sample_mci_def sample_class_def
      meta_literal_def ObjectMeta.defs key_of_def)

lemma sample_mci_refers: "only_services sample_mci \<and> refers_to_service sample_mci ''front''"
proof -
  have "BuildServiceRefIndexes std_deps sample_mci = Some [''front'']"
    by (simp add: BuildServiceRefIndexes_def spec_backends_def sample_mci_def meta_literal_def ObjectMeta.defs)
  then show ?thesis
    using BuildServiceRefIndexes_None [of std_deps sample_mci]
      BuildServiceRefIndexes_set [OF std_sets_ok, of sample_mci "[''front'']" "''front''"] by simp
qed

lemma test_provider [simp]: "mciProviderClassName test_mci_controller = ''fake''"
  by (simp add: test_mci_controller_def)

section \<open>Properties\<close>

text \<open>
  When an endpoint slice is created, updated or deleted, the requests that reach the queue are
  those of the ingresses in its namespace that belong to this provider and refer to the service
  the slice names (less the prefix of a derived service), through both channels.
\<close>

lemma mci_slice_event_reaches_ingresses:
  assumes "sets_ok (mciDeps h)" and "cached (mciDeps h) (mciClient h) ms cs (env s)"
    and "Labels eps (LabelServiceName (mciDeps h)) = Some svcName"
    and "e \<in> {CreateEvent eps, UpdateEvent old eps, DeleteEvent eps}"
  shows "set (fst (run_state (mci_setupWatches h (WatchSlice e)) s)) =
    key_of ` {m \<in> set ms. ours (mciDeps h) cs (mciProviderClassName h) m \<and> Namespace m = Namespace eps \<and>
      only_services m \<and> refers_to_service m (TrimPrefix svcName derivedServicePrefix)}"
proof -
  let ?n = "TrimPrefix svcName derivedServicePrefix"
  have "mci_endpointSlicesEventHandler (mciDeps h) e = [service_literal (Namespace eps) ?n]"
    using assms(3,4) by (auto simp: mci_enqueueImpactedSvc_def)
  then have "fst (run_state (mci_setupWatches h (WatchSlice e)) s) =
      keys_of_ours h cs ms (refers (mciDeps h) (Namespace eps) ?n)"
    using run_on_svcEventChan [OF assms(2), of "Namespace eps" ?n] by auto
  then show ?thesis by (auto simp: keys_of_ours_def refers_iff [OF assms(1)])
qed

text \<open>
  When a service is created or deleted, or updated in its annotations, its specification or
  its deletion, the requests that reach the queue are those of the ingresses of this provider in
  its namespace that refer to it; another update reaches none.
\<close>

lemma mci_service_event_reaches_ingresses:
  assumes "sets_ok (mciDeps h)" and "semantic_ok (mciDeps h)"
    and "cached (mciDeps h) (mciClient h) ms cs (env s)"
    and "changed \<longleftrightarrow> Annotations old \<noteq> Annotations svc \<or>
      \<not> SemanticServiceSpec (mciDeps h) (svcSpec old) (svcSpec svc) \<or>
      (DeletionTimestamp old = None) \<noteq> (DeletionTimestamp svc = None)"
    and "(e, b) \<in> {(CreateEvent svc, True), (DeleteEvent svc, True), (UpdateEvent old svc, changed)}"
  shows "set (fst (run_state (mci_setupWatches h (WatchService e)) s)) =
    (if b then key_of ` {m \<in> set ms. ours (mciDeps h) cs (mciProviderClassName h) m \<and>
        Namespace m = Namespace svc \<and> only_services m \<and> refers_to_service m (Name svc)}
     else {})"
proof (cases b)
  case True
  then have "mci_serviceEventHandler (mciDeps h) (mciClient h) e =
      mci_enqueueImpactedMCI_svc (mciClient h) (Namespace svc) (Name svc)"
    using assms(4,5) by (auto simp: semantic_okD [OF assms(2)] IsZero_def)
  then have "fst (run_state (mci_setupWatches h (WatchService e)) s) =
      keys_of_ours h cs ms (refers (mciDeps h) (Namespace svc) (Name svc))"
    using run_service_list [OF assms(3), of "Namespace svc" "Name svc"] by auto
  then show ?thesis using True by (auto simp: keys_of_ours_def refers_iff [OF assms(1)])
next
  case False
  then have "mci_serviceEventHandler (mciDeps h) (mciClient h) e = ret []"
    using assms(4,5) by (auto simp: semantic_okD [OF assms(2)] IsZero_def)
  then show ?thesis using False by (simp add: on_mciEventChan_def)
qed

text \<open>
  When a secret is created or deleted, or updated in its annotations or its data, the requests
  that reach the queue are those of the ingresses of this provider in its namespace whose TLS
  part names it; another update reaches none.
\<close>

lemma mci_secret_event_reaches_ingresses:
  assumes "sets_ok (mciDeps h)" and "semantic_ok (mciDeps h)"
    and "cached (mciDeps h) (mciClient h) ms cs (env s)"
    and "changed \<longleftrightarrow> Annotations old \<noteq> Annotations secret \<or>
      \<not> SemanticData (mciDeps h) (Data old) (Data secret) \<or> StringData old \<noteq> StringData secret"
    and "(e, b) \<in> {(CreateEvent secret, True), (DeleteEvent secret, True), (UpdateEvent old secret, changed)}"
  shows "set (fst (run_state (mci_setupWatches h (WatchSecret e)) s)) =
    (if b then key_of ` {m \<in> set ms. ours (mciDeps h) cs (mciProviderClassName h) m \<and>
        Namespace m = Namespace secret \<and> Name secret \<in> SecretName ` set (elems (TLS (mciSpec m)))}
     else {})"
proof (cases b)
  case True
  then have "mci_secretEventHandler (mciDeps h) (mciClient h) e =
      mci_enqueueImpactedMCI_secret (mciClient h) (Namespace secret) (Name secret)"
    using assms(4,5) by (auto simp: semantic_okD [OF assms(2)])
  then have "fst (run_state (mci_setupWatches h (WatchSecret e)) s) = keys_of_ours h cs ms
      (\<lambda>m. Namespace m = Namespace secret \<and> Name secret \<in> set (BuildSecretRefIndexes (mciDeps h) m))"
    using run_secret_list [OF assms(3), of "Namespace secret" "Name secret"] by auto
  then show ?thesis using True by (auto simp: keys_of_ours_def uses_secret_iff [OF assms(1)])
next
  case False
  then have "mci_secretEventHandler (mciDeps h) (mciClient h) e = ret []"
    using assms(4,5) by (auto simp: semantic_okD [OF assms(2)])
  then show ?thesis using False by (simp add: on_mciEventChan_def)
qed

text \<open>
  An update of a cluster reaches the queue only when it starts or ends traffic control, and
  then with the requests of the ingresses of this provider that have a service located in the
  cluster; other events of clusters reach nothing.
\<close>

lemma mci_cluster_event_reaches_ingresses:
  assumes "cached (mciDeps h) (mciClient h) ms cs (env s)"
    and "controlled = (\<lambda>cl. TrafficControl (mciDeps h) \<in> set (elems (RemedyActions cl)))"
  shows "set (fst (run_state (mci_setupWatches h (WatchCluster (UpdateEvent old cluster))) s)) =
      (if controlled old = controlled cluster then {}
       else key_of ` {m \<in> set ms. ours (mciDeps h) cs (mciProviderClassName h) m \<and>
         (\<exists>loc \<in> set (elems (ServiceLocations (mciStatus m))). Name cluster \<in> set (elems (LocationClusters loc)))}) \<and>
    fst (run_state (mci_setupWatches h (WatchCluster (CreateEvent cluster))) s) = [] \<and>
    fst (run_state (mci_setupWatches h (WatchCluster (DeleteEvent cluster))) s) = []"
proof (cases "controlled old = controlled cluster")
  case True
  then show ?thesis using assms(2) by (simp add: has_action_iff on_mciEventChan_def)
next
  case False
  then have "fst (run_state (mci_setupWatches h (WatchCluster (UpdateEvent old cluster))) s) =
      keys_of_ours h cs ms (\<lambda>m. mciSvcLocationsContainsCluster m cluster)"
    using run_cluster_list [OF assms(1), of old cluster] assms(2) by (auto simp: has_action_iff)
  then show ?thesis using False
    by (auto simp: keys_of_ours_def mciSvcLocationsContainsCluster_def locations_contain_iff on_mciEventChan_def)
qed

text \<open>
  An update that changes only what the controllers themselves write (the status, the
  finalizers, the resource version) enqueues nothing, so a reconcile does not trigger itself.
\<close>

lemma mci_own_writes_enqueue_nothing:
  assumes "semantic_ok (mciDeps h)"
  shows "fst (run_state (mci_setupWatches h (WatchMCI
    (UpdateEvent mci (mci\<lparr>Finalizers := fs, ResourceVersion := rv, mciStatus := st\<rparr>)))) s) = []"
proof -
  obtain m s' where "run_state (CheckIngressClassMatched (mciDeps h) (mciClient h)
      (mci\<lparr>Finalizers := fs, ResourceVersion := rv, mciStatus := st\<rparr>) (mciProviderClassName h)) s = (m, s')"
    by (metis surj_pair)
  then show ?thesis by (simp add: semantic_okD [OF assms])
qed

text \<open>
  C25: whether an ingress belongs to this provider is decided by the class that governs it: the class
  it names, or the one class of the cache marked as default; it belongs to the provider exactly
  if that class exists and names the provider as its controller.
\<close>

theorem class_check_decides:
  assumes "cached d c ms cs (env s)"
  shows "fst (run_state (CheckIngressClassMatched d c mci provider) s) \<longleftrightarrow>
    (\<exists>n cls. (IngressClassName (mciSpec mci) = Some n \<or>
        IngressClassName (mciSpec mci) = None \<and> n \<noteq> '''' \<and>
        (\<exists>cls1. filter (\<lambda>x. Annotations x (AnnotationIsDefaultIngressClass d) = Some ''true'') cs = [cls1] \<and>
          Name cls1 = n)) \<and>
      find (\<lambda>x. key_of x = ('''', n)) cs = Some cls \<and> ClassController cls = provider)"
proof -
  obtain l where "run_state (CheckIngressClassMatched d c mci provider) s = (ours d cs provider mci, s\<lparr>calls := l\<rparr>)"
    using run_CheckIngressClassMatched_cached [OF assms] by blast
  moreover have "is_default d = (\<lambda>x. Annotations x (AnnotationIsDefaultIngressClass d) = Some ''true'')"
    by (rule ext) (simp add: is_default_def)
  ultimately show ?thesis
    by (auto simp: ours_def governed_by_def governing_class_def split: option.splits list.splits if_splits)
qed

lemma class_check_decides_witness:
  "fst (run_state (CheckIngressClassMatched std_deps (mem_server std_deps) sample_mci ''fake'') watch_world)"
proof -
  have "cached std_deps (mem_server std_deps) [sample_mci] [sample_class] (env watch_world)"
    using mem_server_cached [of std_deps "env watch_world"] by (simp add: watch_world_def)
  then show ?thesis
    unfolding class_check_decides [OF \<open>cached std_deps (mem_server std_deps) [sample_mci] [sample_class] (env watch_world)\<close>]
    by (simp add: sample_mci_def sample_class_def meta_literal_def ObjectMeta.defs key_of_def)
qed

lemma keys_of_oursD:
  "k \<in> set (keys_of_ours h cs ms P) \<Longrightarrow>
    \<exists>m. key_of m = k \<and> ours (mciDeps h) cs (mciProviderClassName h) m \<and> m \<in> set ms"
  by (auto simp: keys_of_ours_def)

text \<open>Events of other objects reach the queue through lists of the cache only.\<close>

lemma none_listed: "\<exists>P. [] = keys_of_ours h cs ms P"
  by (rule exI [of _ "\<lambda>m. False"]) (simp add: keys_of_ours_def)

lemma service_watch_lists:
  assumes "cached (mciDeps h) (mciClient h) ms cs (env s)"
  shows "\<exists>P. fst (run_state (mci_setupWatches h (WatchService ev)) s) = keys_of_ours h cs ms P"
  using run_service_list [OF assms, of "Namespace (event_object ev)" "Name (event_object ev)"]
  by (cases ev) (auto simp: on_mciEventChan_def intro: none_listed)

lemma secret_watch_lists:
  assumes "cached (mciDeps h) (mciClient h) ms cs (env s)"
  shows "\<exists>P. fst (run_state (mci_setupWatches h (WatchSecret ev)) s) = keys_of_ours h cs ms P"
  using run_secret_list [OF assms, of "Namespace (event_object ev)" "Name (event_object ev)"]
  by (cases ev) (auto simp: on_mciEventChan_def intro: none_listed)

lemma slice_watch_lists:
  assumes "cached (mciDeps h) (mciClient h) ms cs (env s)"
  shows "\<exists>P. fst (run_state (mci_setupWatches h (WatchSlice ev)) s) = keys_of_ours h cs ms P"
proof -
  have "mci_endpointSlicesEventHandler (mciDeps h) ev = [] \<or>
      (\<exists>ns n. mci_endpointSlicesEventHandler (mciDeps h) ev = [service_literal ns n])"
    by (cases ev) (auto simp: mci_enqueueImpactedSvc_def split: option.splits)
  then show ?thesis
  proof (elim disjE exE)
    assume "mci_endpointSlicesEventHandler (mciDeps h) ev = []"
    then show ?thesis by (auto simp: on_svcEventChan_def intro: none_listed)
  next
    fix ns n
    assume "mci_endpointSlicesEventHandler (mciDeps h) ev = [service_literal ns n]"
    then show ?thesis using run_on_svcEventChan [OF assms, of ns n] by fastforce
  qed
qed

lemma cluster_watch_lists:
  assumes "cached (mciDeps h) (mciClient h) ms cs (env s)"
  shows "\<exists>P. fst (run_state (mci_setupWatches h (WatchCluster ev)) s) = keys_of_ours h cs ms P"
proof (cases ev)
  case (UpdateEvent c1 c2)
  show ?thesis
  proof (cases "has_action (TrafficControl (mciDeps h)) (elems (RemedyActions c1)) =
      has_action (TrafficControl (mciDeps h)) (elems (RemedyActions c2))")
    case True
    then show ?thesis using UpdateEvent by (auto simp: on_mciEventChan_def intro: none_listed)
  next
    case False
    then show ?thesis using run_cluster_list [OF assms, of c1 c2] unfolding UpdateEvent by (metis fst_conv)
  qed
qed (auto simp: on_mciEventChan_def intro: none_listed)

lemmas watch_lists = service_watch_lists secret_watch_lists slice_watch_lists cluster_watch_lists

text \<open>The object of an event of an ingress that can reach the queue by itself.\<close>

fun concerns :: "mci_watched \<Rightarrow> MultiClusterIngress \<Rightarrow> bool" where
  "concerns (WatchMCI (CreateEvent x)) m \<longleftrightarrow> m = x"
| "concerns (WatchMCI (UpdateEvent old x)) m \<longleftrightarrow> m = x"
| "concerns (WatchMCI (GenericEvent x)) m \<longleftrightarrow> m = x"
| "concerns _ m \<longleftrightarrow> False"

text \<open>
  C24: whatever is watched, only ingresses that belong to this provider reach the queue: the one the
  event is about, in its new version, or one of the cache. In particular an ingress that has
  changed to a class of another provider is not reconciled any more by its own events, not even
  to be released when it is deleted.
\<close>

theorem mci_requests_are_ours:
  assumes "cached (mciDeps h) (mciClient h) ms cs (env s)"
    and "k \<in> set (fst (run_state (mci_setupWatches h e) s))"
  shows "\<exists>m. key_of m = k \<and> ours (mciDeps h) cs (mciProviderClassName h) m \<and> (m \<in> set ms \<or> concerns e m)"
proof -
  have own: "\<exists>l. run_state (CheckIngressClassMatched (mciDeps h) (mciClient h) m (mciProviderClassName h)) s =
      (ours (mciDeps h) cs (mciProviderClassName h) m, s\<lparr>calls := l\<rparr>)" for m
    by (rule run_CheckIngressClassMatched_cached [OF assms(1)])
  have listed: ?thesis if "\<exists>P. fst (run_state (mci_setupWatches h e) s) = keys_of_ours h cs ms P"
    using that assms(2) keys_of_oursD by fastforce
  show ?thesis
  proof (cases e)
    case (WatchMCI ev)
    then show ?thesis using own [of "event_object ev"] assms(2) by (cases ev) (auto split: if_splits)
  qed (use listed watch_lists [OF assms(1)] in blast)+
qed

lemma mci_requests_are_ours_witness:
  "fst (run_state (mci_setupWatches test_mci_controller (WatchMCI
     (UpdateEvent sample_mci (sample_mci\<lparr>mciSpec := (mciSpec sample_mci)\<lparr>IngressClassName := Some ''other''\<rparr>,
       DeletionTimestamp := Some ''now''\<rparr>)))) (watch_world\<lparr>env := (env watch_world)\<lparr>apiMCIs := []\<rparr>\<rparr>)) = []"
proof -
  let ?m = "sample_mci\<lparr>mciSpec := (mciSpec sample_mci)\<lparr>IngressClassName := Some ''other''\<rparr>,
    DeletionTimestamp := Some ''now''\<rparr>"
  let ?s = "watch_world\<lparr>env := (env watch_world)\<lparr>apiMCIs := []\<rparr>\<rparr>"
  have cached: "cached (mciDeps test_mci_controller) (mciClient test_mci_controller) [] [sample_class] (env ?s)"
    using mem_server_cached [of std_deps "env ?s"] by (simp add: watch_world_def)
  have "\<not> ours (mciDeps test_mci_controller) [sample_class] (mciProviderClassName test_mci_controller) ?m"
    by (simp add: ours_def governed_by_def governing_class_def sample_class_def meta_literal_def ObjectMeta.defs key_of_def)
  then have none: "\<not> (\<exists>m. key_of m = k \<and> ours (mciDeps test_mci_controller) [sample_class]
      (mciProviderClassName test_mci_controller) m \<and> (m \<in> set [] \<or> concerns (WatchMCI (UpdateEvent sample_mci ?m)) m))" for k
    unfolding concerns.simps set_simps by blast
  have "k \<notin> set (fst (run_state (mci_setupWatches test_mci_controller (WatchMCI (UpdateEvent sample_mci ?m))) ?s))" for k
    by (rule notI, drule mci_requests_are_ours [OF cached]) (use none [of k] in contradiction)
  then have "set (fst (run_state (mci_setupWatches test_mci_controller (WatchMCI (UpdateEvent sample_mci ?m))) ?s)) = {}"
    by (simp only: set_eq_iff empty_iff simp_thms)
  then show ?thesis by (simp only: set_empty)
qed

end
