(* ===== verification/EventLoop.thy ===== *)
theory EventLoop
  imports Cloud
begin

text \<open>
  A controller as controller-runtime runs it: changes put events in flight, a handler turns an event
  that arrives into keys in the queue, and the reconcile of a key runs to its
  end, or fails and is repeated. The contract
  \<open>event_loop\<close> says what a handler and a reconcile owe each other, and what follows from it: the
  work ends once the others pause, and then every object is settled.
\<close>

section \<open>The loop\<close>

text \<open>
  Events may overtake each other, and any key of the queue may be the next. The queue holds a key at
  most once (client-go's workqueue); a key whose reconcile failed is added again. A handler reads
  the world through caches; what it reads does not change it. Besides the reconciles that run to
  their end (\<open>recon\<close>) there may be some whose calls failed somewhere on the way and that returned an
  error (\<open>hampers k w w'\<close>: one of \<open>k\<close> that leaves \<open>w'\<close>); they happen as long as somebody disturbs them,
  like the moves of others.
\<close>

record ('w, 'e, 'q) loop =
  loopWorld :: 'w
  loopEvents :: "'e list"
  loopQueue :: "'q list"

fun enqueue :: "'q list \<Rightarrow> 'q list \<Rightarrow> 'q list" where
  "enqueue q [] = q"
| "enqueue q (k # ks) = enqueue (if k \<in> set q then q else q @ [k]) ks"

definition announce :: "'e list \<Rightarrow> 'w \<Rightarrow> ('w, 'e, 'q) loop \<Rightarrow> ('w, 'e, 'q) loop" where
  "announce es w S = S\<lparr>loopWorld := w, loopEvents := loopEvents S @ es\<rparr>"

definition deliver :: "('e \<Rightarrow> 'w \<Rightarrow> 'q list) \<Rightarrow> 'e \<Rightarrow> 'e list \<Rightarrow> ('w, 'e, 'q) loop \<Rightarrow> ('w, 'e, 'q) loop" where
  "deliver handle e es S = S\<lparr>loopEvents := es, loopQueue := enqueue (loopQueue S) (handle e (loopWorld S))\<rparr>"

definition process :: "('q \<Rightarrow> 'w \<Rightarrow> error option \<times> 'w) \<Rightarrow> 'q \<Rightarrow> ('w, 'e, 'q) loop \<Rightarrow> ('w, 'e, 'q) loop" where
  "process recon k S =
     (case recon k (loopWorld S) of
        (err, w) \<Rightarrow> S\<lparr>loopWorld := w, loopQueue := (if err = None then removeAll k (loopQueue S)
          else removeAll k (loopQueue S) @ [k])\<rparr>)"

inductive work_step ::
  "('e \<Rightarrow> 'w \<Rightarrow> 'q list) \<Rightarrow> ('q \<Rightarrow> 'w \<Rightarrow> error option \<times> 'w) \<Rightarrow> ('w, 'e, 'q) loop \<Rightarrow> ('w, 'e, 'q) loop \<Rightarrow> bool"
  for handle recon where
  delivered: "loopEvents S = es @ e # es' \<Longrightarrow> work_step handle recon S (deliver handle e (es @ es') S)"
| reconciled: "k \<in> set (loopQueue S) \<Longrightarrow> work_step handle recon S (process recon k S)"

definition requeue :: "'q \<Rightarrow> 'w \<Rightarrow> ('w, 'e, 'q) loop \<Rightarrow> ('w, 'e, 'q) loop" where
  "requeue k w S = S\<lparr>loopWorld := w, loopQueue := removeAll k (loopQueue S) @ [k]\<rparr>"

inductive loop_runs ::
  "('w \<Rightarrow> bool) \<Rightarrow> ('w \<Rightarrow> 'e list \<Rightarrow> 'w \<Rightarrow> bool) \<Rightarrow> ('q \<Rightarrow> 'w \<Rightarrow> 'w \<Rightarrow> bool) \<Rightarrow> ('e \<Rightarrow> 'w \<Rightarrow> 'q list)
    \<Rightarrow> ('q \<Rightarrow> 'w \<Rightarrow> error option \<times> 'w) \<Rightarrow> ('w, 'e, 'q) loop \<Rightarrow> bool"
  for init others hampers handle recon where
  start: "init w \<Longrightarrow> loop_runs init others hampers handle recon \<lparr>loopWorld = w, loopEvents = [], loopQueue = []\<rparr>"
| moved: "loop_runs init others hampers handle recon S \<Longrightarrow> others (loopWorld S) es w \<Longrightarrow>
    loop_runs init others hampers handle recon (announce es w S)"
| hampered: "loop_runs init others hampers handle recon S \<Longrightarrow> k \<in> set (loopQueue S) \<Longrightarrow> hampers k (loopWorld S) w \<Longrightarrow>
    loop_runs init others hampers handle recon (requeue k w S)"
| work: "loop_runs init others hampers handle recon S \<Longrightarrow> work_step handle recon S S' \<Longrightarrow>
    loop_runs init others hampers handle recon S'"

inductive_cases work_stepE: "work_step handle recon S S'"

definition at_rest :: "('w, 'e, 'q) loop \<Rightarrow> bool" where
  "at_rest S \<longleftrightarrow> loopEvents S = [] \<and> loopQueue S = []"

text \<open>Left to itself the loop ends: no infinite sequence of steps, and it stops only at rest.\<close>

definition comes_to_rest ::
  "('e \<Rightarrow> 'w \<Rightarrow> 'q list) \<Rightarrow> ('q \<Rightarrow> 'w \<Rightarrow> error option \<times> 'w) \<Rightarrow> ('w, 'e, 'q) loop \<Rightarrow> bool" where
  "comes_to_rest handle recon S \<longleftrightarrow> Wellfounded.accp (\<lambda>S' S. work_step handle recon S S') S \<and>
     (\<forall>S'. (work_step handle recon)\<^sup>*\<^sup>* S S' \<longrightarrow> (\<nexists>T. work_step handle recon S' T) \<longrightarrow> at_rest S')"

lemma loop_fields [simp]:
  "loopWorld (announce es w S) = w" "loopQueue (announce es w S) = loopQueue S"
  "loopEvents (announce es w S) = loopEvents S @ es"
  "loopWorld (deliver handle e es S) = loopWorld S" "loopEvents (deliver handle e es S) = es"
  "loopQueue (deliver handle e es S) = enqueue (loopQueue S) (handle e (loopWorld S))"
  "loopWorld (requeue k w S) = w" "loopEvents (requeue k w S) = loopEvents S"
  "loopQueue (requeue k w S) = removeAll k (loopQueue S) @ [k]"
  by (simp_all add: announce_def deliver_def requeue_def)

lemma set_enqueue [simp]: "set (enqueue q ks) = set q \<union> set ks"
  by (induction q ks rule: enqueue.induct) auto

lemma distinct_enqueue [simp]: "distinct q \<Longrightarrow> distinct (enqueue q ks)"
  by (induction q ks rule: enqueue.induct) auto

lemma loop_runs_more:
  assumes "loop_runs init others h handle recon S" and "\<And>k w w'. h k w w' \<Longrightarrow> h' k w w'"
  shows "loop_runs init others h' handle recon S"
  using assms(1) by (induction rule: loop_runs.induct) (auto intro: loop_runs.intros assms(2))

text \<open>A loop that can do nothing more is at rest.\<close>

lemma idle_at_rest: "(\<nexists>S'. work_step handle recon S S') \<longleftrightarrow> at_rest S"
proof
  assume idle: "\<nexists>S'. work_step handle recon S S'"
  have "loopEvents S = []"
  proof (rule ccontr)
    assume "loopEvents S \<noteq> []"
    then obtain e es where "loopEvents S = [] @ e # es" by (cases "loopEvents S") auto
    then show False using idle work_step.delivered [of S "[]" e es handle recon] by blast
  qed
  moreover have "loopQueue S = []"
  proof (rule ccontr)
    assume "loopQueue S \<noteq> []"
    then have "hd (loopQueue S) \<in> set (loopQueue S)" by simp
    then show False using idle work_step.reconciled [of "hd (loopQueue S)" S handle recon] by blast
  qed
  ultimately show "at_rest S" by (simp add: at_rest_def)
qed (auto simp: at_rest_def elim: work_stepE)

section \<open>The contract\<close>

text \<open>
  \<open>settled w i\<close>: what \<open>i\<close> names needs no work in world \<open>w\<close>. \<open>awaits w k i\<close>: the next reconcile of \<open>k\<close>
  will settle \<open>i\<close>. \<open>covers w e i\<close>: the event \<open>e\<close>, when it arrives, will put such a \<open>k\<close> into the queue. A
  change that leaves something unsettled announces an event that covers it, and undoes the cover of
  nothing else; a covering event that arrives is handled; a reconcile succeeds, settles what awaits
  it and unsettles nothing.
\<close>

definition keeps_up ::
  "('w \<Rightarrow> bool) \<Rightarrow> ('w \<Rightarrow> 'i \<Rightarrow> bool) \<Rightarrow> ('w \<Rightarrow> 'e \<Rightarrow> 'i \<Rightarrow> bool) \<Rightarrow> ('w \<Rightarrow> 'q \<Rightarrow> 'i \<Rightarrow> bool)
    \<Rightarrow> 'w \<Rightarrow> 'e list \<Rightarrow> 'w \<Rightarrow> bool" where
  "keeps_up ok settled covers awaits w es w' \<longleftrightarrow> ok w' \<and>
     (\<forall>i. settled w i \<longrightarrow> settled w' i \<or> (\<exists>e \<in> set es. covers w' e i)) \<and>
     (\<forall>i e. covers w e i \<longrightarrow> settled w' i \<or> covers w' e i \<or> (\<exists>e' \<in> set es. covers w' e' i)) \<and>
     (\<forall>i k. awaits w k i \<longrightarrow> settled w' i \<or> awaits w' k i \<or> (\<exists>e \<in> set es. covers w' e i))"

text \<open>When a key awaits only what it names, and one event is announced.\<close>

lemma keeps_up_oneI:
  assumes "ok w'" and "\<And>i. settled w i \<Longrightarrow> settled w' i \<or> covers w' e i"
    and "\<And>i e'. covers w e' i \<Longrightarrow> settled w' i \<or> covers w' e' i \<or> covers w' e i"
  shows "keeps_up ok settled covers (\<lambda>_. (=)) w [e] w'"
  using assms by (auto simp: keeps_up_def)

text \<open>
  A reconcile of \<open>k\<close> that was hampered may leave what awaits \<open>k\<close> unsettled, as \<open>k\<close> comes again, and
  owes the rest what every change owes it.
\<close>

abbreviation harmless ::
  "('w \<Rightarrow> bool) \<Rightarrow> ('w \<Rightarrow> 'i \<Rightarrow> bool) \<Rightarrow> ('w \<Rightarrow> 'e \<Rightarrow> 'i \<Rightarrow> bool) \<Rightarrow> ('w \<Rightarrow> 'q \<Rightarrow> 'i \<Rightarrow> bool)
    \<Rightarrow> 'q \<Rightarrow> 'w \<Rightarrow> 'w \<Rightarrow> bool" where
  "harmless ok settled covers awaits k w w' \<equiv>
     keeps_up ok (\<lambda>w i. settled w i \<or> awaits w k i) covers awaits w [] w'"

lemma harmless_oneI:
  assumes "ok w'" and "\<And>i. i \<noteq> k \<Longrightarrow> settled w i \<Longrightarrow> settled w' i"
    and "\<And>i e. i \<noteq> k \<Longrightarrow> covers w e i \<Longrightarrow> settled w' i \<or> covers w' e i"
  shows "harmless ok settled covers (\<lambda>_. (=)) k w w'"
  using assms by (simp add: keeps_up_def) metis

locale event_loop =
  fixes init :: "'w \<Rightarrow> bool" and others :: "'w \<Rightarrow> 'e list \<Rightarrow> 'w \<Rightarrow> bool"
    and hampers :: "'q \<Rightarrow> 'w \<Rightarrow> 'w \<Rightarrow> bool" and handle :: "'e \<Rightarrow> 'w \<Rightarrow> 'q list" and recon :: "'q \<Rightarrow> 'w \<Rightarrow> error option \<times> 'w"
    and ok :: "'w \<Rightarrow> bool" and settled :: "'w \<Rightarrow> 'i \<Rightarrow> bool" and covers :: "'w \<Rightarrow> 'e \<Rightarrow> 'i \<Rightarrow> bool"
    and awaits :: "'w \<Rightarrow> 'q \<Rightarrow> 'i \<Rightarrow> bool"
  assumes init_ok: "init w \<Longrightarrow> ok w" and init_settled: "init w \<Longrightarrow> settled w i"
    and others_keep_up: "ok w \<Longrightarrow> others w es w' \<Longrightarrow> keeps_up ok settled covers awaits w es w'"
    and hampered_harmless: "ok w \<Longrightarrow> hampers k w w' \<Longrightarrow> harmless ok settled covers awaits k w w'"
    and covered: "ok w \<Longrightarrow> covers w e i \<Longrightarrow> settled w i \<or> (\<exists>k \<in> set (handle e w). awaits w k i)"
    and recon_settles: "ok w \<Longrightarrow> \<exists>w'. recon k w = (None, w') \<and> (\<forall>i. awaits w k i \<longrightarrow> settled w' i) \<and>
      keeps_up ok settled covers awaits w [] w'"
begin

definition attended_one :: "('w, 'e, 'q) loop \<Rightarrow> 'i \<Rightarrow> bool" where
  "attended_one S i \<longleftrightarrow> settled (loopWorld S) i \<or> (\<exists>k \<in> set (loopQueue S). awaits (loopWorld S) k i) \<or>
     (\<exists>e \<in> set (loopEvents S). covers (loopWorld S) e i)"

definition attended :: "('w, 'e, 'q) loop \<Rightarrow> bool" where
  "attended S \<longleftrightarrow> ok (loopWorld S) \<and> distinct (loopQueue S) \<and> (\<forall>i. attended_one S i)"

lemma moved_attended:
  assumes "attended S" and "others (loopWorld S) es w"
  shows "attended (announce es w S)"
proof -
  have up: "keeps_up ok settled covers awaits (loopWorld S) es w"
    using others_keep_up assms by (simp add: attended_def)
  have "attended_one (announce es w S) i" for i
  proof -
    have "attended_one S i" using assms(1) by (simp add: attended_def)
    then show ?thesis using up unfolding attended_one_def keeps_up_def loop_fields set_append by blast
  qed
  then show ?thesis using assms(1) up by (simp add: attended_def keeps_up_def)
qed

lemma process_attended:
  assumes "attended S"
  shows "attended (process recon k S)" and "loopQueue (process recon k S) = removeAll k (loopQueue S)"
    and "loopEvents (process recon k S) = loopEvents S"
proof -
  obtain w where w: "recon k (loopWorld S) = (None, w)" and now: "\<And>i. awaits (loopWorld S) k i \<Longrightarrow> settled w i"
    and up: "keeps_up ok settled covers awaits (loopWorld S) [] w"
    using recon_settles [of "loopWorld S" k] assms by (auto simp: attended_def)
  have S': "process recon k S = S\<lparr>loopWorld := w, loopQueue := removeAll k (loopQueue S)\<rparr>"
    by (simp add: process_def w)
  then show "loopQueue (process recon k S) = removeAll k (loopQueue S)" "loopEvents (process recon k S) = loopEvents S"
    by simp_all
  have up': "\<And>i. settled (loopWorld S) i \<Longrightarrow> settled w i" "\<And>i e. covers (loopWorld S) e i \<Longrightarrow> settled w i \<or> covers w e i"
      "\<And>i j. awaits (loopWorld S) j i \<Longrightarrow> settled w i \<or> awaits w j i"
    using up by (simp_all add: keeps_up_def)
  have "attended_one (process recon k S) i" for i
  proof -
    have "attended_one S i" using assms by (simp add: attended_def)
    then consider (settled) "settled (loopWorld S) i" | (now) "awaits (loopWorld S) k i"
      | (queued) j where "j \<in> set (removeAll k (loopQueue S))" "awaits (loopWorld S) j i"
      | (covered) e where "e \<in> set (loopEvents S)" "covers (loopWorld S) e i"
      unfolding attended_one_def set_removeAll by blast
    then have "settled w i \<or> (\<exists>j \<in> set (removeAll k (loopQueue S)). awaits w j i) \<or> (\<exists>e \<in> set (loopEvents S). covers w e i)"
      using now up' by cases blast+
    then show ?thesis by (simp add: attended_one_def S')
  qed
  then show "attended (process recon k S)"
    using assms up by (simp add: attended_def keeps_up_def S' distinct_removeAll)
qed

lemma delivered_attended:
  assumes "attended S" and "loopEvents S = es @ e # es'"
  shows "attended (deliver handle e (es @ es') S)"
proof -
  have "attended_one (deliver handle e (es @ es') S) i" for i
  proof -
    have ok: "ok (loopWorld S)" and "attended_one S i" using assms(1) by (simp_all add: attended_def)
    then show ?thesis
      using covered [OF ok, of e i] assms(2) unfolding attended_one_def loop_fields set_enqueue by auto
  qed
  then show ?thesis using assms(1) by (simp add: attended_def)
qed

lemma work_attended:
  assumes "work_step handle recon S S'" and "attended S"
  shows "attended S'"
  using assms(1)
proof (cases rule: work_step.cases)
  case (delivered es e es')
  then show ?thesis using delivered_attended [OF assms(2)] by simp
next
  case (reconciled k)
  then show ?thesis using process_attended(1) [OF assms(2)] by simp
qed

lemma hampered_attended:
  assumes "attended S" and "k \<in> set (loopQueue S)" and "hampers k (loopWorld S) w"
  shows "attended (requeue k w S)"
proof -
  have up: "harmless ok settled covers awaits k (loopWorld S) w"
    using hampered_harmless assms(1,3) by (simp add: attended_def)
  have "attended_one (requeue k w S) i" for i
  proof -
    have "attended_one S i" using assms(1) by (simp add: attended_def)
    then have "settled w i \<or> awaits w k i \<or> (\<exists>j \<in> set (loopQueue S). awaits w j i) \<or> (\<exists>e \<in> set (loopEvents S). covers w e i)"
      using up unfolding attended_one_def keeps_up_def list.set by blast
    then show ?thesis by (auto simp: attended_one_def)
  qed
  then show ?thesis using assms(1) up by (auto simp: attended_def keeps_up_def distinct_removeAll)
qed

theorem runs_attended: "loop_runs init others hampers handle recon S \<Longrightarrow> attended S"
proof (induction rule: loop_runs.induct)
  case (start w)
  then show ?case using init_ok init_settled by (simp add: attended_def attended_one_def)
qed (auto intro: moved_attended hampered_attended work_attended)

lemma runs_ok: "loop_runs init others hampers handle recon S \<Longrightarrow> ok (loopWorld S)"
  using runs_attended by (simp add: attended_def)

text \<open>At rest, everything is settled.\<close>

theorem rest_settled: "loop_runs init others hampers handle recon S \<Longrightarrow> at_rest S \<Longrightarrow> settled (loopWorld S) i"
  using runs_attended [of S] by (auto simp: attended_def attended_one_def at_rest_def)

text \<open>Each step takes an event out of flight, or a key out of the queue.\<close>

lemma work_decreases:
  assumes "work_step handle recon S S'" and "attended S"
  shows "((length (loopEvents S'), length (loopQueue S')), (length (loopEvents S), length (loopQueue S)))
    \<in> less_than <*lex*> less_than"
  using assms(1)
proof (cases rule: work_step.cases)
  case (reconciled k)
  then have "length (removeAll k (loopQueue S)) < length (loopQueue S)"
    by (simp add: length_removeAll_less)
  then show ?thesis using reconciled process_attended(2,3) [OF assms(2), of k] by simp
qed simp

lemma attended_work_ends: "attended S \<Longrightarrow> Wellfounded.accp (\<lambda>S' S. work_step handle recon S S') S"
proof (induction "(length (loopEvents S), length (loopQueue S))" arbitrary: S
    rule: wf_induct_rule [OF wf_lex_prod [OF wf_less_than wf_less_than]])
  case (1 S)
  show ?case
  proof (rule accpI)
    fix S' assume step: "work_step handle recon S S'"
    show "Wellfounded.accp (\<lambda>S' S. work_step handle recon S S') S'"
      by (rule 1(1) [OF work_decreases [OF step 1(2)] work_attended [OF step 1(2)]])
  qed
qed

theorem work_ends: "loop_runs init others hampers handle recon S \<Longrightarrow> comes_to_rest handle recon S"
  using attended_work_ends [OF runs_attended] idle_at_rest unfolding comes_to_rest_def by blast

end

end
