(* ===== verification/Owners.thy ===== *)
theory Owners
  imports Testbed
begin

text \<open>
  A store of objects next to a provider that holds balancers under the objects' names: the store is
  well kept, each balancer has an owner with the controller's finalizer, and each object with the
  finalizer has its balancer; and what a change of one object leaves of this.
\<close>

definition name_of :: "key \<Rightarrow> string" where
  "name_of = NamespacedNameString std_deps"

definition well_kept :: "('a ObjectMeta_scheme \<Rightarrow> bool) \<Rightarrow> 'a ObjectMeta_scheme list \<Rightarrow> bool" where
  "well_kept good xs \<longleftrightarrow> distinct (map key_of xs) \<and> (\<forall>x \<in> set xs. good x \<and> CHR ''/'' \<notin> set (Namespace x))"

definition owned_by :: "string \<Rightarrow> (string \<Rightarrow> bool) \<Rightarrow> 'a ObjectMeta_scheme list \<Rightarrow> bool" where
  "owned_by f held xs \<longleftrightarrow> (\<forall>n. held n \<longrightarrow>
     (\<exists>x \<in> set xs. name_of (key_of x) = n \<and> f \<in> set (Finalizers x)))"

definition serves :: "string \<Rightarrow> (string \<Rightarrow> bool) \<Rightarrow> 'a ObjectMeta_scheme list \<Rightarrow> bool" where
  "serves f held xs \<longleftrightarrow> (\<forall>x \<in> set xs. f \<in> set (Finalizers x) \<longrightarrow> held (name_of (key_of x)))"

section \<open>Names\<close>

lemma name_of_inj:
  assumes "name_of (key_of x) = name_of (key_of y)" and "CHR ''/'' \<notin> set (Namespace x)" and "CHR ''/'' \<notin> set (Namespace y)"
  shows "key_of x = key_of y"
  using slash_inj [of "Namespace x" "Name x" "Namespace y" "Name y"] assms by (simp add: key_of_def name_of_def)

lemma namespace_key: "key_of z = key_of m \<Longrightarrow> Namespace z = Namespace m"
  by (metis fst_conv key_of_def)

section \<open>A well-kept store\<close>

lemma well_keptD:
  "well_kept good xs \<Longrightarrow> find_key k xs = Some m \<Longrightarrow> good m \<and> CHR ''/'' \<notin> set (Namespace m)"
  using find_keyD [of k xs m] by (simp add: well_kept_def)

lemma well_kept_find: "well_kept good xs \<Longrightarrow> x \<in> set xs \<Longrightarrow> find_key (key_of x) xs = Some x"
  by (simp add: well_kept_def find_distinct)

lemma well_kept_member: "well_kept good xs \<Longrightarrow> x \<in> set xs \<longleftrightarrow> find_key (key_of x) xs = Some x"
  using well_kept_find find_keyD by blast

lemma well_kept_put:
  assumes "well_kept good xs" and "find_key (key_of m') xs = Some m" and "good m'"
  shows "well_kept good (put_key m' xs)"
  using assms put_key_subset [of m' xs] well_keptD [OF assms(1,2)] namespace_key [of m' m] find_keyD [OF assms(2)]
  by (auto simp: well_kept_def put_keys)

lemma well_kept_append:
  "well_kept good xs \<Longrightarrow> find_key (key_of m) xs = None \<Longrightarrow> good m \<Longrightarrow> CHR ''/'' \<notin> set (Namespace m) \<Longrightarrow>
    well_kept good (xs @ [m])"
  by (auto simp: well_kept_def find_none_keys)

lemma well_kept_filter: "well_kept good xs \<Longrightarrow> well_kept good (filter P xs)"
  by (auto simp: well_kept_def distinct_map_filter)

lemma put_members:
  assumes "well_kept good xs" and "find_key (key_of y) xs = Some m"
  shows "set (put_key y xs) = insert y {x \<in> set xs. key_of x \<noteq> key_of y}"
proof -
  have "distinct (map key_of xs)" using assms(1) by (simp add: well_kept_def)
  then show ?thesis using assms(2) by (induction xs) (auto simp: image_iff split: if_splits)
qed

lemma others_named:
  assumes "well_kept good xs" and "find_key k xs = Some m" and "x \<in> set xs" and "key_of x \<noteq> k"
  shows "name_of (key_of x) \<noteq> name_of k"
  using name_of_inj [of x m] assms well_keptD [OF assms(1,2)] find_keyD [OF assms(2)] by (auto simp: well_kept_def)

text \<open>The owner of a balancer is one object.\<close>

lemma one_owner:
  assumes "well_kept good xs" and "owned_by f held xs" and "held n"
  shows "\<exists>!x. x \<in> set xs \<and> name_of (key_of x) = n \<and> f \<in> set (Finalizers x)"
proof -
  from assms(2,3) obtain x where x: "x \<in> set xs" "name_of (key_of x) = n" "f \<in> set (Finalizers x)"
    unfolding owned_by_def by blast
  have "y = x" if y: "y \<in> set xs" "name_of (key_of y) = n" for y
  proof -
    have "key_of y = key_of x"
      using name_of_inj [of y x] assms(1) x(1,2) y by (simp add: well_kept_def)
    then show ?thesis using well_kept_find [OF assms(1) x(1)] well_kept_find [OF assms(1) y(1)] by simp
  qed
  then show ?thesis using x by blast
qed

lemma owner_of:
  assumes "well_kept good xs" and "owned_by f held xs" and "x \<in> set xs" and "held (name_of (key_of x))"
  shows "f \<in> set (Finalizers x)"
proof -
  obtain y where y: "y \<in> set xs" "name_of (key_of y) = name_of (key_of x)" "f \<in> set (Finalizers y)"
    using assms(2,4) unfolding owned_by_def by blast
  then have "key_of y = key_of x" using name_of_inj [of y x] assms(1,3) by (simp add: well_kept_def)
  then have "y = x" using well_kept_find [OF assms(1,3)] well_kept_find [OF assms(1) y(1)] by simp
  then show ?thesis using y(3) by simp
qed

section \<open>A change of one object\<close>

lemma owned_put:
  assumes "well_kept good xs" and "owned_by f held xs" and "find_key (key_of y) xs = Some m"
    and "f \<in> set (Finalizers m) \<Longrightarrow> f \<in> set (Finalizers y)"
  shows "owned_by f held (put_key y xs)"
  unfolding owned_by_def
proof (intro allI impI)
  fix n assume "held n"
  then obtain x where x: "x \<in> set xs" "name_of (key_of x) = n" "f \<in> set (Finalizers x)"
    using assms(2) unfolding owned_by_def by blast
  show "\<exists>x \<in> set (put_key y xs). name_of (key_of x) = n \<and> f \<in> set (Finalizers x)"
  proof (cases "key_of x = key_of y")
    case True
    then have "x = m" using well_kept_find [OF assms(1) x(1)] assms(3) by simp
    then show ?thesis using x True assms(4) put_members [OF assms(1,3)] by auto
  qed (use x put_members [OF assms(1,3)] in auto)
qed

lemma owned_append: "owned_by f held xs \<Longrightarrow> owned_by f held (xs @ [y])"
  unfolding owned_by_def by (metis Un_iff set_append)

lemma owned_filter:
  assumes "well_kept good xs" and "owned_by f held xs" and "find_key k xs = Some m" and "f \<notin> set (Finalizers m)"
  shows "owned_by f held (filter (\<lambda>x. key_of x \<noteq> k) xs)"
  unfolding owned_by_def
proof (intro allI impI)
  fix n assume "held n"
  then obtain x where x: "x \<in> set xs" "name_of (key_of x) = n" "f \<in> set (Finalizers x)"
    using assms(2) unfolding owned_by_def by blast
  have "key_of x \<noteq> k"
  proof
    assume "key_of x = k"
    then have "x = m" using well_kept_find [OF assms(1) x(1)] assms(3) by simp
    then show False using x(3) assms(4) by simp
  qed
  then show "\<exists>x \<in> set (filter (\<lambda>x. key_of x \<noteq> k) xs). name_of (key_of x) = n \<and> f \<in> set (Finalizers x)"
    using x by auto
qed

lemma serves_put:
  assumes "serves f held xs" and "find_key (key_of y) xs = Some m"
    and "f \<in> set (Finalizers y) \<Longrightarrow> f \<in> set (Finalizers m)"
  shows "serves f held (put_key y xs)"
  using assms put_key_subset [of y xs] find_keyD [OF assms(2)] unfolding serves_def by force

lemma serves_append: "serves f held xs \<Longrightarrow> f \<notin> set (Finalizers y) \<Longrightarrow> serves f held (xs @ [y])"
  by (auto simp: serves_def)

lemma serves_filter: "serves f held xs \<Longrightarrow> serves f held (filter P xs)"
  by (auto simp: serves_def)

text \<open>A reconcile replaces the object of one key, or takes it away, and may change its balancer.\<close>

lemma replaced_members:
  assumes "well_kept good xs" and "well_kept good ys"
    and "\<And>j. find_key j ys = (if j = k then zo else find_key j xs)" and "key_of x \<noteq> k"
  shows "x \<in> set ys \<longleftrightarrow> x \<in> set xs"
  using assms(3) [of "key_of x"] assms(4) well_kept_member [OF assms(1), of x] well_kept_member [OF assms(2), of x] by simp

lemma owned_replaced:
  assumes well: "well_kept good xs" "well_kept good ys" and "owned_by f held xs"
    and store: "\<And>j. find_key j ys = (if j = k then zo else find_key j xs)"
    and held: "\<And>n. held' n \<longleftrightarrow> (if n = name_of k then b else held n)"
    and own: "b \<Longrightarrow> \<exists>z. zo = Some z \<and> f \<in> set (Finalizers z)"
  shows "owned_by f held' ys"
  unfolding owned_by_def
proof (intro allI impI)
  fix n assume n: "held' n"
  show "\<exists>x \<in> set ys. name_of (key_of x) = n \<and> f \<in> set (Finalizers x)"
  proof (cases "n = name_of k")
    case True
    then obtain z where "zo = Some z" "f \<in> set (Finalizers z)" using n own by (auto simp: held)
    then show ?thesis using store [of k] find_keyD [of k ys z] True by auto
  next
    case False
    then obtain x where x: "x \<in> set xs" "name_of (key_of x) = n" "f \<in> set (Finalizers x)"
      using n assms(3) unfolding owned_by_def held by metis
    then have "key_of x \<noteq> k" using False by auto
    then show ?thesis using x replaced_members [OF well store] by blast
  qed
qed

lemma serves_replaced:
  assumes well: "well_kept good xs" "well_kept good ys" and "serves f held xs" and found: "find_key k xs = Some m"
    and store: "\<And>j. find_key j ys = (if j = k then zo else find_key j xs)"
    and held: "\<And>n. held' n \<longleftrightarrow> (if n = name_of k then b else held n)"
    and own: "\<And>z. zo = Some z \<Longrightarrow> f \<in> set (Finalizers z) \<Longrightarrow> b"
  shows "serves f held' ys"
  unfolding serves_def
proof (intro ballI impI)
  fix x assume x: "x \<in> set ys" "f \<in> set (Finalizers x)"
  show "held' (name_of (key_of x))"
  proof (cases "key_of x = k")
    case True
    then have "zo = Some x" using well_kept_find [OF well(2) x(1)] store [of k] by simp
    then show ?thesis using own x(2) True by (simp add: held)
  next
    case False
    then have old: "x \<in> set xs" using x(1) replaced_members [OF well store] by blast
    then show ?thesis using assms(3) x(2) others_named [OF well(1) found old False] by (simp add: serves_def held)
  qed
qed

end
