(* ===== verification/Hampered.thy ===== *)
theory Hampered
  imports Unreliable Owners
begin

text \<open>
  A reconcile of an object with a load balancer whose calls fail: whatever it has done when it gives
  up, it has touched its own object and balancer only, and the balancer has its owner. Both
  controllers with balancers keep to this; the contract \<open>balanced_kind\<close> says what it rests on.
\<close>

lemma next_version_length [simp]: "length (ResourceVersion (next_version x)) = Suc (length (ResourceVersion x))"
  by (simp add: next_version_def)

lemma leaves_both: "leaves (\<lambda>w. (u w, v w)) g \<Longrightarrow> g w = (r, w') \<Longrightarrow> u w' = u w \<and> v w' = v w"
  unfolding leaves_def by (metis prod.inject snd_conv)

text \<open>The object that a call asks the provider to do something about.\<close>

fun asked :: "call \<Rightarrow> obj option" where
  "asked (LBEnsured x e) = Some x"
| "asked (LBUpdated x e) = Some x"
| "asked (LBDeleted x e) = Some x"
| "asked c = None"

text \<open>
  \<open>f\<close> is the controller's finalizer; \<open>store\<close> and \<open>put\<close> are the objects of its kind on the server, \<open>has\<close>
  the balancers the provider \<open>b\<close> holds; \<open>told\<close> is what the log says the provider was told; \<open>rest\<close> is a
  part of the world that none of this touches.
\<close>

locale balanced_kind = keyed_balancer b has "\<lambda>x. name_of (key_of x)"
  for b :: "('o ObjectMeta_scheme, Testbed) balancer" and has :: "Testbed \<Rightarrow> string \<Rightarrow> bool" +
  fixes f :: string and good :: "'o ObjectMeta_scheme \<Rightarrow> bool" and mk :: "'o ObjectMeta_scheme \<Rightarrow> obj"
    and store :: "Testbed \<Rightarrow> 'o ObjectMeta_scheme list" and put :: "'o ObjectMeta_scheme list \<Rightarrow> Testbed \<Rightarrow> Testbed"
    and rest :: "Testbed \<Rightarrow> 'r" and told :: "call list \<Rightarrow> key \<Rightarrow> 't"
  assumes stored: "store (put xs w) = xs" and put_has: "has (put xs w) = has w" and put_rest: "rest (put xs w) = rest w"
    and good_next: "good (next_version x) = good x" and mk_inj: "mk x = mk y \<Longrightarrow> x = y"
    and provider_apart: "leaves (\<lambda>w. (store w, rest w)) (GetBalancer b x)" "leaves (\<lambda>w. (store w, rest w)) (EnsureBalancer b x)"
      "leaves (\<lambda>w. (store w, rest w)) (UpdateBalancer b x)" "leaves (\<lambda>w. (store w, rest w)) (DeleteBalancer b x)"
    and delete_only: "DeleteBalancer b x w = (r, w') \<Longrightarrow> has w' n \<Longrightarrow> has w n"
    and told_else: "(\<And>x. key_of x = j \<Longrightarrow> asked c \<noteq> Some (mk x)) \<Longrightarrow> told (l @ [c]) j = told l j"
begin

definition frame :: "(Testbed, call) world \<Rightarrow> key \<Rightarrow> (Testbed, call) world \<Rightarrow> bool" where
  "frame s0 k s \<longleftrightarrow> well_kept good (store (env s)) \<and> owned_by f (has (env s)) (store (env s)) \<and>
     rest (env s) = rest (env s0) \<and> (find_key k (store (env s0)) = None \<longrightarrow> store (env s) = store (env s0)) \<and>
     (\<forall>j. j \<noteq> k \<longrightarrow> find_key j (store (env s)) = find_key j (store (env s0))) \<and>
     (\<forall>n. n \<noteq> name_of k \<or> find_key k (store (env s0)) = None \<longrightarrow> has (env s) n = has (env s0) n) \<and>
     (\<forall>j. j \<noteq> k \<longrightarrow> told (calls s) j = told (calls s0) j)"

lemma frameD:
  assumes "frame s0 k s"
  shows "well_kept good (store (env s))" and "owned_by f (has (env s)) (store (env s))" and "rest (env s) = rest (env s0)"
    and "j \<noteq> k \<Longrightarrow> find_key j (store (env s)) = find_key j (store (env s0))"
    and "n \<noteq> name_of k \<or> find_key k (store (env s0)) = None \<Longrightarrow> has (env s) n = has (env s0) n"
    and "j \<noteq> k \<Longrightarrow> told (calls s) j = told (calls s0) j"
  using assms unfolding frame_def by blast+

text \<open>
  A copy the controller works with: the stored object has the finalizer, and so has the copy unless
  it is older.
\<close>

definition copied :: "key \<Rightarrow> 'o ObjectMeta_scheme \<Rightarrow> (Testbed, call) world \<Rightarrow> bool" where
  "copied k v s \<longleftrightarrow> key_of v = k \<and> good v \<and> (\<exists>z. find_key k (store (env s)) = Some z \<and> f \<in> set (Finalizers z) \<and>
     (f \<in> set (Finalizers v) \<or> length (ResourceVersion v) < length (ResourceVersion z)))"

abbreviation live :: "(Testbed, call) world \<Rightarrow> key \<Rightarrow> 'o ObjectMeta_scheme set \<Rightarrow> (Testbed, call) world \<Rightarrow> bool" where
  "live s0 k C s \<equiv> frame s0 k s \<and> (\<forall>v \<in> C. copied k v s)"

lemma frame_start:
  "well_kept good (store (env s)) \<Longrightarrow> owned_by f (has (env s)) (store (env s)) \<Longrightarrow> frame s k s"
  by (simp add: frame_def)

lemma copied_log [simp]: "copied k v (s\<lparr>calls := l\<rparr>) = copied k v s"
  by (simp add: copied_def)

lemma frame_logged:
  assumes "frame s0 k s" and "\<And>x. asked c = Some (mk x) \<Longrightarrow> key_of x = k"
  shows "frame s0 k (s\<lparr>calls := calls s @ [c]\<rparr>)"
proof -
  have "told (calls s @ [c]) j = told (calls s) j" if "j \<noteq> k" for j
    using assms(2) that by (intro told_else) auto
  then show ?thesis using assms(1) by (simp add: frame_def)
qed

lemma frame_quiet [simp]: "frame s0 k s \<Longrightarrow> asked c = None \<Longrightarrow> frame s0 k (s\<lparr>calls := calls s @ [c]\<rparr>)"
  by (rule frame_logged) simp_all

text \<open>The steps: a new store with the same objects but for \<open>k\<close>, or other balancers under the name of \<open>k\<close>.\<close>

lemma frame_stored:
  assumes frame: "frame s0 k s" and there: "find_key k (store (env s0)) = Some m" and well: "well_kept good xs"
    and others: "\<And>j. j \<noteq> k \<Longrightarrow> find_key j xs = find_key j (store (env s))"
    and own: "has (env s) (name_of k) \<Longrightarrow> \<exists>z. find_key k xs = Some z \<and> f \<in> set (Finalizers z)"
  shows "frame s0 k (s\<lparr>env := put xs (env s)\<rparr>)"
proof -
  have "owned_by f (has (env s)) xs"
  proof (rule owned_replaced [where zo = "find_key k xs" and b = "has (env s) (name_of k)" and k = k])
    show "well_kept good (store (env s))" "well_kept good xs" "owned_by f (has (env s)) (store (env s))"
      using frame well by (simp_all add: frame_def)
  qed (use others own in auto)
  then show ?thesis using frame there well others by (simp add: frame_def stored put_has put_rest)
qed

lemma frame_balanced:
  assumes frame: "frame s0 k s" and there: "find_key k (store (env s0)) = Some m"
    and same: "store w = store (env s)" "rest w = rest (env s)" and others: "\<And>n. n \<noteq> name_of k \<Longrightarrow> has w n = has (env s) n"
    and own: "has w (name_of k) \<Longrightarrow> has (env s) (name_of k) \<or> (\<exists>z. find_key k (store (env s)) = Some z \<and> f \<in> set (Finalizers z))"
  shows "frame s0 k (s\<lparr>env := w\<rparr>)"
proof -
  have old: "well_kept good (store (env s))" "owned_by f (has (env s)) (store (env s))" using frame by (simp_all add: frame_def)
  have "owned_by f (has w) (store (env s))"
    unfolding owned_by_def
  proof (intro allI impI)
    fix n assume n: "has w n"
    show "\<exists>x \<in> set (store (env s)). name_of (key_of x) = n \<and> f \<in> set (Finalizers x)"
    proof (cases "has (env s) n")
      case True
      then show ?thesis using old(2) by (simp add: owned_by_def)
    next
      case False
      then have "n = name_of k" using n others by blast
      then obtain z where "find_key k (store (env s)) = Some z" "f \<in> set (Finalizers z)" using own n False by blast
      then show ?thesis using find_keyD [of k _ z] \<open>n = name_of k\<close> by blast
    qed
  qed
  then show ?thesis using frame there same others by (simp add: frame_def)
qed

section \<open>Reading\<close>

lemma copied_stored: "copied k v s \<Longrightarrow> find_key k (store (env s)) = Some z \<Longrightarrow> good z \<Longrightarrow> copied k z s"
  using find_keyD [of k "store (env s)" z] by (auto simp: copied_def)

lemma frame_good: "frame s0 k s \<Longrightarrow> find_key k (store (env s)) = Some z \<Longrightarrow> good z \<and> key_of z = k"
  using well_keptD [of good "store (env s)" k z] find_keyD [of k "store (env s)" z] by (simp add: frame_def)

lemma frame_get:
  "leads (frame s0 k) (api_get kd mk (unreliable_client \<phi> (mem_client store put hf)) k)
    (\<lambda>r s. frame s0 k s \<and> (\<forall>x. r = Inr x \<longrightarrow> find_key k (store (env s)) = Some x \<and> key_of x = k \<and> good x \<and>
      find_key k (store (env s0)) \<noteq> None))"
proof (rule leads_get)
  fix s r assume s: "frame s0 k s" and "r = Inl timeout \<or> r = (case find_key k (store (env s)) of None \<Rightarrow> Inl NotFound | Some x \<Rightarrow> Inr x)"
  then have "find_key k (store (env s)) = Some x \<and> key_of x = k \<and> good x \<and> find_key k (store (env s0)) \<noteq> None" if "r = Inr x" for x
    using that frame_good [OF s, of x] by (auto simp: frame_def split: option.splits)
  then show "frame s0 k (s\<lparr>calls := calls s @ [Got kd k (map_sum id mk r)]\<rparr>) \<and> (\<forall>x. r = Inr x \<longrightarrow>
      find_key k (store (env (s\<lparr>calls := calls s @ [Got kd k (map_sum id mk r)]\<rparr>))) = Some x \<and> key_of x = k \<and> good x \<and>
      find_key k (store (env s0)) \<noteq> None)"
    using s by simp
qed

lemma live_get:
  assumes "v \<in> C"
  shows "leads (live s0 k C) (api_get kd mk (unreliable_client \<phi> (mem_client store put hf)) k)
    (\<lambda>r s. live s0 k C s \<and> (\<forall>x. r = Inr x \<longrightarrow> copied k x s))"
proof (rule leads_get)
  fix s r assume s: "live s0 k C s" and "r = Inl timeout \<or> r = (case find_key k (store (env s)) of None \<Rightarrow> Inl NotFound | Some x \<Rightarrow> Inr x)"
  then have "copied k x s" if "r = Inr x" for x
    using that assms frame_good [of s0 k s x] copied_stored [of k v s x] by (auto split: option.splits)
  then show "live s0 k C (s\<lparr>calls := calls s @ [Got kd k (map_sum id mk r)]\<rparr>) \<and>
      (\<forall>x. r = Inr x \<longrightarrow> copied k x (s\<lparr>calls := calls s @ [Got kd k (map_sum id mk r)]\<rparr>))"
    using s by simp
qed

lemma live_list:
  "leads (live s0 k C) (api_list kd (unreliable_client \<phi> (mem_client st pt hf)) opts) (\<lambda>_. live s0 k C)"
  by (rule leads_list) simp

lemma live_note:
  assumes "asked c = None"
  shows "leads (live s0 k C) (note_call c) (\<lambda>_. live s0 k C)"
  by (rule leads_note) (use assms in simp)

section \<open>Writing\<close>

definition writes :: "Testbed fates \<Rightarrow> (string \<times> string \<Rightarrow> 'o ObjectMeta_scheme \<Rightarrow> bool) \<Rightarrow> 'o ObjectMeta_scheme
    \<Rightarrow> (Testbed, error option \<times> 'o ObjectMeta_scheme) io set" where
  "writes \<phi> hf x = (let c = unreliable_client \<phi> (mem_client store put hf) in
     {api_update mk c x, api_status_update mk c x} \<union> range (\<lambda>base. api_patch mk c x base))"

lemma leads_any_write:
  assumes "m \<in> writes \<phi> hf x"
    and failed: "\<And>s c e. P s \<Longrightarrow> asked c = None \<Longrightarrow> e \<noteq> None \<Longrightarrow> Q (e, x) (s\<lparr>calls := calls s @ [c]\<rparr>)"
    and did: "\<And>s c e y. P s \<Longrightarrow> asked c = None \<Longrightarrow> stored_version x (store (env s)) \<Longrightarrow>
      y = x \<or> y = next_version x \<Longrightarrow> Q (e, y) (s\<lparr>env := put (written x (store (env s))) (env s), calls := calls s @ [c]\<rparr>)"
  shows "leads P m Q"
proof -
  have "leads P (api_update mk (unreliable_client \<phi> (mem_client store put hf)) x) Q"
    by (rule leads_writes(1) [where v = UpdateVerb]) (auto intro!: failed did)
  moreover have "leads P (api_patch mk (unreliable_client \<phi> (mem_client store put hf)) x base) Q" for base
    by (rule leads_writes(2) [where v = PatchVerb]) (auto intro!: failed did)
  moreover have "leads P (api_status_update mk (unreliable_client \<phi> (mem_client store put hf)) x) Q"
    by (rule leads_writes(3) [where v = StatusVerb]) (auto intro!: failed did)
  ultimately show ?thesis using assms(1) by (auto simp: writes_def Let_def)
qed

text \<open>The status of a copy: the store keeps the finalizer, as an older copy is refused.\<close>

lemma live_write:
  assumes m: "m \<in> writes \<phi> hf x" and there: "find_key k (store (env s0)) = Some m0"
  shows "leads (\<lambda>s. live s0 k C s \<and> copied k x s) m (\<lambda>r s. live s0 k C s \<and> copied k (snd r) s)"
  using m
proof (rule leads_any_write)
  fix s c e assume "live s0 k C s \<and> copied k x s" "asked c = None"
  then show "live s0 k C (s\<lparr>calls := calls s @ [c]\<rparr>) \<and> copied k (snd (e, x)) (s\<lparr>calls := calls s @ [c]\<rparr>)"
    by simp
next
  fix s c e y
  assume s: "live s0 k C s \<and> copied k x s" and c: "asked c = None" and version: "stored_version x (store (env s))"
    and y: "y = x \<or> y = next_version x"
  obtain z where z: "find_key k (store (env s)) = Some z" "key_of x = k" "good x"
    and fresh: "f \<in> set (Finalizers x)" "ResourceVersion z = ResourceVersion x"
    using s version by (auto simp: copied_def stored_version_def)
  let ?xs = "put_key (next_version x) (store (env s))" and ?s = "s\<lparr>env := put (put_key (next_version x) (store (env s))) (env s)\<rparr>"
  have xs: "written x (store (env s)) = ?xs" using fresh by (auto simp: written_def)
  have there': "find_key j ?xs = (if j = k then Some (next_version x) else find_key j (store (env s)))" for j
    using z by (simp add: find_put_key)
  have "frame s0 k ?s"
  proof (rule frame_stored [OF _ there])
    show "well_kept good ?xs"
      using well_kept_put [of good "store (env s)" "next_version x" z] s z by (simp add: frame_def good_next)
  qed (use s fresh there' in auto)
  moreover have "copied k v ?s" if "copied k v s" for v
    using that z fresh by (auto simp: copied_def stored there')
  moreover have "copied k y ?s" using y z fresh by (auto simp: copied_def stored there' good_next)
  ultimately show "live s0 k C (s\<lparr>env := put (written x (store (env s))) (env s), calls := calls s @ [c]\<rparr>) \<and>
      copied k (snd (e, y)) (s\<lparr>env := put (written x (store (env s))) (env s), calls := calls s @ [c]\<rparr>)"
    using s frame_quiet [OF _ c, of s0 k ?s] by (simp add: xs)
qed

text \<open>The finalizer is stored: the object and its former version are copies now.\<close>

lemma frame_finalized:
  assumes m: "m \<in> writes \<phi> hf x" and there: "find_key k (store (env s0)) = Some m0"
    and x: "key_of x = k" "good x" "f \<in> set (Finalizers x)"
  shows "leads (frame s0 k) m (\<lambda>r s. frame s0 k s \<and> (fst r = None \<longrightarrow> copied k (snd r) s \<and>
    (\<forall>v. key_of v = k \<longrightarrow> good v \<longrightarrow> ResourceVersion v = ResourceVersion x \<longrightarrow> copied k v s)))"
  using m
proof (rule leads_any_write)
  fix s c e y
  assume s: "frame s0 k s" and c: "asked c = None" and version: "stored_version x (store (env s))"
    and y: "y = x \<or> y = next_version x"
  obtain z where z: "find_key k (store (env s)) = Some z" using version x(1) by (auto simp: stored_version_def)
  let ?xs = "put_key (next_version x) (store (env s))" and ?s = "s\<lparr>env := put (put_key (next_version x) (store (env s))) (env s)\<rparr>"
  have xs: "written x (store (env s)) = ?xs" using x(3) by (auto simp: written_def)
  have there': "find_key j ?xs = (if j = k then Some (next_version x) else find_key j (store (env s)))" for j
    using z x(1) by (simp add: find_put_key)
  have "frame s0 k ?s"
  proof (rule frame_stored [OF s there])
    show "well_kept good ?xs"
      using well_kept_put [of good "store (env s)" "next_version x" z] s z x by (simp add: frame_def good_next)
  qed (use x(3) there' in auto)
  moreover have "copied k v ?s" if "key_of v = k" "good v" "ResourceVersion v = ResourceVersion x" for v
    using that x(3) by (simp add: copied_def stored there')
  moreover have "copied k y ?s" using y x by (auto simp: copied_def stored there' good_next)
  ultimately show "frame s0 k (s\<lparr>env := put (written x (store (env s))) (env s), calls := calls s @ [c]\<rparr>) \<and>
      (fst (e, y) = None \<longrightarrow> copied k (snd (e, y)) (s\<lparr>env := put (written x (store (env s))) (env s), calls := calls s @ [c]\<rparr>) \<and>
       (\<forall>v. key_of v = k \<longrightarrow> good v \<longrightarrow> ResourceVersion v = ResourceVersion x \<longrightarrow>
         copied k v (s\<lparr>env := put (written x (store (env s))) (env s), calls := calls s @ [c]\<rparr>)))"
    using frame_quiet [OF _ c, of s0 k ?s] by (simp add: xs)
qed auto

text \<open>Any write of the object, once its balancer is gone.\<close>

lemma frame_released:
  assumes m: "m \<in> writes \<phi> hf x" and there: "find_key k (store (env s0)) = Some m0" and x: "key_of x = k" "good x"
  shows "leads (\<lambda>s. frame s0 k s \<and> \<not> has (env s) (name_of k)) m (\<lambda>_. frame s0 k)"
  using m
proof (rule leads_any_write)
  fix s c and e :: "error option" and y
  assume s: "frame s0 k s \<and> \<not> has (env s) (name_of k)" and c: "asked c = None" and version: "stored_version x (store (env s))"
  obtain z where z: "find_key k (store (env s)) = Some z" using version x(1) by (auto simp: stored_version_def)
  have "frame s0 k (s\<lparr>env := put (written x (store (env s))) (env s)\<rparr>)"
  proof (rule frame_stored [OF _ there])
    show "well_kept good (written x (store (env s)))"
      using well_kept_put [of good "store (env s)" "next_version x" z] s z x
      by (simp add: written_def frame_def good_next well_kept_filter)
    show "j \<noteq> k \<Longrightarrow> find_key j (written x (store (env s))) = find_key j (store (env s))" for j
      using z x(1) by (simp add: written_def find_filter find_put_key)
  qed (use s in simp_all)
  from frame_quiet [OF this c] show "frame s0 k (s\<lparr>env := put (written x (store (env s))) (env s), calls := calls s @ [c]\<rparr>)"
    by simp
qed auto

section \<open>The provider\<close>

lemma provider_same:
  "GetBalancer b x w = (r1, w1) \<Longrightarrow> store w1 = store w \<and> rest w1 = rest w"
  "EnsureBalancer b x w = (r2, w1) \<Longrightarrow> store w1 = store w \<and> rest w1 = rest w"
  "UpdateBalancer b x w = (r3, w1) \<Longrightarrow> store w1 = store w \<and> rest w1 = rest w"
  "DeleteBalancer b x w = (r4, w1) \<Longrightarrow> store w1 = store w \<and> rest w1 = rest w"
  by (rule leaves_both [OF provider_apart(1)] leaves_both [OF provider_apart(2)]
      leaves_both [OF provider_apart(3)] leaves_both [OF provider_apart(4)]; assumption)+

lemma live_balanced:
  assumes s: "live s0 k C s" and there: "find_key k (store (env s0)) = Some m"
    and same: "store w = store (env s)" "rest w = rest (env s)" and others: "\<And>n. n \<noteq> name_of k \<Longrightarrow> has w n = has (env s) n"
    and own: "has w (name_of k) \<Longrightarrow> has (env s) (name_of k) \<or> C \<noteq> {}"
    and c: "\<And>x. asked c = Some (mk x) \<Longrightarrow> key_of x = k"
  shows "live s0 k C (s\<lparr>env := w, calls := calls s @ [c]\<rparr>)"
proof -
  have "frame s0 k (s\<lparr>env := w\<rparr>)"
  proof (rule frame_balanced [OF _ there same others])
    show "has (env s) (name_of k) \<or> (\<exists>z. find_key k (store (env s)) = Some z \<and> f \<in> set (Finalizers z))" if "has w (name_of k)"
      using own [OF that] s by (auto simp: copied_def)
  qed (use s in blast)
  from frame_logged [OF this c] show ?thesis using s same by (simp add: copied_def)
qed

text \<open>A call to the provider, whatever becomes of it.\<close>

lemma leads_provider:
  assumes "\<And>s. P s \<Longrightarrow> Q lost (s\<lparr>calls := calls s @ [entry lost]\<rparr>)"
    and "\<And>s r w. P s \<Longrightarrow> op (env s) = (r, w) \<Longrightarrow> Q r (s\<lparr>env := w, calls := calls s @ [entry r]\<rparr>) \<and>
      Q lost (s\<lparr>env := w, calls := calls s @ [entry lost]\<rparr>)"
  shows "leads P (lift_call (\<lambda>w. fated lost (fate w) op w) entry) Q"
proof (rule leads_call)
  fix s r w assume s: "P s" and call: "fated lost (fate (env s)) op (env s) = (r, w)"
  obtain r' w' where op: "op (env s) = (r', w')" by fastforce
  from call show "Q r (s\<lparr>env := w, calls := calls s @ [entry r]\<rparr>)"
    by (cases rule: fated_cases) (use s assms(1) [OF s] assms(2) [OF s op] op in auto)
qed

lemma live_lb_get:
  assumes there: "find_key k (store (env s0)) = Some m"
  shows "leads (live s0 k C) (lb_get mk (unreliable_balancer \<phi> b) x) (\<lambda>_. live s0 k C)"
  unfolding lb_defs unreliable_balancer_def balancer.simps
proof (rule leads_provider)
  fix s r w assume s: "live s0 k C s" and op: "GetBalancer b x (env s) = (r, w)"
  have "live s0 k C (s\<lparr>env := w, calls := calls s @ [LBGot (mk x) u e]\<rparr>)" for u e
    by (rule live_balanced [OF s there]) (use provider_same(1) [OF op] get_keeps [OF op] in simp_all)
  then show "live s0 k C (s\<lparr>env := w, calls := calls s @ [LBGot (mk x) (fst (snd r)) (snd (snd r))]\<rparr>) \<and>
      live s0 k C (s\<lparr>env := w, calls := calls s @ [LBGot (mk x) (fst (snd (None, False, Some timeout))) (snd (snd (None, False, Some timeout)))]\<rparr>)"
    by blast
qed simp

lemma live_lb_write:
  assumes there: "find_key k (store (env s0)) = Some m" and x: "key_of x = k" and C: "v \<in> C"
  shows "leads (live s0 k C) (lb_ensure mk (unreliable_balancer \<phi> b) x) (\<lambda>_. live s0 k C)"
    and "leads (live s0 k C) (lb_update mk (unreliable_balancer \<phi> b) x) (\<lambda>_. live s0 k C)"
proof -
  have own: "asked c = Some (mk x) \<Longrightarrow> asked c = Some (mk y) \<Longrightarrow> key_of y = k" for c y
    using x mk_inj by auto
  have failed: "live s0 k C s \<Longrightarrow> asked c = Some (mk x) \<Longrightarrow> live s0 k C (s\<lparr>calls := calls s @ [c]\<rparr>)" for s c
    using frame_logged [of s0 k s c] own [of c] by auto
  have did: "live s0 k C (s\<lparr>env := w, calls := calls s @ [c]\<rparr>)"
    if s: "live s0 k C s" and c: "asked c = Some (mk x)" and w: "store w = store (env s) \<and> rest w = rest (env s)"
      and others: "\<And>n. n \<noteq> name_of k \<Longrightarrow> has w n = has (env s) n" for s w c
    by (rule live_balanced [OF s there]) (use w others C own [OF c] in auto)
  show "leads (live s0 k C) (lb_ensure mk (unreliable_balancer \<phi> b) x) (\<lambda>_. live s0 k C)"
    unfolding lb_defs unreliable_balancer_def balancer.simps
  proof (rule leads_provider)
    fix s r w assume s: "live s0 k C s" and op: "EnsureBalancer b x (env s) = (r, w)"
    show "live s0 k C (s\<lparr>env := w, calls := calls s @ [LBEnsured (mk x) (snd r)]\<rparr>) \<and>
        live s0 k C (s\<lparr>env := w, calls := calls s @ [LBEnsured (mk x) (snd (None, Some timeout))]\<rparr>)"
      by (intro conjI [OF did did]) (use s provider_same(2) [OF op] ensure_frame [OF op] x in simp_all)
  qed (use failed in simp)
  show "leads (live s0 k C) (lb_update mk (unreliable_balancer \<phi> b) x) (\<lambda>_. live s0 k C)"
    unfolding lb_defs unreliable_balancer_def balancer.simps
  proof (rule leads_provider)
    fix s r w assume s: "live s0 k C s" and op: "UpdateBalancer b x (env s) = (r, w)"
    show "live s0 k C (s\<lparr>env := w, calls := calls s @ [LBUpdated (mk x) (snd r)]\<rparr>) \<and>
        live s0 k C (s\<lparr>env := w, calls := calls s @ [LBUpdated (mk x) (snd (None, Some timeout))]\<rparr>)"
      by (intro conjI [OF did did]) (use s provider_same(3) [OF op] update_keeps [OF op] in simp_all)
  qed (use failed in simp)
qed

lemma frame_lb_delete:
  assumes there: "find_key k (store (env s0)) = Some m" and x: "key_of x = k"
  shows "leads (frame s0 k) (lb_delete mk (unreliable_balancer \<phi> b) x)
    (\<lambda>r s. frame s0 k s \<and> (r = None \<longrightarrow> \<not> has (env s) (name_of k)))"
  unfolding lb_defs unreliable_balancer_def balancer.simps
proof (rule leads_provider)
  have own: "asked (LBDeleted (mk x) e) = Some (mk y) \<Longrightarrow> key_of y = k" for e y using x mk_inj by auto
  fix s
  assume s: "frame s0 k s"
  show "frame s0 k (s\<lparr>calls := calls s @ [LBDeleted (mk x) (Some timeout)]\<rparr>) \<and> (Some timeout = None \<longrightarrow>
      \<not> has (env (s\<lparr>calls := calls s @ [LBDeleted (mk x) (Some timeout)]\<rparr>)) (name_of k))"
    by (simp, rule frame_logged [OF s]) (rule own)
  fix r w assume op: "DeleteBalancer b x (env s) = (r, w)"
  have "r = None \<Longrightarrow> \<not> has w (name_of k)" using delete_removes [of x "env s" w] op x by simp
  moreover have "frame s0 k (s\<lparr>env := w, calls := calls s @ [LBDeleted (mk x) e]\<rparr>)" for e
    using live_balanced [where C = "{}" and s = s and w = w and c = "LBDeleted (mk x) e", OF _ there _ _ _ _ own] s
      provider_same(4) [OF op] delete_frame [OF op] delete_only [OF op] x by auto
  ultimately show "(frame s0 k (s\<lparr>env := w, calls := calls s @ [LBDeleted (mk x) r]\<rparr>) \<and>
        (r = None \<longrightarrow> \<not> has (env (s\<lparr>env := w, calls := calls s @ [LBDeleted (mk x) r]\<rparr>)) (name_of k))) \<and>
      frame s0 k (s\<lparr>env := w, calls := calls s @ [LBDeleted (mk x) (Some timeout)]\<rparr>) \<and>
        (Some timeout = None \<longrightarrow> \<not> has (env (s\<lparr>env := w, calls := calls s @ [LBDeleted (mk x) (Some timeout)]\<rparr>)) (name_of k))"
    by simp
qed

end

end
