(* ===== verification/MciSystem.thy ===== *)
theory MciSystem
  imports MciLifecycle MciHandlers EventLoop Hampered
begin

text \<open>
  The ingress controller as it runs: users and others change ingresses and clusters, every change
  puts an event in flight, \<open>setupWatches\<close> turns it into keys, \<open>ReconcileMCI\<close> handles them, on the test
  server and next to the fake provider; calls may fail, and then the key comes again. The controller's own writes put no events in flight here, as
  \<open>mci_own_writes_enqueue_nothing\<close> shows that these would add nothing to the queue.
\<close>

section \<open>The system\<close>

abbreviation mcis_at :: "(Testbed, call) world \<Rightarrow> MultiClusterIngress list" where
  "mcis_at s \<equiv> apiMCIs (env s)"

definition with_stored :: "MultiClusterIngress list \<Rightarrow> (Testbed, call) world \<Rightarrow> (Testbed, call) world" where
  "with_stored xs s = s\<lparr>env := (env s)\<lparr>apiMCIs := xs\<rparr>\<rparr>"

definition with_clusters :: "Cluster list \<Rightarrow> (Testbed, call) world \<Rightarrow> (Testbed, call) world" where
  "with_clusters cs s = s\<lparr>env := (env s)\<lparr>apiClusters := cs\<rparr>\<rparr>"

definition mci_handle :: "mci_watched \<Rightarrow> (Testbed, call) world \<Rightarrow> key list" where
  "mci_handle e s = fst (run_state (mci_setupWatches test_mci_controller e) s)"

definition mci_recon :: "key \<Rightarrow> (Testbed, call) world \<Rightarrow> error option \<times> (Testbed, call) world" where
  "mci_recon k = run_state (ReconcileMCI test_mci_controller k)"

text \<open>A reconcile whose calls, of the server or the provider, fail somewhere, and which returns an error.\<close>

definition unreliable_mci_controller :: "(kind \<Rightarrow> Testbed fates) \<Rightarrow> Testbed fates \<Rightarrow> Testbed MCIController" where
  "unreliable_mci_controller \<phi> \<psi> = test_mci_controller\<lparr>mciClient := unreliable_server \<phi>,
     mciLoadBalancer := unreliable_balancer \<psi> (fst (LoadBalancer std_deps))\<rparr>"

definition mci_hampers :: "key \<Rightarrow> (Testbed, call) world \<Rightarrow> (Testbed, call) world \<Rightarrow> bool" where
  "mci_hampers k s w \<longleftrightarrow> (\<exists>\<phi> \<psi> e. run_state (ReconcileMCI (unreliable_mci_controller \<phi> \<psi>) k) s = (Some e, w))"

text \<open>
  What users and others do. They leave the controller's finalizer alone, and the class of an
  ingress; and the services an ingress is located in are not changed in its status.
\<close>

fun elsewhere :: "mci_watched \<Rightarrow> bool" where
  "elsewhere (WatchMCI _) = False"
| "elsewhere (WatchCluster _) = False"
| "elsewhere _ = True"

inductive mci_others :: "(Testbed, call) world \<Rightarrow> mci_watched list \<Rightarrow> (Testbed, call) world \<Rightarrow> bool" where
  created: "find_key (key_of m) (mcis_at s) = None \<Longrightarrow> DeletionTimestamp m = None \<Longrightarrow> only_services m \<Longrightarrow>
    CHR ''/'' \<notin> set (Namespace m) \<Longrightarrow>
    mci_others s [WatchMCI (CreateEvent m)] (with_stored (mcis_at s @ [m]) s)"
| respecified: "find_key k (mcis_at s) = Some m \<Longrightarrow> IngressClassName sp = IngressClassName (mciSpec m) \<Longrightarrow>
    only_services (m\<lparr>mciSpec := sp\<rparr>) \<Longrightarrow> m' = next_version (m\<lparr>mciSpec := sp\<rparr>) \<Longrightarrow>
    mci_others s [WatchMCI (UpdateEvent m m')] (with_stored (put_key m' (mcis_at s)) s)"
| refinalized: "find_key k (mcis_at s) = Some m \<Longrightarrow>
    MCIControllerFinalizer \<in> set fs \<longleftrightarrow> MCIControllerFinalizer \<in> set (Finalizers m) \<Longrightarrow>
    m' = next_version (m\<lparr>Finalizers := fs\<rparr>) \<Longrightarrow>
    mci_others s [WatchMCI (UpdateEvent m m')] (with_stored (put_key m' (mcis_at s)) s)"
| deleted: "find_key k (mcis_at s) = Some m \<Longrightarrow> DeletionTimestamp m = None \<Longrightarrow>
    m' = next_version (m\<lparr>DeletionTimestamp := Some t\<rparr>) \<Longrightarrow>
    mci_others s [WatchMCI (UpdateEvent m m')] (with_stored (put_key m' (mcis_at s)) s)"
| removed: "find_key k (mcis_at s) = Some m \<Longrightarrow> MCIControllerFinalizer \<notin> set (Finalizers m) \<Longrightarrow>
    mci_others s [WatchMCI (DeleteEvent m)] (with_stored (filter (\<lambda>x. key_of x \<noteq> k) (mcis_at s)) s)"
| cluster: "find_key k (apiClusters (env s)) = Some cl \<Longrightarrow> key_of cl' = k \<Longrightarrow>
    mci_others s [WatchCluster (UpdateEvent cl cl')] (with_clusters (put_key cl' (apiClusters (env s))) s)"
| elsewhere: "elsewhere e \<Longrightarrow> mci_others s [e] s"

text \<open>The system starts without ingresses and balancers, with any clusters and classes.\<close>

definition mci_init :: "(Testbed, call) world \<Rightarrow> bool" where
  "mci_init s \<longleftrightarrow> mcis_at s = [] \<and> Balancers (env s) = None \<and> distinct (map key_of (apiClusters (env s)))"

abbreviation mci_runs :: "((Testbed, call) world, mci_watched, key) loop \<Rightarrow> bool" where
  "mci_runs \<equiv> loop_runs mci_init mci_others mci_hampers mci_handle mci_recon"

abbreviation mci_work :: "((Testbed, call) world, mci_watched, key) loop \<Rightarrow> ((Testbed, call) world, mci_watched, key) loop \<Rightarrow> bool" where
  "mci_work \<equiv> work_step mci_handle mci_recon"

lemma with_fields_of [simp]:
  "env (with_stored xs s) = (env s)\<lparr>apiMCIs := xs\<rparr>" "calls (with_stored xs s) = calls s"
  "env (with_clusters cs s) = (env s)\<lparr>apiClusters := cs\<rparr>" "calls (with_clusters cs s) = calls s"
  by (simp_all add: with_stored_def with_clusters_def)

lemma held_elsewhere [simp]:
  "has_balancer ((w :: Testbed)\<lparr>apiMCIs := xs\<rparr>) = has_balancer w"
  "has_balancer ((w :: Testbed)\<lparr>apiClusters := cs\<rparr>) = has_balancer w"
  by (simp_all add: has_balancer_def [abs_def])

section \<open>What is settled, and what is on its way\<close>

text \<open>An ingress is as it should be, next to the provider and the clusters.\<close>

definition settled_mci :: "(Testbed, call) world \<Rightarrow> MultiClusterIngress \<Rightarrow> bool" where
  "settled_mci w m \<longleftrightarrow>
     (if DeletionTimestamp m = None
      then MCIControllerFinalizer \<in> set (Finalizers m) \<and> has_balancer (env w) (mci_key std_deps m) \<and>
        told (calls w) (key_of m) = Some (mciSpec m) \<and>
        TrafficBlockClusters (mciStatus m) = blocked_clusters test_mci_controller m (apiClusters (env w))
      else MCIControllerFinalizer \<notin> set (Finalizers m))"

abbreviation ours_at :: "(Testbed, call) world \<Rightarrow> MultiClusterIngress \<Rightarrow> bool" where
  "ours_at s \<equiv> ours std_deps (apiClasses (env s)) ''fake''"

definition mci_settled :: "(Testbed, call) world \<Rightarrow> key \<Rightarrow> bool" where
  "mci_settled s k \<longleftrightarrow>
     (case find_key k (mcis_at s) of None \<Rightarrow> True | Some m \<Rightarrow> ours_at s m \<longrightarrow> settled_mci s m)"

text \<open>An event that will put the key \<open>k\<close> into the queue.\<close>

fun mci_covers :: "(Testbed, call) world \<Rightarrow> mci_watched \<Rightarrow> key \<Rightarrow> bool" where
  "mci_covers s (WatchMCI (CreateEvent x)) k \<longleftrightarrow> key_of x = k \<and> ours_at s x"
| "mci_covers s (WatchMCI (UpdateEvent old x)) k \<longleftrightarrow> key_of x = k \<and> ours_at s x \<and>
     (mciSpec old \<noteq> mciSpec x \<or> (DeletionTimestamp old = None) \<noteq> (DeletionTimestamp x = None))"
| "mci_covers s (WatchCluster (UpdateEvent a b)) k \<longleftrightarrow>
     has_action (TrafficControl std_deps) (elems (RemedyActions a)) \<noteq>
       has_action (TrafficControl std_deps) (elems (RemedyActions b)) \<and>
     (case find_key k (mcis_at s) of None \<Rightarrow> False | Some m \<Rightarrow> ours_at s m \<and> mciSvcLocationsContainsCluster m b)"
| "mci_covers s _ k \<longleftrightarrow> False"

text \<open>The store is well formed, and every balancer has its ingress.\<close>

abbreviation well_stored :: "(Testbed, call) world \<Rightarrow> bool" where
  "well_stored s \<equiv> well_kept only_services (mcis_at s)"

abbreviation owned :: "(Testbed, call) world \<Rightarrow> bool" where
  "owned s \<equiv> owned_by MCIControllerFinalizer (has_balancer (env s)) (mcis_at s)"

definition mci_ok :: "(Testbed, call) world \<Rightarrow> bool" where
  "mci_ok s \<longleftrightarrow> distinct (map key_of (apiClusters (env s))) \<and> well_stored s \<and> owned s"

abbreviation mci_keeps_up where
  "mci_keeps_up \<equiv> keeps_up mci_ok mci_settled mci_covers (\<lambda>_. (=))"

section \<open>Keys and names\<close>

lemma ours_class:
  "IngressClassName (mciSpec a) = IngressClassName (mciSpec b) \<Longrightarrow> ours d cs p a = ours d cs p b"
  by (simp add: ours_def governed_by_def governing_class_def)

lemma located_cong:
  "ServiceLocations (mciStatus m') = ServiceLocations (mciStatus m) \<Longrightarrow>
    mciSvcLocationsContainsCluster m' b = mciSvcLocationsContainsCluster m b"
  by (simp add: mciSvcLocationsContainsCluster_def)

lemma blocked_clusters_cong:
  "ServiceLocations (mciStatus m') = ServiceLocations (mciStatus m) \<Longrightarrow>
    blocked_clusters c m' cs = blocked_clusters c m cs"
  by (simp add: blocked_clusters_def)

lemma mci_key_name: "mci_key std_deps m = name_of (key_of m)"
  by (simp add: mci_key_def name_of_def)

text \<open>Whether an ingress is settled depends on the provider, the clusters and what the provider was told.\<close>

lemma settled_cong:
  assumes "has_balancer (env w') (mci_key std_deps m) = has_balancer (env w) (mci_key std_deps m)"
    and "told (calls w') (key_of m) = told (calls w) (key_of m)" and "apiClusters (env w') = apiClusters (env w)"
  shows "settled_mci w' m = settled_mci w m"
  using assms by (simp add: settled_mci_def)

lemma with_stored_settled: "settled_mci (with_stored xs s) m = settled_mci s m"
  by (rule settled_cong) (simp_all add: has_balancer_def)

section \<open>What others do is kept up with\<close>

lemma key_fields [simp]:
  "only_services (next_version m) = only_services m"
  "key_of (m\<lparr>mciSpec := sp\<rparr>) = key_of m" "key_of (x\<lparr>DeletionTimestamp := t\<rparr>) = key_of x"
  "key_of (x\<lparr>Finalizers := fs\<rparr>) = key_of x"
  by (simp_all add: only_services_def has_backend_def next_version_def key_of_def)

text \<open>Events in flight go on covering an object that keeps its class and locations.\<close>

lemma covers_mono:
  assumes "mci_covers s e j" and "apiClasses (env s') = apiClasses (env s)"
    and "\<And>m. find_key j (mcis_at s) = Some m \<Longrightarrow> \<exists>m'. find_key j (mcis_at s') = Some m' \<and>
      IngressClassName (mciSpec m') = IngressClassName (mciSpec m) \<and>
      ServiceLocations (mciStatus m') = ServiceLocations (mciStatus m)"
  shows "mci_covers s' e j"
proof (cases "\<exists>a b. e = WatchCluster (UpdateEvent a b)")
  case True
  then obtain a b where e: "e = WatchCluster (UpdateEvent a b)" by blast
  then obtain m where m: "find_key j (mcis_at s) = Some m" "ours_at s m" "mciSvcLocationsContainsCluster m b"
    using assms(1) by (auto split: option.splits)
  then obtain m' where "find_key j (mcis_at s') = Some m'" "ours_at s' m'" "mciSvcLocationsContainsCluster m' b"
    using assms(2,3) ours_class located_cong by metis
  then show ?thesis using assms(1) e by simp
next
  case False
  then show ?thesis using assms(1,2) by (cases "(s, e, j)" rule: mci_covers.cases) auto
qed

text \<open>A change of one ingress, with its event.\<close>

lemma put_kept_up:
  assumes ok: "mci_ok s" and found: "find_key k (mcis_at s) = Some m" and key: "key_of m' = k"
    and "only_services m'" and "MCIControllerFinalizer \<in> set (Finalizers m') \<longleftrightarrow> MCIControllerFinalizer \<in> set (Finalizers m)"
    and same_class: "IngressClassName (mciSpec m') = IngressClassName (mciSpec m)" and status: "mciStatus m' = mciStatus m"
    and change: "mciSpec m' = mciSpec m \<and> DeletionTimestamp m' = DeletionTimestamp m \<or>
      mciSpec m' \<noteq> mciSpec m \<or> (DeletionTimestamp m = None) \<noteq> (DeletionTimestamp m' = None)"
  shows "mci_keeps_up s [WatchMCI (UpdateEvent m m')] (with_stored (put_key m' (mcis_at s)) s)" (is "mci_keeps_up s [?e] ?s")
proof -
  have k: "key_of m = k" using find_keyD [OF found] by simp
  have there: "find_key j (mcis_at ?s) = (if j = k then Some m' else find_key j (mcis_at s))" for j
    using found key by (simp add: find_put_key)
  note here = there [simplified]
  have ours: "ours_at s m' = ours_at s m" by (rule ours_class [OF same_class])
  have good: "mci_ok ?s"
    using ok found key assms(4,5) well_kept_put [of only_services "mcis_at s" m' m]
      owned_put [of only_services "mcis_at s" MCIControllerFinalizer "has_balancer (env s)" m' m]
    by (simp add: mci_ok_def has_balancer_def)
  have settled: "mci_settled ?s j \<or> mci_covers ?s ?e j" if "mci_settled s j" for j
  proof (cases "j = k \<and> \<not> (mciSpec m' = mciSpec m \<and> DeletionTimestamp m' = DeletionTimestamp m)")
    case True
    then show ?thesis using change key by (auto simp: mci_settled_def here)
  next
    case False
    have "settled_mci s m' = settled_mci s m" if "j = k"
      using False that k key status assms(5) blocked_clusters_cong [of m' m test_mci_controller]
      by (simp add: settled_mci_def mci_key_name)
    then show ?thesis using \<open>mci_settled s j\<close> found ours
      by (auto simp: mci_settled_def here with_stored_settled split: option.splits if_splits)
  qed
  have kept: "mci_covers ?s e j" if "mci_covers s e j" for e j
    by (rule covers_mono [OF that]) (use found same_class status in \<open>auto simp: here\<close>)
  show ?thesis using good settled kept unfolding keeps_up_def by auto
qed

lemma created_kept_up:
  assumes ok: "mci_ok s" and none: "find_key (key_of m) (mcis_at s) = None" and "only_services m"
    and "CHR ''/'' \<notin> set (Namespace m)"
  shows "mci_keeps_up s [WatchMCI (CreateEvent m)] (with_stored (mcis_at s @ [m]) s)" (is "mci_keeps_up s [?e] ?s")
proof -
  have there: "find_key j (mcis_at ?s) = (if j = key_of m then Some m else find_key j (mcis_at s))" for j
    using none by (auto simp: find_append split: option.splits)
  note here = there [simplified]
  have good: "mci_ok ?s"
    using ok none assms(3,4) well_kept_append [of only_services "mcis_at s" m]
      owned_append [of MCIControllerFinalizer "has_balancer (env s)" "mcis_at s" m]
    by (simp add: mci_ok_def has_balancer_def)
  have settled: "mci_settled ?s j \<or> mci_covers ?s ?e j" if "mci_settled s j" for j
    using that by (auto simp: mci_settled_def here with_stored_settled split: option.splits)
  have kept: "mci_covers ?s e j" if "mci_covers s e j" for e j
    by (rule covers_mono [OF that]) (use none in \<open>auto simp: here\<close>)
  show ?thesis using good settled kept unfolding keeps_up_def by auto
qed

lemma removed_kept_up:
  assumes ok: "mci_ok s" and found: "find_key k (mcis_at s) = Some m" and "MCIControllerFinalizer \<notin> set (Finalizers m)"
  shows "mci_keeps_up s [e] (with_stored (filter (\<lambda>x. key_of x \<noteq> k) (mcis_at s)) s)" (is "mci_keeps_up s [e] ?s")
proof -
  have there: "find_key j (mcis_at ?s) = (if j = k then None else find_key j (mcis_at s))" for j
    by (simp add: find_filter)
  note here = there [simplified]
  have good: "mci_ok ?s"
    using ok well_kept_filter [of only_services "mcis_at s"]
      owned_filter [of only_services "mcis_at s" MCIControllerFinalizer "has_balancer (env s)" k m] found assms(3)
    by (simp add: mci_ok_def has_balancer_def)
  have settled: "mci_settled ?s j" if "mci_settled s j" for j
    using that by (auto simp: mci_settled_def here with_stored_settled split: option.splits)
  have kept: "mci_settled ?s j \<or> mci_covers ?s e' j" if "mci_covers s e' j" for e' j
  proof (cases "j = k")
    case False
    then have "mci_covers ?s e' j" by (intro covers_mono [OF that]) (auto simp: here)
    then show ?thesis ..
  qed (simp add: mci_settled_def here)
  show ?thesis using good settled kept unfolding keeps_up_def by blast
qed

text \<open>A change of a cluster matters to the ingresses located there, and its event covers these.\<close>

lemma blocked_unchanged:
  assumes "find_key (key_of cl') cs = Some cl"
    and "has_action (TrafficControl std_deps) (elems (RemedyActions cl)) = has_action (TrafficControl std_deps) (elems (RemedyActions cl')) \<or>
      \<not> mciSvcLocationsContainsCluster m cl'"
  shows "blocked_clusters test_mci_controller m (put_key cl' cs) = blocked_clusters test_mci_controller m cs"
proof -
  have name: "Name cl = Name cl'" using find_keyD [OF assms(1)] by (simp add: key_of_def)
  let ?located = "located_names (elems (ServiceLocations (mciStatus m)))"
  have located: "Name cl' \<in> set ?located \<longleftrightarrow> mciSvcLocationsContainsCluster m cl'"
    by (simp add: set_located_names mciSvcLocationsContainsCluster_def locations_contain_iff)
  have "collect_blocked std_deps ?located (put_key cl' cs) acc = collect_blocked std_deps ?located cs acc" for acc
    using assms(1)
  proof (induction cs arbitrary: acc)
    case (Cons x xs)
    then show ?case using assms(2) name located by (auto split: if_splits)
  qed simp
  then show ?thesis by (simp add: blocked_clusters_def)
qed

lemma cluster_kept_up:
  assumes ok: "mci_ok s" and found: "find_key k (apiClusters (env s)) = Some cl" and key: "key_of cl' = k"
  shows "mci_keeps_up s [WatchCluster (UpdateEvent cl cl')] (with_clusters (put_key cl' (apiClusters (env s))) s)"
    (is "mci_keeps_up s [?e] ?s")
proof -
  have "mci_settled ?s j \<or> mci_covers ?s ?e j" if "mci_settled s j" for j
  proof (cases "find_key j (mcis_at s)")
    case (Some m)
    show ?thesis
    proof (cases "ours_at s m \<longrightarrow> mci_covers ?s ?e j")
      case False
      then have "has_action (TrafficControl std_deps) (elems (RemedyActions cl)) = has_action (TrafficControl std_deps) (elems (RemedyActions cl')) \<or>
          \<not> mciSvcLocationsContainsCluster m cl'"
        using Some by auto
      then have "blocked_clusters test_mci_controller m (put_key cl' (apiClusters (env s))) =
          blocked_clusters test_mci_controller m (apiClusters (env s))"
        using found key by (intro blocked_unchanged) auto
      then have "settled_mci ?s m = settled_mci s m" by (simp add: settled_mci_def has_balancer_def)
      then show ?thesis using that Some by (simp add: mci_settled_def)
    qed (use Some in \<open>auto simp: mci_settled_def\<close>)
  qed (simp add: mci_settled_def)
  moreover have "mci_covers ?s e j" if "mci_covers s e j" for e j
    by (rule covers_mono [OF that]) auto
  moreover have "mci_ok ?s"
    using ok by (simp add: mci_ok_def has_balancer_def put_keys)
  ultimately show ?thesis by (auto simp: keeps_up_def)
qed

lemma mci_others_kept_up:
  assumes "mci_others s es s'" and "mci_ok s"
  shows "mci_keeps_up s es s'"
  using assms(1)
proof (cases rule: mci_others.cases)
  case (created m)
  then show ?thesis using created_kept_up [OF assms(2)] by simp
next
  case (respecified k m sp m')
  then show ?thesis using find_keyD [of k "mcis_at s" m]
    by (auto intro!: put_kept_up [OF assms(2)])
next
  case (refinalized k m fs m')
  moreover have "only_services m" using assms(2) refinalized(3) well_keptD [of only_services "mcis_at s" k m] by (simp add: mci_ok_def)
  ultimately show ?thesis using find_keyD [of k "mcis_at s" m]
    by (auto intro!: put_kept_up [OF assms(2)] simp: only_services_def has_backend_def)
next
  case (deleted k m m' t)
  moreover have "only_services m" using assms(2) deleted(3) well_keptD [of only_services "mcis_at s" k m] by (simp add: mci_ok_def)
  ultimately show ?thesis using find_keyD [of k "mcis_at s" m]
    by (auto intro!: put_kept_up [OF assms(2)] simp: only_services_def has_backend_def)
next
  case (removed k m)
  then show ?thesis using removed_kept_up [OF assms(2)] by simp
next
  case (cluster k cl cl')
  then show ?thesis using cluster_kept_up [OF assms(2)] by simp
next
  case (elsewhere e)
  then show ?thesis using assms(2) by (simp add: keeps_up_def)
qed

section \<open>An event that arrives is handled\<close>

lemma test_cached: "cached std_deps (mem_server std_deps) (mcis_at s) (apiClasses (env s)) (env s)"
  by (rule mem_server_cached)

lemma covered_delivered:
  assumes "mci_covers s e k"
  shows "mci_settled s k \<or> k \<in> set (mci_handle e s)"
proof -
  have own: "\<exists>l. run_state (CheckIngressClassMatched std_deps (mem_server std_deps) x ''fake'') s =
      (ours_at s x, s\<lparr>calls := l\<rparr>)" for x
    by (rule run_CheckIngressClassMatched_cached [OF test_cached])
  from assms consider (made) x where "e = WatchMCI (CreateEvent x)"
    | (changed) old x where "e = WatchMCI (UpdateEvent old x)"
    | (cluster) a b where "e = WatchCluster (UpdateEvent a b)"
    by (cases "(s, e, k)" rule: mci_covers.cases) auto
  then have "k \<in> set (mci_handle e s)"
  proof cases
    case (made x)
    then show ?thesis using assms own [of x] by (auto simp: mci_handle_def)
  next
    case (changed old x)
    then show ?thesis using assms own [of x] by (auto simp: mci_handle_def IsZero_def)
  next
    case (cluster a b)
    then obtain m where m: "find_key k (mcis_at s) = Some m" "ours_at s m" "mciSvcLocationsContainsCluster m b"
      using assms by (auto split: option.splits)
    then have member: "m \<in> set (mcis_at s)" "key_of m = k" using find_keyD [of k] by blast+
    have "in_cache test_mci_controller (mcis_at s) (apiClasses (env s)) s"
      by (simp add: test_cached)
    moreover have "has_action (TrafficControl (mciDeps test_mci_controller)) (elems (RemedyActions a)) \<noteq>
        has_action (TrafficControl (mciDeps test_mci_controller)) (elems (RemedyActions b))"
      using assms cluster by simp
    ultimately have "mci_handle e s =
        keys_of_ours test_mci_controller (apiClasses (env s)) (mcis_at s) (\<lambda>m. mciSvcLocationsContainsCluster m b)"
      unfolding cluster mci_handle_def using run_cluster_list by fastforce
    moreover have "k \<in> set (keys_of_ours test_mci_controller (apiClasses (env s)) (mcis_at s)
        (\<lambda>m. mciSvcLocationsContainsCluster m b))"
      using m(2,3) member by (auto simp: keys_of_ours_def)
    ultimately show ?thesis by (simp only:)
  qed
  then show ?thesis ..
qed

section \<open>A reconcile that runs to its end\<close>

text \<open>It leaves the clusters and the classes alone.\<close>

definition cluster_view :: "Testbed \<Rightarrow> Cluster list \<times> IngressClass list" where
  "cluster_view w = (apiClusters w, apiClasses w)"

lemma maintains_view:
  assumes "leaves view f"
  shows "maintains (\<lambda>w. view w = v) (lift_call f entry)"
  by (rule maintains_call) (use assms in \<open>simp add: leaves_def\<close>)

lemma test_calls_view:
  "leaves cluster_view (cGet (mcis (mem_server std_deps)) k)" "leaves cluster_view (cUpdate (mcis (mem_server std_deps)) x)"
  "leaves cluster_view (cPatch (mcis (mem_server std_deps)) x y)" "leaves cluster_view (cStatusUpdate (mcis (mem_server std_deps)) x)"
  "leaves cluster_view (cList (clusters (mem_server std_deps)) opts)"
  "leaves cluster_view (GetBalancer (fst (LoadBalancer std_deps)) x)" "leaves cluster_view (EnsureBalancer (fst (LoadBalancer std_deps)) x)"
  "leaves cluster_view (UpdateBalancer (fst (LoadBalancer std_deps)) x)" "leaves cluster_view (DeleteBalancer (fst (LoadBalancer std_deps)) x)"
  by (simp_all add: leaves_def cluster_view_def mem_write_view mci_balancer_defs addCall_def Let_def split: option.splits)

lemma reconcile_view: "maintains (\<lambda>w. cluster_view w = v) (ReconcileMCI test_mci_controller k)"
  unfolding ReconcileMCI_def handleMCIDelete_def handleMCICreateOrUpdate_def sync_balancer_def handleMCIUpdate_def
    handleMCICreate_def updateMCIStatus_def mci_status_attempt_def updateMCITrafficBlockClusters_def block_attempt_def
    test_mci_controller_simps api_defs lb_defs
  by (rule assertion_rules maintains_retry retry_upto_ok maintains_view test_calls_view | assumption)+

lemma reconcile_frame:
  assumes "mci_recon k s = (e, s')"
  shows "apiClusters (env s') = apiClusters (env s)" and "apiClasses (env s') = apiClasses (env s)"
  using betweenD [OF reconcile_view assms [unfolded mci_recon_def] refl] by (simp_all add: cluster_view_def)

text \<open>The two reconciles that find nothing to store.\<close>

lemma reconcile_missing:
  assumes "find_key k (mcis_at s) = None"
  shows "mci_recon k s = (None, s\<lparr>calls := calls s @ [Reconciling MCIKind k, Got MCIKind k (Inl NotFound)]\<rparr>)"
  using assms by (simp add: mci_recon_def ReconcileMCI_def run_api)

lemma reconcile_released:
  assumes "find_key k (mcis_at s) = Some mci" and "DeletionTimestamp mci \<noteq> None"
    and "MCIControllerFinalizer \<notin> set (Finalizers mci)"
  shows "\<exists>s'. mci_recon k s = (None, s') \<and> mcis_at s' = mcis_at s \<and>
    (\<forall>n. has_balancer (env s') n \<longleftrightarrow> n \<noteq> mci_key std_deps mci \<and> has_balancer (env s) n) \<and>
    told (calls s') = (told (calls s))(k := None)"
proof -
  have k: "key_of mci = k" using find_keyD [OF assms(1)] by simp
  show ?thesis using assms k
    by (auto simp: mci_recon_def ReconcileMCI_def run_api IsZero_def handleMCIDelete_def lb_defs LoadBalancer_def
        EnsureLoadBalancerDeleted_def Let_def has_balancer_def mci_key_def told_append)
qed

text \<open>
  What a reconcile of \<open>k\<close> owes the rest: it may replace the ingress of \<open>k\<close> and its balancer, and
  leaves the others to themselves.
\<close>

lemma reconciled_kept_up:
  assumes ok: "mci_ok s" and run: "mci_recon k s = (None, w)" and found: "find_key k (mcis_at s) = Some m"
    and well: "well_stored w"
    and store: "\<And>j. find_key j (mcis_at w) = (if j = k then zo else find_key j (mcis_at s))"
    and held: "\<And>n. has_balancer (env w) n \<longleftrightarrow> (if n = mci_key std_deps m then b else has_balancer (env s) n)"
    and owner: "b \<Longrightarrow> \<exists>z. zo = Some z \<and> key_of z = k \<and> MCIControllerFinalizer \<in> set (Finalizers z)"
    and told: "told (calls w) = (told (calls s))(k := v)"
    and here: "\<And>z. zo = Some z \<Longrightarrow> settled_mci w z \<and> IngressClassName (mciSpec z) = IngressClassName (mciSpec m) \<and>
      ServiceLocations (mciStatus z) = ServiceLocations (mciStatus m)"
  shows "mci_settled w k \<and> mci_keeps_up s [] w"
proof -
  note frame = reconcile_frame [OF run]
  have k: "key_of m = k" using find_keyD [OF found] by simp
  have well': "well_stored s" and owned: "owned s" using ok by (simp_all add: mci_ok_def)
  have settled: "mci_settled w k" using here by (auto simp: mci_settled_def store split: option.splits)
  have good: "mci_ok w"
    using owned_replaced [OF well' well owned store, of "has_balancer (env w)" b] owner held well ok frame k
    by (auto simp: mci_ok_def mci_key_name)
  have "mci_settled w j" if "mci_settled s j" for j
  proof (cases "j = k \<or> find_key j (mcis_at s) = None")
    case False
    then obtain x where x: "find_key j (mcis_at s) = Some x" by blast
    then have "mci_key std_deps x \<noteq> mci_key std_deps m"
      using False k others_named [OF well' found, of x] find_keyD [OF x] by (simp add: mci_key_name)
    then have "settled_mci w x = settled_mci s x"
      using False find_keyD [OF x] by (intro settled_cong) (simp_all add: held told frame)
    then show ?thesis using that x False by (simp add: mci_settled_def store frame)
  qed (use settled store in \<open>auto simp: mci_settled_def\<close>)
  moreover have "mci_settled w j \<or> mci_covers w e j" if "mci_covers s e j" for e j
  proof (cases "j = k")
    case False
    then have "mci_covers w e j" by (intro covers_mono [OF that]) (auto simp: store frame)
    then show ?thesis ..
  qed (use settled in simp)
  ultimately show ?thesis using settled good unfolding keeps_up_def by blast
qed

lemma only_services_spec: "mciSpec z = mciSpec m \<Longrightarrow> only_services z = only_services m"
  by (simp add: only_services_def has_backend_def)

text \<open>A reconcile of \<open>k\<close> succeeds; afterwards \<open>k\<close> is settled, or gone.\<close>

lemma reconcile_settles:
  assumes ok: "mci_ok s"
  shows "\<exists>w. mci_recon k s = (None, w) \<and> mci_settled w k \<and> mci_keeps_up s [] w"
proof (cases "find_key k (mcis_at s)")
  case None
  let ?w = "s\<lparr>calls := calls s @ [Reconciling MCIKind k, Got MCIKind k (Inl NotFound)]\<rparr>"
  have settled: "mci_settled ?w j = mci_settled s j" for j
    unfolding mci_settled_def settled_mci_def by (simp add: told_append split: option.split)
  have "mci_settled ?w k" using None by (simp add: mci_settled_def)
  moreover have "mci_covers ?w e j" if "mci_covers s e j" for e j
    by (rule covers_mono [OF that]) simp_all
  moreover have "mci_ok ?w" using ok by (simp add: mci_ok_def)
  ultimately show ?thesis
    unfolding reconcile_missing [OF None] keeps_up_def using settled by blast
next
  case (Some m)
  have k: "key_of m = k" using find_keyD [OF Some] by simp
  have well: "well_stored s" using ok by (simp add: mci_ok_def)
  note good = well_keptD [OF well Some]
  note kept = reconciled_kept_up [OF ok _ Some]
  have put: "find_key j (put_key z (mcis_at s)) = (if j = k then Some z else find_key j (mcis_at s))" if "key_of z = k" for j z
    using that Some by (simp add: find_put_key)
  have well_put: "well_stored w" if "mci_recon k s = (None, w)" "mcis_at w = put_key z (mcis_at s)" "key_of z = k"
      "mciSpec z = mciSpec m" for w z
    using well_kept_put [OF well, of z m] that good k Some only_services_spec [of z m] by simp
  consider (live) "DeletionTimestamp m = None"
    | (deleting) "DeletionTimestamp m \<noteq> None" "MCIControllerFinalizer \<in> set (Finalizers m)"
    | (released) "DeletionTimestamp m \<noteq> None" "MCIControllerFinalizer \<notin> set (Finalizers m)" by blast
  then show ?thesis
  proof cases
    case live
    from reconcile_live [OF Some live conjunct1 [OF good]] obtain w z where
      run: "mci_recon k s = (None, w)"
      and w: "mcis_at w = put_key z (mcis_at s)"
        "\<And>n. has_balancer (env w) n \<longleftrightarrow> n = mci_key std_deps m \<or> has_balancer (env s) n"
        "told (calls w) = (told (calls s))(k \<mapsto> mciSpec m)"
      and z: "key_of z = k" "mciSpec z = mciSpec m" "DeletionTimestamp z = None" "MCIControllerFinalizer \<in> set (Finalizers z)"
        "mciStatus z = (mciStatus m)
          \<lparr>TrafficBlockClusters := blocked_clusters test_mci_controller m (apiClusters (env s)),
           statusLoadBalancer := answered_status (has_balancer (env s) (mci_key std_deps m))\<rparr>"
      unfolding mci_recon_def by blast
    have "settled_mci w z"
      using z k w(2,3) reconcile_frame [OF run] blocked_clusters_cong [of z m test_mci_controller]
      by (simp add: settled_mci_def mci_key_name)
    then have "mci_settled w k \<and> mci_keeps_up s [] w"
      using z w(2)
      by (intro kept [where zo = "Some z" and b = True, OF run well_put [OF run w(1) z(1,2)] _ _ _ w(3)])
        (simp_all add: w(1) put)
    then show ?thesis using run by blast
  next
    case deleting
    let ?z = "next_version (m\<lparr>Finalizers := filter (\<lambda>f. f \<noteq> MCIControllerFinalizer) (Finalizers m)\<rparr>)"
    from reconcile_deleting [OF Some deleting] obtain w where
      run: "mci_recon k s = (None, w)"
      and w: "mcis_at w = (if set (Finalizers m) = {MCIControllerFinalizer} then filter (\<lambda>x. key_of x \<noteq> k) (mcis_at s)
          else put_key ?z (mcis_at s))"
        "\<And>n. has_balancer (env w) n \<longleftrightarrow> n \<noteq> mci_key std_deps m \<and> has_balancer (env s) n"
        "told (calls w) = (told (calls s))(k := None)"
      unfolding mci_recon_def by blast
    have "mci_settled w k \<and> mci_keeps_up s [] w"
    proof (cases "set (Finalizers m) = {MCIControllerFinalizer}")
      case True
      then have "mcis_at w = filter (\<lambda>x. key_of x \<noteq> k) (mcis_at s)" using w(1) by simp
      moreover from this have "well_stored w"
        using well by (simp add: well_kept_filter)
      ultimately show ?thesis
        using w(2) by (intro kept [where zo = None and b = False, OF run _ _ _ _ w(3)]) (simp_all add: find_filter)
    next
      case False
      obtain z where z: "z = ?z" by blast
      have stored: "mcis_at w = put_key z (mcis_at s)" using w(1) False z by simp
      have same: "key_of z = k" "mciSpec z = mciSpec m" "mciStatus z = mciStatus m" "settled_mci w z"
        using k deleting(1) by (simp_all add: z settled_mci_def)
      show ?thesis
        using w(2) well_put [OF run stored same(1,2)] same
        by (intro kept [where zo = "Some z" and b = False, OF run _ _ _ _ w(3)]) (simp_all add: stored put)
    qed
    then show ?thesis using run by blast
  next
    case released
    from reconcile_released [OF Some released] obtain w where
      run: "mci_recon k s = (None, w)"
      and w: "mcis_at w = mcis_at s"
        "\<And>n. has_balancer (env w) n \<longleftrightarrow> n \<noteq> mci_key std_deps m \<and> has_balancer (env s) n"
        "told (calls w) = (told (calls s))(k := None)"
      by blast
    have "settled_mci w m" using released by (simp add: settled_mci_def)
    then have "mci_settled w k \<and> mci_keeps_up s [] w"
      using Some w(2) well
      by (intro kept [where zo = "Some m" and b = False, OF run _ _ _ _ w(3)]) (simp_all add: w(1))
    then show ?thesis using run by blast
  qed
qed

section \<open>A reconcile whose calls fail\<close>

interpretation mci_named: keyed_balancer "fst (LoadBalancer std_deps)" has_balancer "\<lambda>x. name_of (key_of x)"
  unfolding name_of_def by (rule fake_mci_keyed.keyed_balancer_axioms)

interpretation mci_kind: balanced_kind "fst (LoadBalancer std_deps)" has_balancer MCIControllerFinalizer only_services MCIObj
  apiMCIs "\<lambda>xs w. w\<lparr>apiMCIs := xs\<rparr>" cluster_view told
proof unfold_locales
  fix w w' :: Testbed and x r n
  assume "DeleteBalancer (fst (LoadBalancer std_deps)) x w = (r, w')" "has_balancer w' n"
  then show "has_balancer w n" by (auto simp: mci_balancer_defs Let_def split: if_splits)
next
  fix j c l
  assume "\<And>x. key_of x = j \<Longrightarrow> asked c \<noteq> Some (MCIObj x)"
  then show "told (l @ [c]) j = told l j"
    by (cases "(c, told l)" rule: see_told.cases) (auto simp: told_append)
qed (auto simp: leaves_def cluster_view_def mci_balancer_defs addCall_def Let_def split: option.splits)

lemma unreliable_mci_fields [simp]:
  "mciClient (unreliable_mci_controller \<phi> \<psi>) = unreliable_server \<phi>" "mciDeps (unreliable_mci_controller \<phi> \<psi>) = std_deps"
  "mciLoadBalancer (unreliable_mci_controller \<phi> \<psi>) = unreliable_balancer \<psi> (fst (LoadBalancer std_deps))"
  "mciRetry (unreliable_mci_controller \<phi> \<psi>) = retry_upto 4" "mciBlockRetry (unreliable_mci_controller \<phi> \<psi>) = retry_upto 4"
  by (simp_all add: unreliable_mci_controller_def)

abbreviation mci_server :: "(kind \<Rightarrow> Testbed fates) \<Rightarrow> (MultiClusterIngress, Testbed) kind_client" where
  "mci_server \<phi> \<equiv> unreliable_client (\<phi> MCIKind) (mem_client apiMCIs (\<lambda>xs w. w\<lparr>apiMCIs := xs\<rparr>) (mci_has_field std_deps))"

text \<open>A status write of a copy that keeps what a copy is: the copies stay copies.\<close>

lemma mci_status_written:
  assumes there: "find_key k (mcis_at s0) = Some m" and x: "\<And>s. mci_kind.copied k v s \<Longrightarrow> mci_kind.copied k x s" and v: "v \<in> C"
  shows "leads (\<lambda>s. mci_kind.live s0 k C s) (api_status_update MCIObj (mci_server \<phi>) x)
    (\<lambda>r s. mci_kind.live s0 k C s \<and> mci_kind.copied k (snd r) s)"
proof -
  have "api_status_update MCIObj (mci_server \<phi>) x \<in> mci_kind.writes (\<phi> MCIKind) (mci_has_field std_deps) x"
    by (simp add: mci_kind.writes_def Let_def)
  from mci_kind.live_write [OF this there, where C = C] show ?thesis
    by (rule leads_consequence) (use x v in auto)
qed

lemma mci_copied_status:
  "mci_kind.copied k v s \<Longrightarrow> mci_kind.copied k (with_lb_status st v) s" "mci_kind.copied k v s \<Longrightarrow> mci_kind.copied k (with_blocked cs v) s"
  using only_services_spec [of "with_lb_status st v" v] only_services_spec [of "with_blocked cs v" v]
  by (auto simp: mci_kind.copied_def)

lemma mci_status_attempt_frame:
  assumes there: "find_key k (mcis_at s0) = Some m"
  shows "leads (mci_kind.live s0 k {v}) (mci_status_attempt (unreliable_mci_controller \<phi> \<psi>) st v) (\<lambda>r. mci_kind.live s0 k {snd r})"
proof -
  have store: "leads (mci_kind.live s0 k {v}) (api_status_update MCIObj (mci_server \<phi>) (with_lb_status st v)) (\<lambda>r. mci_kind.live s0 k {snd r})"
    by (rule leads_consequence [OF mci_status_written [OF there mci_copied_status(1), where C = "{v}"]]) simp_all
  have again: "leads (mci_kind.live s0 k {y}) (do {
       r \<leftarrow> api_get MCIKind MCIObj (mci_server \<phi>) (key_of y);
       case r of Inr updated \<Rightarrow> ret (e, updated) | Inl _ \<Rightarrow> ret (e, y) }) (\<lambda>r. mci_kind.live s0 k {snd r})" for y e
  proof (rule leads_known [where c = "key_of y = k"])
    assume y: "key_of y = k"
    show ?thesis unfolding y by (rule leads_bind [OF mci_kind.live_get [where v = y]]) (auto intro!: leads_rules)
  qed (simp add: mci_kind.copied_def)
  show ?thesis
    unfolding mci_status_attempt_def unreliable_mci_fields unreliable_server_simps mem_server_simps
    by (rule leads_bind [OF store], rule leads_cases(1), rule leads_if)
      (use again in \<open>auto intro!: leads_rules\<close>)
qed

lemma updateMCIStatus_frame:
  assumes there: "find_key k (mcis_at s0) = Some m"
  shows "leads (mci_kind.live s0 k {v}) (updateMCIStatus (unreliable_mci_controller \<phi> \<psi>) v st) (\<lambda>_. mci_kind.frame s0 k)"
proof -
  have "leads (mci_kind.live s0 k {v}) (retry_upto 4 (mci_status_attempt (unreliable_mci_controller \<phi> \<psi>) x) v) (\<lambda>r. mci_kind.live s0 k {snd r})" for x
    by (rule leads_retry [OF retry_upto_ok, where I = "\<lambda>v. mci_kind.live s0 k {v}"], rule mci_status_attempt_frame [OF there])
  then have "leads (mci_kind.live s0 k {v}) (do { (err, _) \<leftarrow> retry_upto 4 (mci_status_attempt (unreliable_mci_controller \<phi> \<psi>) x) v; ret err })
      (\<lambda>_. mci_kind.frame s0 k)" for x
    by (rule leads_bind) (auto intro!: leads_rules)
  then show ?thesis unfolding updateMCIStatus_def unreliable_mci_fields by (auto intro!: leads_rules)
qed

lemma block_attempt_frame:
  assumes there: "find_key k (mcis_at s0) = Some m"
  shows "leads (\<lambda>s. mci_kind.live s0 k {fst v, fst (snd v)} s) (block_attempt (unreliable_mci_controller \<phi> \<psi>) k cs v)
    (\<lambda>r. mci_kind.live s0 k {fst (snd r), fst (snd (snd r))})"
proof -
  obtain x c same where v: "v = (x, c, same)" by (cases v)
  have store: "leads (mci_kind.live s0 k {x, c}) (api_status_update MCIObj (mci_server \<phi>) (with_blocked cs x))
      (\<lambda>r s. mci_kind.live s0 k {snd r, c} s)"
    by (rule leads_consequence [OF mci_status_written [OF there mci_copied_status(2), where C = "{x, c}"]]) auto
  have again: "leads (mci_kind.live s0 k {y, c}) (do {
       r \<leftarrow> api_get MCIKind MCIObj (mci_server \<phi>) k;
       case r of Inr updated \<Rightarrow> ret (e, updated, if same then y else c, False) | Inl _ \<Rightarrow> ret (e, y, if same then y else c, same) })
      (\<lambda>r. mci_kind.live s0 k {fst (snd r), fst (snd (snd r))})" for y e
    by (rule leads_bind [OF mci_kind.live_get [where v = y]]) (auto intro!: leads_rules)
  show ?thesis
    unfolding block_attempt_def v prod.case Let_def unreliable_mci_fields unreliable_server_simps mem_server_simps
    by (rule leads_if, (rule leads_ret, simp), simp only: fst_conv snd_conv, rule leads_bind [OF store], rule leads_cases(1), rule leads_if)
      (use again in \<open>auto intro!: leads_rules\<close>)
qed

lemma blocked_frame:
  assumes there: "find_key k (mcis_at s0) = Some m" and v: "key_of v = k"
  shows "leads (mci_kind.live s0 k {v}) (updateMCITrafficBlockClusters (unreliable_mci_controller \<phi> \<psi>) v) (\<lambda>r. mci_kind.live s0 k {snd r})"
proof -
  let ?c = "unreliable_mci_controller \<phi> \<psi>"
  let ?I = "\<lambda>v s. mci_kind.live s0 k {fst v, fst (snd v)} s"
  have list: "leads (mci_kind.live s0 k {v}) (api_list ClusterKind (clusters (unreliable_server \<phi>)) all_objects) (\<lambda>_. mci_kind.live s0 k {v})"
    unfolding unreliable_server_simps mem_server_simps by (rule mci_kind.live_list)
  have "leads (?I (v, v, True)) (retry_upto 4 (block_attempt ?c k cs) (v, v, True)) (\<lambda>r. ?I (snd r))" for cs
    by (rule leads_retry [OF retry_upto_ok, where I = ?I], rule block_attempt_frame [OF there])
  then have attempts: "leads (mci_kind.live s0 k {v}) (do { (err, (_, caller, _)) \<leftarrow> retry_upto 4 (block_attempt ?c k cs) (v, v, True); ret (err, caller) })
      (\<lambda>r. mci_kind.live s0 k {snd r})" for cs
    by (intro leads_bind [where R = "\<lambda>r. ?I (snd r)"]) (auto intro!: leads_rules)
  show ?thesis
    unfolding updateMCITrafficBlockClusters_def unreliable_mci_fields v Let_def
    by (rule leads_bind [OF list], rule leads_cases(2), (rule leads_ret, simp), rule attempts)
qed

lemma sync_balancer_frame:
  assumes there: "find_key k (mcis_at s0) = Some m"
  shows "leads (mci_kind.live s0 k {v}) (sync_balancer (unreliable_mci_controller \<phi> \<psi>) v) (\<lambda>_. mci_kind.frame s0 k)"
proof (rule leads_known [where c = "key_of v = k"])
  assume v: "key_of v = k"
  let ?c = "unreliable_mci_controller \<phi> \<psi>" and ?b = "unreliable_balancer \<psi> (fst (LoadBalancer std_deps))"
  have rest: "leads (mci_kind.live s0 k {x}) (do {
       (_, exist, err) \<leftarrow> lb_get MCIObj ?b x;
       if err \<noteq> None then ret err else if exist then handleMCIUpdate ?c x else handleMCICreate ?c x }) (\<lambda>_. mci_kind.frame s0 k)" for x
  proof (rule leads_known [where c = "key_of x = k"])
    assume x: "key_of x = k"
    have asks: "leads (mci_kind.live s0 k {x}) (lb_ensure MCIObj ?b x) (\<lambda>_. mci_kind.live s0 k {x})"
      "leads (mci_kind.live s0 k {x}) (lb_update MCIObj ?b x) (\<lambda>_. mci_kind.live s0 k {x})"
      by (rule mci_kind.live_lb_write [OF there x, where v = x]; simp)+
    have tell: "leads (mci_kind.live s0 k {x}) (handleMCIUpdate ?c x) (\<lambda>_. mci_kind.frame s0 k)"
      "leads (mci_kind.live s0 k {x}) (handleMCICreate ?c x) (\<lambda>_. mci_kind.frame s0 k)"
      unfolding handleMCIUpdate_def handleMCICreate_def unreliable_mci_fields
      by (rule leads_bind [OF asks(2)] leads_bind [OF asks(1)], rule leads_cases(1), rule leads_if,
          (rule leads_ret, blast), rule updateMCIStatus_frame [OF there])+
    show ?thesis 
      by (rule leads_bind [OF mci_kind.live_lb_get [OF there]], rule leads_cases(1), rule leads_cases(1), rule leads_if,
          (rule leads_ret, blast), rule leads_if, rule tell(1), rule tell(2))
  qed (simp add: mci_kind.copied_def)
  show ?thesis
    unfolding sync_balancer_def unreliable_mci_fields
    by (rule leads_bind [OF blocked_frame [OF there v]], rule leads_cases(1), rule leads_if, (rule leads_ret, blast))
      (use rest in simp)
qed (simp add: mci_kind.copied_def)

lemma handleMCICreateOrUpdate_frame:
  assumes there: "find_key k (mcis_at s0) = Some m" and v: "key_of v = k" "only_services v"
  shows "leads (\<lambda>s. mci_kind.frame s0 k s \<and> find_key k (mcis_at s) = Some v)
    (handleMCICreateOrUpdate (unreliable_mci_controller \<phi> \<psi>) v) (\<lambda>_. mci_kind.frame s0 k)"
proof (cases "MCIControllerFinalizer \<in> set (Finalizers v)")
  case True
  then have "leads (\<lambda>s. mci_kind.frame s0 k s \<and> find_key k (mcis_at s) = Some v)
      (sync_balancer (unreliable_mci_controller \<phi> \<psi>) v) (\<lambda>_. mci_kind.frame s0 k)"
    by (intro leads_consequence [OF sync_balancer_frame [OF there]]) (simp_all add: mci_kind.copied_def v)
  then show ?thesis using True by (simp add: handleMCICreateOrUpdate_def)
next
  case False
  let ?x = "v\<lparr>Finalizers := Finalizers v @ [MCIControllerFinalizer]\<rparr>"
  have x: "key_of ?x = k" "only_services ?x" "ResourceVersion ?x = ResourceVersion v"
    using v by (simp_all add: only_services_def has_backend_def)
  have "api_patch MCIObj (mci_server \<phi>) ?x v \<in> mci_kind.writes (\<phi> MCIKind) (mci_has_field std_deps) ?x"
    by (simp add: mci_kind.writes_def Let_def)
  from mci_kind.frame_finalized [OF this there x(1,2)]
  have patch: "leads (mci_kind.frame s0 k) (api_patch MCIObj (mci_server \<phi>) ?x v)
      (\<lambda>r s. mci_kind.frame s0 k s \<and> (fst r = None \<longrightarrow> mci_kind.copied k v s))"
    by (rule leads_consequence) (use v x(3) in auto)
  have "leads (mci_kind.frame s0 k) (do {
      (err, _) \<leftarrow> api_patch MCIObj (mci_server \<phi>) ?x v;
      if err \<noteq> None then ret err else sync_balancer (unreliable_mci_controller \<phi> \<psi>) v }) (\<lambda>_. mci_kind.frame s0 k)"
    by (rule leads_bind [OF patch]) (auto intro!: leads_rules leads_consequence [OF sync_balancer_frame [OF there]])
  moreover have "handleMCICreateOrUpdate (unreliable_mci_controller \<phi> \<psi>) v = do {
      (err, _) \<leftarrow> api_patch MCIObj (mci_server \<phi>) ?x v;
      if err \<noteq> None then ret err else sync_balancer (unreliable_mci_controller \<phi> \<psi>) v }"
    using False by (simp add: handleMCICreateOrUpdate_def)
  ultimately show ?thesis by (auto elim!: leads_consequence)
qed

lemma handleMCIDelete_frame:
  assumes there: "find_key k (mcis_at s0) = Some m" and v: "key_of v = k" "only_services v"
  shows "leads (mci_kind.frame s0 k) (handleMCIDelete (unreliable_mci_controller \<phi> \<psi>) v) (\<lambda>_. mci_kind.frame s0 k)"
proof -
  let ?I = "\<lambda>s. mci_kind.frame s0 k s \<and> \<not> has_balancer (env s) (name_of k)"
  have x: "key_of (v\<lparr>Finalizers := fs\<rparr>) = k" "only_services (v\<lparr>Finalizers := fs\<rparr>)" for fs
    using v by (simp_all add: only_services_def has_backend_def)
  have "api_update MCIObj (mci_server \<phi>) (v\<lparr>Finalizers := fs\<rparr>) \<in> mci_kind.writes (\<phi> MCIKind) (mci_has_field std_deps) (v\<lparr>Finalizers := fs\<rparr>)" for fs
    by (simp add: mci_kind.writes_def Let_def)
  from mci_kind.frame_released [OF this there x]
  have "leads ?I (do { (err, _) \<leftarrow> api_update MCIObj (mci_server \<phi>) (v\<lparr>Finalizers := fs\<rparr>); ret err }) (\<lambda>_. mci_kind.frame s0 k)" for fs
    by (rule leads_bind) (auto intro!: leads_rules)
  then have release: "leads ?I (let (finalizersUpdated, fs) = RemoveFinalizer std_deps (Finalizers v) MCIControllerFinalizer;
         mci = v\<lparr>Finalizers := fs\<rparr>
       in if finalizersUpdated then do { (err, _) \<leftarrow> api_update MCIObj (mci_server \<phi>) mci; ret err } else ret None) (\<lambda>_. mci_kind.frame s0 k)"
    by (auto simp: Let_def intro!: leads_rules split: prod.split)
  show ?thesis
    unfolding handleMCIDelete_def unreliable_mci_fields unreliable_server_simps mem_server_simps
  proof (rule leads_bind [OF mci_kind.frame_lb_delete [OF there v(1)]], rule leads_if)
    fix err :: "error option" assume "\<not> err \<noteq> None"
    then show "leads (\<lambda>s. mci_kind.frame s0 k s \<and> (err = None \<longrightarrow> \<not> has_balancer (env s) (name_of k)))
      (let (finalizersUpdated, fs) = RemoveFinalizer std_deps (Finalizers v) MCIControllerFinalizer;
         mci = v\<lparr>Finalizers := fs\<rparr>
       in if finalizersUpdated then do { (err, _) \<leftarrow> api_update MCIObj (mci_server \<phi>) mci; ret err } else ret None) (\<lambda>_. mci_kind.frame s0 k)"
      by (intro leads_consequence [OF release]) auto
  qed (auto intro!: leads_rules)
qed

lemma ReconcileMCI_frame:
  "leads (mci_kind.frame s0 k) (ReconcileMCI (unreliable_mci_controller \<phi> \<psi>) k) (\<lambda>_. mci_kind.frame s0 k)"
proof -
  let ?c = "unreliable_mci_controller \<phi> \<psi>"
  have note': "leads (mci_kind.frame s0 k) (note_call (Reconciling MCIKind k)) (\<lambda>_. mci_kind.frame s0 k)"
    using mci_kind.live_note [of "Reconciling MCIKind k" s0 k "{}"] by simp
  have found: "leads (\<lambda>s. mci_kind.frame s0 k s \<and> find_key k (mcis_at s) = Some v)
      (if \<not> IsZero (DeletionTimestamp v) then handleMCIDelete ?c v else handleMCICreateOrUpdate ?c v) (\<lambda>_. mci_kind.frame s0 k)"
    if v: "key_of v = k \<and> only_services v \<and> find_key k (mcis_at s0) \<noteq> None" for v
  proof -
    obtain m where m: "find_key k (mcis_at s0) = Some m" using v by blast
    have "leads (\<lambda>s. mci_kind.frame s0 k s \<and> find_key k (mcis_at s) = Some v) (handleMCIDelete ?c v) (\<lambda>_. mci_kind.frame s0 k)"
      by (rule leads_consequence [OF handleMCIDelete_frame [OF m]]) (use v in auto)
    then show ?thesis using handleMCICreateOrUpdate_frame [OF m, of v] v by simp
  qed
  show ?thesis
    unfolding ReconcileMCI_def unreliable_mci_fields unreliable_server_simps mem_server_simps
  proof (rule leads_bind [OF note'], rule leads_bind [OF mci_kind.frame_get], rule leads_cases(2), goal_cases)
    case (2 _ r v)
    show ?case
      by (rule leads_known [where c = "key_of v = k \<and> only_services v \<and> find_key k (mcis_at s0) \<noteq> None"], use 2 in simp,
        rule leads_consequence [OF found]) (use 2 in auto)
  qed (auto intro!: leads_rules)
qed

lemma mci_hampered_harmless:
  assumes ok: "mci_ok s" and run: "mci_hampers k s w"
  shows "harmless mci_ok mci_settled mci_covers (\<lambda>_. (=)) k s w"
proof (rule harmless_oneI)
  obtain \<phi> \<psi> e where "run_state (ReconcileMCI (unreliable_mci_controller \<phi> \<psi>) k) s = (Some e, w)"
    using run by (auto simp: mci_hampers_def)
  from leadsD [OF ReconcileMCI_frame this mci_kind.frame_start] have frame: "mci_kind.frame s k w" using ok by (simp add: mci_ok_def)
  then have view: "apiClusters (env w) = apiClusters (env s)" "apiClasses (env w) = apiClasses (env s)"
    using mci_kind.frameD(3) by (auto simp: cluster_view_def)
  then show "mci_ok w" using mci_kind.frameD(1,2) [OF frame] ok by (simp add: mci_ok_def)
  show "mci_settled w i" if i: "i \<noteq> k" "mci_settled s i" for i
  proof (cases "find_key i (mcis_at s)")
    case None
    then show ?thesis using mci_kind.frameD(4) [OF frame i(1)] by (simp add: mci_settled_def)
  next
    case (Some x)
    have x: "x \<in> set (mcis_at s)" "key_of x = i" using find_keyD [OF Some] by simp_all
    have "name_of i \<noteq> name_of k \<or> find_key k (mcis_at s) = None"
      using others_named [of only_services "mcis_at s" k _ x] ok i(1) x by (cases "find_key k (mcis_at s)") (simp_all add: mci_ok_def)
    then have "settled_mci w x = settled_mci s x"
      using mci_kind.frameD(5,6) [OF frame] i(1) x(2) view by (intro settled_cong) (simp_all add: mci_key_name)
    then show ?thesis using mci_kind.frameD(4) [OF frame i(1)] i(2) Some view by (simp add: mci_settled_def)
  qed
  show "mci_settled w i \<or> mci_covers w e i" if "i \<noteq> k" "mci_covers s e i" for i e
    using covers_mono [OF that(2) view(2)] mci_kind.frameD(4) [OF frame that(1)] by auto
qed

lemma mci_init_good:
  assumes "mci_init s"
  shows "mci_ok s" and "mci_settled s k"
  using assms by (simp_all add: mci_init_def mci_ok_def well_kept_def owned_by_def has_balancer_def mci_settled_def)

interpretation mci_loop: event_loop mci_init mci_others mci_hampers mci_handle mci_recon mci_ok mci_settled mci_covers "\<lambda>_. (=)"
proof unfold_locales
  show "mci_init w \<Longrightarrow> mci_ok w" "mci_init w \<Longrightarrow> mci_settled w i" for w i by (rule mci_init_good; assumption)+
  show "mci_ok w \<Longrightarrow> mci_others w es w' \<Longrightarrow> mci_keeps_up w es w'" for w es w' by (rule mci_others_kept_up)
  show "mci_ok w \<Longrightarrow> mci_hampers k w w' \<Longrightarrow> harmless mci_ok mci_settled mci_covers (\<lambda>_. (=)) k w w'" for k w w'
    by (rule mci_hampered_harmless)
  show "mci_ok w \<Longrightarrow> mci_covers w e i \<Longrightarrow> mci_settled w i \<or> (\<exists>k \<in> set (mci_handle e w). k = i)" for w e i
    using covered_delivered [of w e i] by simp
  show "mci_ok w \<Longrightarrow> \<exists>w'. mci_recon k w = (None, w') \<and> (\<forall>i. k = i \<longrightarrow> mci_settled w' i) \<and> mci_keeps_up w [] w'" for w k
    using reconcile_settles [of w k] by metis
qed

section \<open>What holds of the system\<close>

text \<open>A sample run: an ingress is created, its event arrives, and its key is reconciled.\<close>

definition start_world :: "(Testbed, call) world" where
  "start_world = \<lparr>env = empty_testbed\<lparr>apiClusters := [sample_cluster], apiClasses := [sample_class]\<rparr>, calls = []\<rparr>"

definition created_world :: "(Testbed, call) world" where
  "created_world = with_stored [sample_mci] start_world"

definition created_system :: "((Testbed, call) world, mci_watched, key) loop" where
  "created_system = \<lparr>loopWorld = created_world, loopEvents = [WatchMCI (CreateEvent sample_mci)], loopQueue = []\<rparr>"

definition delivered_system :: "((Testbed, call) world, mci_watched, key) loop" where
  "delivered_system = deliver mci_handle (WatchMCI (CreateEvent sample_mci)) [] created_system"

definition rested_system :: "((Testbed, call) world, mci_watched, key) loop" where
  "rested_system = process mci_recon (''shop'', ''web'') delivered_system"

lemma created_mci_fields:
  "key_of sample_mci = (''shop'', ''web'')" "DeletionTimestamp sample_mci = None" "only_services sample_mci"
  "CHR ''/'' \<notin> set (Namespace sample_mci)"
  by (auto simp: only_services_def has_backend_def sample_mci_def meta_literal_def ObjectMeta.defs key_of_def)

lemma created_system_runs: "mci_runs created_system"
proof -
  have world: "mcis_at start_world = []" "mci_init start_world"
    by (simp_all add: start_world_def empty_testbed_def mci_init_def key_of_def)
  have "mci_others start_world [WatchMCI (CreateEvent sample_mci)] (with_stored (mcis_at start_world @ [sample_mci]) start_world)"
    by (rule mci_others.created) (simp_all add: world created_mci_fields del: with_fields_of)
  then have "mci_others start_world [WatchMCI (CreateEvent sample_mci)] created_world"
    by (simp add: world(1) created_world_def)
  then have "mci_runs (announce [WatchMCI (CreateEvent sample_mci)] created_world
      \<lparr>loopWorld = start_world, loopEvents = [], loopQueue = []\<rparr>)"
    by (intro loop_runs.moved loop_runs.start world(2)) simp
  then show ?thesis by (simp add: announce_def created_system_def)
qed

lemma delivered_queue: "loopQueue delivered_system = [(''shop'', ''web'')]" "loopEvents delivered_system = []"
  "loopWorld delivered_system = created_world"
proof -
  have "ours_at created_world sample_mci"
    using sample_mci_ours by (simp add: created_world_def start_world_def)
  moreover obtain l where "run_state (CheckIngressClassMatched std_deps (mem_server std_deps) sample_mci ''fake'') created_world =
      (ours_at created_world sample_mci, created_world\<lparr>calls := l\<rparr>)"
    using run_CheckIngressClassMatched_cached [OF test_cached [of created_world], of sample_mci "''fake''"] by blast
  ultimately show "loopQueue delivered_system = [(''shop'', ''web'')]" "loopEvents delivered_system = []"
    "loopWorld delivered_system = created_world"
    by (simp_all add: delivered_system_def created_system_def mci_handle_def created_mci_fields)
qed

lemma rested_system_runs: "mci_runs rested_system" "at_rest rested_system"
  "\<exists>z. z \<in> set (mcis_at (loopWorld rested_system)) \<and> ours_at (loopWorld rested_system) z \<and> DeletionTimestamp z = None \<and>
    key_of z = (''shop'', ''web'') \<and> mciSpec z = mciSpec sample_mci"
proof -
  have "mci_work created_system delivered_system"
    unfolding delivered_system_def
    using work_step.delivered [of created_system "[]" "WatchMCI (CreateEvent sample_mci)" "[]"] by (simp add: created_system_def)
  moreover have "mci_work delivered_system rested_system"
    unfolding rested_system_def by (rule work_step.reconciled) (simp add: delivered_queue)
  ultimately show runs: "mci_runs rested_system" using created_system_runs by (blast intro: loop_runs.work)
  have found: "find_key (''shop'', ''web'') (mcis_at created_world) = Some sample_mci"
    by (simp add: created_world_def created_mci_fields)
  from reconcile_live [OF found created_mci_fields(2,3)] obtain w z where
    w: "mci_recon (''shop'', ''web'') created_world = (None, w)" "mcis_at w = put_key z (mcis_at created_world)"
    and z: "key_of z = (''shop'', ''web'')" "mciSpec z = mciSpec sample_mci" "DeletionTimestamp z = None"
    unfolding mci_recon_def by blast
  have rested: "loopWorld rested_system = w" "loopQueue rested_system = []" "loopEvents rested_system = []"
    using w(1) by (simp_all add: rested_system_def process_def delivered_queue)
  then show "at_rest rested_system" by (simp add: at_rest_def)
  have "mcis_at w = [z]" using w(2) z(1) by (simp add: created_world_def created_mci_fields)
  moreover have "ours_at w z"
    using ours_class [of z sample_mci] z(2) reconcile_frame(2) [OF w(1)] sample_mci_ours
    by (simp add: created_world_def start_world_def)
  ultimately show "\<exists>z. z \<in> set (mcis_at (loopWorld rested_system)) \<and> ours_at (loopWorld rested_system) z \<and> DeletionTimestamp z = None \<and>
    key_of z = (''shop'', ''web'') \<and> mciSpec z = mciSpec sample_mci"
    using z rested(1) by auto
qed





end
