(* ===== verification/McsLifecycle.thy ===== *)
theory McsLifecycle
  imports McsCloud
begin

text \<open>
  The life of a MultiClusterService on an API server with optimistic locking, next to the fake
  provider: what one reconcile makes of any state of the two. This controller goes on with the
  version the server returned, so it meets no conflict when nothing else writes.
\<close>

section \<open>What the provider was told\<close>

text \<open>
  The version of an object that the provider was last asked to make or update a balancer for, as
  the log has it; none if it has been asked to delete it since.
\<close>

fun see_mcs_told :: "call \<Rightarrow> (key \<rightharpoonup> MultiClusterService) \<Rightarrow> (key \<rightharpoonup> MultiClusterService)" where
  "see_mcs_told (LBEnsured (MCSObj m) None) t = t(key_of m \<mapsto> m)"
| "see_mcs_told (LBUpdated (MCSObj m) None) t = t(key_of m \<mapsto> m)"
| "see_mcs_told (LBDeleted (MCSObj m) None) t = t(key_of m := None)"
| "see_mcs_told c t = t"

definition mcs_told :: "call list \<Rightarrow> key \<rightharpoonup> MultiClusterService" where
  "mcs_told l = fold see_mcs_told l (\<lambda>_. None)"

lemma mcs_told_append [log_simps]: "mcs_told (l @ cs) = fold see_mcs_told cs (mcs_told l)"
  by (simp add: mcs_told_def)

lemma some_update [simp]: "\<exists>v. f(k := a) = f(k := v)" "\<exists>v. f = f(k := v)"
  by (blast, metis fun_upd_triv)

section \<open>The status\<close>

lemma mcs_next_version [simp]:
  "mcsSpec (next_version m) = mcsSpec m" "mcsLoadBalancer (next_version m) = mcsLoadBalancer m"
  "Annotations (next_version m) = Annotations m"
  by (simp_all add: next_version_def)

lemma with_mcs_status_keeps [simp]:
  "mcsSpec (with_mcs_status st m) = mcsSpec m" "Finalizers (with_mcs_status st m) = Finalizers m"
  "DeletionTimestamp (with_mcs_status st m) = DeletionTimestamp m"
  "ResourceVersion (with_mcs_status st m) = ResourceVersion m"
  "Annotations (with_mcs_status st m) = Annotations m"
  by (simp_all add: with_mcs_status_def)

lemma updateMCSStatus_completes:
  assumes "find_key (key_of v) (apiMCSs (env s)) = Some v" and "DeletionTimestamp v = None"
  shows "\<exists>z l. run_state (updateMCSStatus test_mcs_controller v (Some st)) s =
      (None, s\<lparr>env := (env s)\<lparr>apiMCSs := put_key z (apiMCSs (env s))\<rparr>, calls := l\<rparr>) \<and>
    key_of z = key_of v \<and> mcsSpec z = mcsSpec v \<and> Finalizers z = Finalizers v \<and> mcsLoadBalancer z = st \<and>
    Annotations z = Annotations v \<and> DeletionTimestamp z = None \<and> mcs_told l = mcs_told (calls s)"
proof (cases "mcsLoadBalancer v = st")
  case True
  then show ?thesis using put_found [OF assms(1)] assms(2)
    by (intro exI [of _ v] exI [of _ "calls s"]) (simp add: updateMCSStatus_def)
next
  case False
  let ?x = "with_mcs_status st v"
  show ?thesis using False assms
    by (intro exI [of _ "next_version ?x"] exI [of _ "calls s @ [Wrote StatusVerb (MCSObj ?x) None]"])
      (simp add: updateMCSStatus_def mcs_status_attempt_def run_api write_stored mcs_told_append)
qed

section \<open>Creation and update\<close>

lemma sync_mcs_balancer_completes:
  assumes stored: "find_key (key_of v) (apiMCSs (env s)) = Some v" and "DeletionTimestamp v = None"
  shows "\<exists>s' z. run_state (sync_mcs_balancer test_mcs_controller v) s = (None, s') \<and>
    apiMCSs (env s') = put_key z (apiMCSs (env s)) \<and> key_of z = key_of v \<and> mcsSpec z = mcsSpec v \<and>
    Finalizers z = Finalizers v \<and>
    mcsLoadBalancer z = answered_status (has_mcs_balancer (env s) (mcs_key std_deps v)) \<and>
    Annotations z = Annotations v \<and> DeletionTimestamp z = None \<and>
    mcs_told (calls s') = (mcs_told (calls s))(key_of v \<mapsto> v)"
proof -
  let ?st = "answered_status (has_mcs_balancer (env s) (mcs_key std_deps v))"
  have "\<exists>t. run_state (sync_mcs_balancer test_mcs_controller v) s =
      run_state (updateMCSStatus test_mcs_controller v (Some ?st)) t \<and> apiMCSs (env t) = apiMCSs (env s) \<and>
      mcs_told (calls t) = (mcs_told (calls s))(key_of v \<mapsto> v)"
    by (auto simp: sync_mcs_balancer_def lb_defs run_lift_call mcs_balancer_defs mcs_key_def handleMCSUpdate_def
        handleMCSCreate_def answered_status_def Let_def mcs_told_append split: option.splits)
  then obtain t where t: "run_state (sync_mcs_balancer test_mcs_controller v) s =
      run_state (updateMCSStatus test_mcs_controller v (Some ?st)) t" "apiMCSs (env t) = apiMCSs (env s)"
    "mcs_told (calls t) = (mcs_told (calls s))(key_of v \<mapsto> v)" by blast
  with updateMCSStatus_completes [of v t ?st] assms obtain z l where
    "run_state (updateMCSStatus test_mcs_controller v (Some ?st)) t =
      (None, t\<lparr>env := (env t)\<lparr>apiMCSs := put_key z (apiMCSs (env t))\<rparr>, calls := l\<rparr>)"
    and z: "key_of z = key_of v" "mcsSpec z = mcsSpec v" "Finalizers z = Finalizers v" "mcsLoadBalancer z = ?st"
      "Annotations z = Annotations v" "DeletionTimestamp z = None" "mcs_told l = mcs_told (calls t)"
    by auto
  then show ?thesis using t
    by (intro exI [of _ "t\<lparr>env := (env t)\<lparr>apiMCSs := put_key z (apiMCSs (env t))\<rparr>, calls := l\<rparr>"] exI [of _ z]) simp
qed

lemma handleMCSCreateOrUpdate_completes:
  assumes stored: "find_key k (apiMCSs (env s)) = Some mcs" and "DeletionTimestamp mcs = None"
  shows "\<exists>s' z. run_state (handleMCSCreateOrUpdate test_mcs_controller mcs) s = (None, s') \<and>
    apiMCSs (env s') = put_key z (apiMCSs (env s)) \<and> key_of z = k \<and> mcsSpec z = mcsSpec mcs \<and>
    Finalizers z = snd (AddFinalizer std_deps (Finalizers mcs) MCSControllerFinalizer) \<and>
    mcsLoadBalancer z = answered_status (has_mcs_balancer (env s) (mcs_key std_deps mcs)) \<and>
    Annotations z = Annotations mcs \<and> DeletionTimestamp z = None \<and>
    (\<exists>x. mcs_told (calls s') = (mcs_told (calls s))(k \<mapsto> x) \<and> mcsSpec x = mcsSpec mcs \<and> Annotations x = Annotations mcs)"
proof (cases "MCSControllerFinalizer \<in> set (Finalizers mcs)")
  case True
  then show ?thesis using sync_mcs_balancer_completes [of mcs s] assms find_key_key [OF stored]
    by (auto simp: handleMCSCreateOrUpdate_def)
next
  case False
  let ?x = "mcs\<lparr>Finalizers := Finalizers mcs @ [MCSControllerFinalizer]\<rparr>"
  let ?y = "next_version ?x"
  let ?t = "s\<lparr>env := (env s)\<lparr>apiMCSs := put_key ?y (apiMCSs (env s))\<rparr>, calls := calls s @ [Wrote UpdateVerb (MCSObj ?x) None]\<rparr>"
  note k = find_key_key [OF stored]
  have "run_state (handleMCSCreateOrUpdate test_mcs_controller mcs) s = run_state (sync_mcs_balancer test_mcs_controller ?y) ?t"
    using False assms k by (auto simp: handleMCSCreateOrUpdate_def run_api write_stored Let_def)
  moreover have "find_key (key_of ?y) (apiMCSs (env ?t)) = Some ?y"
    using find_put [of ?y "apiMCSs (env s)"] stored k by simp
  from sync_mcs_balancer_completes [OF this] assms(2) obtain s' z where
    "run_state (sync_mcs_balancer test_mcs_controller ?y) ?t = (None, s')"
    and "apiMCSs (env s') = put_key z (apiMCSs (env ?t))" "key_of z = key_of ?y" "mcsSpec z = mcsSpec ?y"
      "Finalizers z = Finalizers ?y"
      "mcsLoadBalancer z = answered_status (has_mcs_balancer (env ?t) (mcs_key std_deps ?y))"
      "Annotations z = Annotations ?y" "DeletionTimestamp z = None"
      "mcs_told (calls s') = (mcs_told (calls ?t))(key_of ?y \<mapsto> ?y)" by auto
  ultimately show ?thesis using False k put_put [of z ?y "apiMCSs (env s)"]
    by (intro exI [of _ s'] exI [of _ z] conjI exI [of _ ?y])
      (simp_all add: has_mcs_balancer_def mcs_key_def mcs_told_append)
qed

section \<open>Release\<close>

text \<open>What releasing an object makes of the store.\<close>

definition released :: "MultiClusterService \<Rightarrow> MultiClusterService list \<Rightarrow> MultiClusterService list" where
  "released mcs xs =
     (if MCSControllerFinalizer \<notin> set (Finalizers mcs) then xs
      else if DeletionTimestamp mcs \<noteq> None \<and> set (Finalizers mcs) = {MCSControllerFinalizer}
      then filter (\<lambda>x. key_of x \<noteq> key_of mcs) xs
      else put_key (next_version (mcs\<lparr>Finalizers := filter (\<lambda>f. f \<noteq> MCSControllerFinalizer) (Finalizers mcs)\<rparr>)) xs)"

lemma release_mcs_completes:
  assumes "find_key (key_of mcs) (apiMCSs (env s)) = Some mcs"
  shows "\<exists>l. run_state (release_mcs test_mcs_controller mcs) s =
    (None, s\<lparr>env := (env s)\<lparr>apiMCSs := released mcs (apiMCSs (env s))\<rparr>, calls := l\<rparr>) \<and>
    mcs_told l = mcs_told (calls s)"
proof (cases "MCSControllerFinalizer \<in> set (Finalizers mcs)")
  case True
  let ?m = "mcs\<lparr>Finalizers := filter (\<lambda>f. f \<noteq> MCSControllerFinalizer) (Finalizers mcs)\<rparr>"
  have "filter (\<lambda>f. f \<noteq> MCSControllerFinalizer) (Finalizers mcs) = [] \<longleftrightarrow> set (Finalizers mcs) = {MCSControllerFinalizer}"
    using True by (auto simp: filter_empty_conv)
  then show ?thesis using True assms
    by (intro exI [of _ "calls s @ [Wrote UpdateVerb (MCSObj ?m) None]"])
      (simp add: release_mcs_def run_api mem_write_def released_def Let_def mcs_told_append)
next
  case False
  then show ?thesis by (intro exI [of _ "calls s"]) (simp add: release_mcs_def released_def)
qed

lemma handleMCSDelete_completes:
  assumes "find_key (key_of mcs) (apiMCSs (env s)) = Some mcs"
  shows "\<exists>s'. run_state (handleMCSDelete test_mcs_controller mcs) s = (None, s') \<and>
    apiMCSs (env s') = (if MCSContainLoadBalanceType std_deps mcs \<or> has_mcs_balancer (env s) (mcs_key std_deps mcs)
      then released mcs (apiMCSs (env s)) else apiMCSs (env s)) \<and>
    (\<exists>v. mcs_told (calls s') = (mcs_told (calls s))(key_of mcs := v))"
proof -
  let ?told = "\<lambda>t. \<exists>v. mcs_told (calls t) = (mcs_told (calls s))(key_of mcs := v)"
  let ?typed = "MCSContainLoadBalanceType std_deps mcs"
  let ?has = "has_mcs_balancer (env s) (mcs_key std_deps mcs)"
  have "?typed \<or> ?has \<Longrightarrow> \<exists>t. run_state (handleMCSDelete test_mcs_controller mcs) s =
      run_state (release_mcs test_mcs_controller mcs) t \<and> apiMCSs (env t) = apiMCSs (env s) \<and> ?told t"
    by (auto simp: handleMCSDelete_def delete_mcs_balancer_def lb_defs run_lift_call mcs_balancer_defs mcs_key_def
        mcs_told_append Let_def)
  moreover have "\<not> ?typed \<Longrightarrow> \<not> ?has \<Longrightarrow> \<exists>t. run_state (handleMCSDelete test_mcs_controller mcs) s = (None, t) \<and>
      apiMCSs (env t) = apiMCSs (env s) \<and> ?told t"
    by (auto simp: handleMCSDelete_def lb_defs run_lift_call mcs_balancer_defs mcs_key_def mcs_told_append Let_def)
  moreover have "\<exists>l. run_state (release_mcs test_mcs_controller mcs) t =
      (None, t\<lparr>env := (env t)\<lparr>apiMCSs := released mcs (apiMCSs (env t))\<rparr>, calls := l\<rparr>) \<and>
      mcs_told l = mcs_told (calls t)"
    if "apiMCSs (env t) = apiMCSs (env s)" for t
    by (rule release_mcs_completes) (simp add: that assms)
  ultimately show ?thesis by (cases "?typed \<or> ?has") fastforce+
qed

section \<open>One reconcile\<close>

lemma reconcile_mcs_stored:
  assumes "find_key k (apiMCSs (env s)) = Some mcs"
  shows "\<exists>s'. run_state (ReconcileMCS test_mcs_controller k) s = (None, s') \<and>
    (\<forall>n. has_mcs_balancer (env s') n \<longleftrightarrow>
      (if n = mcs_key std_deps mcs then wants_balancer std_deps mcs else has_mcs_balancer (env s) n)) \<and>
    (if wants_balancer std_deps mcs
     then \<exists>z. apiMCSs (env s') = put_key z (apiMCSs (env s)) \<and> key_of z = k \<and> mcsSpec z = mcsSpec mcs \<and>
       set (Finalizers z) = insert MCSControllerFinalizer (set (Finalizers mcs)) \<and>
       mcsLoadBalancer z = answered_status (has_mcs_balancer (env s) (mcs_key std_deps mcs)) \<and>
       Annotations z = Annotations mcs \<and> DeletionTimestamp z = None
     else apiMCSs (env s') = (if MCSContainLoadBalanceType std_deps mcs \<or>
         has_mcs_balancer (env s) (mcs_key std_deps mcs)
       then released mcs (apiMCSs (env s)) else apiMCSs (env s))) \<and>
    (\<exists>v. mcs_told (calls s') = (mcs_told (calls s))(k := v) \<and>
      (wants_balancer std_deps mcs \<longrightarrow>
        (\<exists>x. v = Some x \<and> mcsSpec x = mcsSpec mcs \<and> Annotations x = Annotations mcs)))"
proof -
  note k = find_key_key [OF assms]
  let ?s = "s\<lparr>calls := calls s @ [Reconciling MCSKind k, Got MCSKind k (Inr (MCSObj mcs))]\<rparr>"
  let ?rest = "if wants_balancer std_deps mcs then handleMCSCreateOrUpdate test_mcs_controller mcs
    else handleMCSDelete test_mcs_controller mcs"
  have start: "run_state (ReconcileMCS test_mcs_controller k) s = run_state ?rest ?s"
    using assms by (auto simp: ReconcileMCS_def run_api IsZero_def wants_balancer_def)
  have settled: "has_mcs_balancer (env s') n \<longleftrightarrow>
      (if n = mcs_key std_deps mcs then wants_balancer std_deps mcs else has_mcs_balancer (env s) n)"
    if "run_state (ReconcileMCS test_mcs_controller k) s = (None, s')" for s' n
    using test_mcs.ReconcileMCS_settles [OF that, of mcs "env s"] assms by simp
  show ?thesis
  proof (cases "wants_balancer std_deps mcs")
    case True
    with handleMCSCreateOrUpdate_completes [of k ?s mcs] assms obtain s' z x where
      run: "run_state ?rest ?s = (None, s')" and z: "apiMCSs (env s') = put_key z (apiMCSs (env s))" "key_of z = k"
      "mcsSpec z = mcsSpec mcs" "Finalizers z = snd (AddFinalizer std_deps (Finalizers mcs) MCSControllerFinalizer)"
      "mcsLoadBalancer z = answered_status (has_mcs_balancer (env s) (mcs_key std_deps mcs))"
      "Annotations z = Annotations mcs" "DeletionTimestamp z = None"
      and told: "mcs_told (calls s') = (mcs_told (calls s))(k \<mapsto> x)" "mcsSpec x = mcsSpec mcs" "Annotations x = Annotations mcs"
      by (auto simp: wants_balancer_def mcs_told_append)
    have "set (Finalizers z) = insert MCSControllerFinalizer (set (Finalizers mcs))" using z(4) by auto
    then show ?thesis using True start settled [of s'] run z told
      by (intro exI [of _ s'] conjI) (simp, simp, auto)
  next
    case False
    with handleMCSDelete_completes [of mcs ?s] assms k obtain s' where
      "run_state ?rest ?s = (None, s')"
      "apiMCSs (env s') = (if MCSContainLoadBalanceType std_deps mcs \<or> has_mcs_balancer (env s) (mcs_key std_deps mcs)
        then released mcs (apiMCSs (env s)) else apiMCSs (env s))"
      "\<exists>v. mcs_told (calls s') = (mcs_told (calls s))(k := v)"
      by (auto simp: mcs_told_append)
    then show ?thesis using False start settled [of s']
      by (intro exI [of _ s']) auto
  qed
qed

section \<open>Property\<close>

text \<open>
  C13: on a server with optimistic locking and next to the fake provider, one reconcile of a stored
  MultiClusterService succeeds from any state of the two, and makes the balancer of the object
  exist exactly if the object wants one, with the balancers of all others as before. An object
  that wants one is stored with the finalizer and the status of its balancer; one that does not
  is released, unless it has lost the LoadBalancer type and the provider has no balancer for it.
\<close>

theorem mcs_reconcile_completes:
  assumes "find_key k (apiMCSs (env s)) = Some mcs"
  shows "\<exists>s'. run_state (ReconcileMCS test_mcs_controller k) s = (None, s') \<and>
    (\<forall>n. has_mcs_balancer (env s') n \<longleftrightarrow>
      (if n = mcs_key std_deps mcs then wants_balancer std_deps mcs else has_mcs_balancer (env s) n)) \<and>
    (if wants_balancer std_deps mcs
     then \<exists>z. apiMCSs (env s') = put_key z (apiMCSs (env s)) \<and> key_of z = k \<and> mcsSpec z = mcsSpec mcs \<and>
       set (Finalizers z) = insert MCSControllerFinalizer (set (Finalizers mcs)) \<and>
       mcsLoadBalancer z = answered_status (has_mcs_balancer (env s) (mcs_key std_deps mcs))
     else apiMCSs (env s') = (if MCSContainLoadBalanceType std_deps mcs \<or>
         has_mcs_balancer (env s) (mcs_key std_deps mcs)
       then released mcs (apiMCSs (env s)) else apiMCSs (env s)))"
  using reconcile_mcs_stored [OF assms] by fastforce

lemma mcs_reconcile_completes_witness:
  "apiMCSs (env (snd mcs_delete_run)) = [] \<and> \<not> has_mcs_balancer (env (snd mcs_delete_run)) ''shop/cart''"
proof -
  have fields: "key_of deleting_mcs = (''shop'', ''cart'')" "DeletionTimestamp deleting_mcs = Some ''now''"
      "Finalizers deleting_mcs = [MCSControllerFinalizer]" "mcs_key std_deps deleting_mcs = ''shop/cart''"
      "MCSContainLoadBalanceType std_deps deleting_mcs"
    by (simp_all add: deleting_mcs_def sample_mcs_def meta_literal_def ObjectMeta.defs key_of_def mcs_key_def
        MCSContainLoadBalanceType_def)
  have "find_key (''shop'', ''cart'') (apiMCSs (env (mcs_world [deleting_mcs]))) = Some deleting_mcs"
    by (simp add: mcs_world_def fields)
  from mcs_reconcile_completes [OF this] obtain s' where
    run: "run_state (ReconcileMCS test_mcs_controller (''shop'', ''cart'')) (mcs_world [deleting_mcs]) = (None, s')"
    and "\<not> has_mcs_balancer (env s') ''shop/cart''"
    and "apiMCSs (env s') = released deleting_mcs (apiMCSs (env (mcs_world [deleting_mcs])))"
    by (auto simp: wants_balancer_def fields)
  moreover have "snd mcs_delete_run = s'" by (simp only: mcs_delete_run_def run snd_conv)
  ultimately show ?thesis by (simp add: mcs_world_def released_def fields)
qed

end
