(* ===== verification/McsHandlers.thy ===== *)
theory McsHandlers
  imports Events McsCloud
begin

text \<open>
  pkg/controllers/multiclusterservice/eventhandlers.go and \<open>setupWatches\<close> of mcs_controller.go:
  how events of MultiClusterServices, services and endpoint slices become requests of the
  MultiClusterService controller. These handlers make no calls; the result of a method is what it
  adds to the queue (keys) or sends on its channel (objects).
\<close>

section \<open>MultiClusterServices\<close>

fun mcs_multiClusterServiceEventHandler :: "deps \<Rightarrow> MultiClusterService event \<Rightarrow> key list" where
  "mcs_multiClusterServiceEventHandler d (CreateEvent mcs) =
     (if \<not> MCSContainLoadBalanceType d mcs then [] else [key_of mcs])"
| "mcs_multiClusterServiceEventHandler d (UpdateEvent mcsOld mcsNew) =
     (if \<not> MCSContainLoadBalanceType d mcsOld \<and> \<not> MCSContainLoadBalanceType d mcsNew then []
      else if SemanticMap d (Annotations mcsOld) (Annotations mcsNew) \<and>
         SemanticMCSSpec d (mcsSpec mcsOld) (mcsSpec mcsNew) \<and>
         SemanticBool d (IsZero (DeletionTimestamp mcsOld)) (IsZero (DeletionTimestamp mcsNew))
      then []
      else [key_of mcsNew])"
| "mcs_multiClusterServiceEventHandler d (DeleteEvent mcs) = []"
| "mcs_multiClusterServiceEventHandler d (GenericEvent mcs) = [key_of mcs]"

section \<open>Services\<close>

text \<open>The literal \<open>&networkingv1alpha1.MultiClusterService{ObjectMeta: ...}\<close>.\<close>

definition mcs_literal :: "string \<Rightarrow> string \<Rightarrow> MultiClusterService" where
  "mcs_literal ns n = ObjectMeta.extend (meta_literal ns n)
     \<lparr>mcsSpec = \<lparr>Types = None, Ports = None, mcsSpecRest = ''''\<rparr>, mcsLoadBalancer = \<lparr>Ingress = None\<rparr>\<rparr>"

lemma key_of_mcs_literal [simp]: "key_of (mcs_literal ns n) = (ns, n)"
  by (simp add: mcs_literal_def meta_literal_def ObjectMeta.defs key_of_def)

definition enqueueImpactedMCS :: "string \<Rightarrow> string \<Rightarrow> MultiClusterService list" where
  "enqueueImpactedMCS svcNamespace svcName = [mcs_literal svcNamespace svcName]"

fun mcs_serviceEventHandler :: "deps \<Rightarrow> Service event \<Rightarrow> MultiClusterService list" where
  "mcs_serviceEventHandler d (CreateEvent svc) = enqueueImpactedMCS (Namespace svc) (Name svc)"
| "mcs_serviceEventHandler d (UpdateEvent svcOld svcNew) =
     (if SemanticMap d (Annotations svcOld) (Annotations svcNew) \<and>
         SemanticServiceSpec d (svcSpec svcOld) (svcSpec svcNew)
      then []
      else enqueueImpactedMCS (Namespace svcNew) (Name svcNew))"
| "mcs_serviceEventHandler d (DeleteEvent svc) = enqueueImpactedMCS (Namespace svc) (Name svc)"
| "mcs_serviceEventHandler d (GenericEvent svc) = enqueueImpactedMCS (Namespace svc) (Name svc)"

section \<open>Endpoint slices\<close>

definition mcs_derivedServicePrefix :: string where
  "mcs_derivedServicePrefix = ''derived-''"

definition mcs_service_literal :: "string \<Rightarrow> string \<Rightarrow> Service" where
  "mcs_service_literal ns n = ObjectMeta.extend (meta_literal ns n) \<lparr>svcSpec = ''''\<rparr>"

lemma mcs_service_literal_fields [simp]:
  "Namespace (mcs_service_literal ns n) = ns" "Name (mcs_service_literal ns n) = n"
  by (simp_all add: mcs_service_literal_def meta_literal_def ObjectMeta.defs)

definition mcs_enqueueImpactedSvc :: "deps \<Rightarrow> EndpointSlice \<Rightarrow> Service list" where
  "mcs_enqueueImpactedSvc d eps =
     (case Labels eps (LabelServiceName d) of
        None \<Rightarrow> []
      | Some svcName \<Rightarrow> [mcs_service_literal (Namespace eps) (TrimPrefix svcName mcs_derivedServicePrefix)])"

fun mcs_endpointSlicesEventHandler :: "deps \<Rightarrow> EndpointSlice event \<Rightarrow> Service list" where
  "mcs_endpointSlicesEventHandler d (CreateEvent eps) = mcs_enqueueImpactedSvc d eps"
| "mcs_endpointSlicesEventHandler d (UpdateEvent epsOld epsNew) = mcs_enqueueImpactedSvc d epsNew"
| "mcs_endpointSlicesEventHandler d (DeleteEvent eps) = mcs_enqueueImpactedSvc d eps"
| "mcs_endpointSlicesEventHandler d (GenericEvent eps) = []"

section \<open>The watches\<close>

datatype mcs_watched =
    McsWatchMCS "MultiClusterService event"
  | McsWatchService "Service event"
  | McsWatchSlice "EndpointSlice event"

definition on_mcsEventChan :: "deps \<Rightarrow> MultiClusterService list \<Rightarrow> key list" where
  "on_mcsEventChan d xs = concat (map (\<lambda>mcs. mcs_multiClusterServiceEventHandler d (GenericEvent mcs)) xs)"

definition mcs_on_svcEventChan :: "deps \<Rightarrow> Service list \<Rightarrow> key list" where
  "mcs_on_svcEventChan d xs =
     concat (map (\<lambda>svc. on_mcsEventChan d (mcs_serviceEventHandler d (GenericEvent svc))) xs)"

fun mcs_setupWatches :: "deps \<Rightarrow> mcs_watched \<Rightarrow> key list" where
  "mcs_setupWatches d (McsWatchMCS e) = mcs_multiClusterServiceEventHandler d e"
| "mcs_setupWatches d (McsWatchService e) = on_mcsEventChan d (mcs_serviceEventHandler d e)"
| "mcs_setupWatches d (McsWatchSlice e) = mcs_on_svcEventChan d (mcs_endpointSlicesEventHandler d e)"

lemmas mcs_channel_defs = on_mcsEventChan_def mcs_on_svcEventChan_def enqueueImpactedMCS_def
  mcs_enqueueImpactedSvc_def

section \<open>Properties\<close>

text \<open>
  An update that changes whether the object is to have a load balancer (it gains or loses the
  LoadBalancer type, or its deletion begins) is always enqueued, under the object's own key.
\<close>

lemma mcs_update_of_wish_enqueued:
  assumes "semantic_ok d" and "wants_balancer d old \<noteq> wants_balancer d new"
    and "key_of new = key_of old"
  shows "mcs_setupWatches d (McsWatchMCS (UpdateEvent old new)) = [key_of old]"
  using assms
  by (auto simp: wants_balancer_def MCSContainLoadBalanceType_iff semantic_okD IsZero_def
      dest: semantic_ok_TypesD)

text \<open>
  When an endpoint slice is created, updated or deleted, exactly one request reaches the queue,
  through both channels: the MultiClusterService with the namespace of the slice and the name of
  its service, where a name \<open>derived-n\<close> stands for the service \<open>n\<close>. A slice without the label
  reaches nothing.
\<close>

lemma mcs_slice_event_reaches_service:
  assumes "e \<in> {CreateEvent eps, UpdateEvent old eps, DeleteEvent eps}"
  shows "(Labels eps (LabelServiceName d) = None \<longrightarrow> mcs_setupWatches d (McsWatchSlice e) = []) \<and>
    (Labels eps (LabelServiceName d) = Some (''derived-'' @ n) \<longrightarrow>
      mcs_setupWatches d (McsWatchSlice e) = [(Namespace eps, n)]) \<and>
    (Labels eps (LabelServiceName d) = Some n \<and> (\<forall>t. n \<noteq> ''derived-'' @ t) \<longrightarrow>
      mcs_setupWatches d (McsWatchSlice e) = [(Namespace eps, n)])"
proof -
  have "TrimPrefix (''derived-'' @ n) mcs_derivedServicePrefix = n"
    unfolding mcs_derivedServicePrefix_def by (rule TrimPrefix_prefix)
  moreover have "(\<And>t. n \<noteq> ''derived-'' @ t) \<Longrightarrow> TrimPrefix n mcs_derivedServicePrefix = n"
    unfolding mcs_derivedServicePrefix_def by (rule TrimPrefix_other)
  ultimately show ?thesis
    using assms by (auto simp: mcs_channel_defs)
qed

text \<open>
  A service's creation, deletion, and update in annotations or specification put the
  MultiClusterService of the same namespace and name in the queue, and other updates nothing; in
  particular an update that only starts the service's deletion is passed over, which the ingress
  controller's handler enqueues.
\<close>

lemma mcs_service_event_reaches_service:
  assumes "semantic_ok d"
  shows "mcs_setupWatches d (McsWatchService (CreateEvent svc)) = [key_of svc] \<and>
    mcs_setupWatches d (McsWatchService (DeleteEvent svc)) = [key_of svc] \<and>
    mcs_setupWatches d (McsWatchService (UpdateEvent old svc)) =
      (if Annotations old = Annotations svc \<and> SemanticServiceSpec d (svcSpec old) (svcSpec svc)
       then [] else [key_of svc])"
  by (simp add: mcs_channel_defs semantic_okD [OF assms]) (simp add: key_of_def)

end
