(* ===== verification/McsSystem.thy ===== *)
theory McsSystem
  imports McsLifecycle McsHandlers EventLoop Hampered
begin

text \<open>
  The MultiClusterService controller as it runs: users and others change the objects, every change
  puts an event in flight, \<open>setupWatches\<close> turns it into keys, \<open>ReconcileMCS\<close> handles them, on the test
  server and next to the fake provider; calls may fail, and then the key comes again.
\<close>

section \<open>The system\<close>

abbreviation mcss_at :: "(Testbed, call) world \<Rightarrow> MultiClusterService list" where
  "mcss_at s \<equiv> apiMCSs (env s)"

definition with_mcss :: "MultiClusterService list \<Rightarrow> (Testbed, call) world \<Rightarrow> (Testbed, call) world" where
  "with_mcss xs s = s\<lparr>env := (env s)\<lparr>apiMCSs := xs\<rparr>\<rparr>"

definition mcs_handle :: "mcs_watched \<Rightarrow> (Testbed, call) world \<Rightarrow> key list" where
  "mcs_handle e s = mcs_setupWatches std_deps e"

definition mcs_recon :: "key \<Rightarrow> (Testbed, call) world \<Rightarrow> error option \<times> (Testbed, call) world" where
  "mcs_recon k = run_state (ReconcileMCS test_mcs_controller k)"

text \<open>A reconcile whose calls, of the server or the provider, fail somewhere, and which returns an error.\<close>

definition unreliable_mcs_controller :: "(kind \<Rightarrow> Testbed fates) \<Rightarrow> Testbed fates \<Rightarrow> Testbed MCSController" where
  "unreliable_mcs_controller \<phi> \<psi> = test_mcs_controller\<lparr>mcsClient := unreliable_server \<phi>,
     mcsBalancer := unreliable_balancer \<psi> (fst (MCSLoadBalancer std_deps))\<rparr>"

definition mcs_hampers :: "key \<Rightarrow> (Testbed, call) world \<Rightarrow> (Testbed, call) world \<Rightarrow> bool" where
  "mcs_hampers k s w \<longleftrightarrow> (\<exists>\<phi> \<psi> e. run_state (ReconcileMCS (unreliable_mcs_controller \<phi> \<psi>) k) s = (Some e, w))"

text \<open>
  Others leave the controller's finalizer alone, and may change all else of an object. Services and
  endpoint slices come and go at any time.
\<close>

fun of_services :: "mcs_watched \<Rightarrow> bool" where
  "of_services (McsWatchMCS _) = False"
| "of_services _ = True"

inductive mcs_others :: "(Testbed, call) world \<Rightarrow> mcs_watched list \<Rightarrow> (Testbed, call) world \<Rightarrow> bool" where
  created: "find_key (key_of m) (mcss_at s) = None \<Longrightarrow> MCSControllerFinalizer \<notin> set (Finalizers m) \<Longrightarrow>
    CHR ''/'' \<notin> set (Namespace m) \<Longrightarrow>
    mcs_others s [McsWatchMCS (CreateEvent m)] (with_mcss (mcss_at s @ [m]) s)"
| changed: "find_key (key_of m') (mcss_at s) = Some m \<Longrightarrow>
    MCSControllerFinalizer \<in> set (Finalizers m') \<longleftrightarrow> MCSControllerFinalizer \<in> set (Finalizers m) \<Longrightarrow>
    mcs_others s [McsWatchMCS (UpdateEvent m m')] (with_mcss (put_key m' (mcss_at s)) s)"
| removed: "find_key k (mcss_at s) = Some m \<Longrightarrow> MCSControllerFinalizer \<notin> set (Finalizers m) \<Longrightarrow>
    mcs_others s [McsWatchMCS (DeleteEvent m)] (with_mcss (filter (\<lambda>x. key_of x \<noteq> k) (mcss_at s)) s)"
| services: "of_services e \<Longrightarrow> mcs_others s [e] s"

definition mcs_init :: "(Testbed, call) world \<Rightarrow> bool" where
  "mcs_init s \<longleftrightarrow> mcss_at s = [] \<and> MCSBalancers (env s) = None"

abbreviation mcs_runs :: "((Testbed, call) world, mcs_watched, key) loop \<Rightarrow> bool" where
  "mcs_runs \<equiv> loop_runs mcs_init mcs_others mcs_hampers mcs_handle mcs_recon"

text \<open>The runs in which no call of the controller fails.\<close>

abbreviation mcs_calm_runs :: "((Testbed, call) world, mcs_watched, key) loop \<Rightarrow> bool" where
  "mcs_calm_runs \<equiv> loop_runs mcs_init mcs_others (\<lambda>_ _ _. False) mcs_handle mcs_recon"

abbreviation mcs_work :: "((Testbed, call) world, mcs_watched, key) loop \<Rightarrow> ((Testbed, call) world, mcs_watched, key) loop \<Rightarrow> bool" where
  "mcs_work \<equiv> work_step mcs_handle mcs_recon"

lemma with_mcss_fields [simp]:
  "env (with_mcss xs s) = (env s)\<lparr>apiMCSs := xs\<rparr>" "calls (with_mcss xs s) = calls s"
  "has_mcs_balancer ((w :: Testbed)\<lparr>apiMCSs := xs\<rparr>) = has_mcs_balancer w"
  by (simp_all add: with_mcss_def has_mcs_balancer_def [abs_def])

lemma mcs_key_name: "mcs_key std_deps m = name_of (key_of m)"
  by (simp add: mcs_key_def name_of_def)

section \<open>What is settled, and what is on its way\<close>

text \<open>
  An object that wants a balancer carries the finalizer, has its balancer, and the provider was last
  told its present spec and annotations. One that wants none has no balancer, and no finalizer if it
  still has the LoadBalancer type; without the type it may keep a finalizer for good.
\<close>

definition settled_mcs :: "(Testbed, call) world \<Rightarrow> MultiClusterService \<Rightarrow> bool" where
  "settled_mcs w m \<longleftrightarrow>
     (if wants_balancer std_deps m
      then MCSControllerFinalizer \<in> set (Finalizers m) \<and> has_mcs_balancer (env w) (name_of (key_of m)) \<and>
        (\<exists>x. mcs_told (calls w) (key_of m) = Some x \<and> mcsSpec x = mcsSpec m \<and> Annotations x = Annotations m)
      else (MCSContainLoadBalanceType std_deps m \<longrightarrow> MCSControllerFinalizer \<notin> set (Finalizers m)) \<and>
        \<not> has_mcs_balancer (env w) (name_of (key_of m)))"

definition mcs_settled :: "(Testbed, call) world \<Rightarrow> key \<Rightarrow> bool" where
  "mcs_settled s k \<longleftrightarrow> (case find_key k (mcss_at s) of None \<Rightarrow> True | Some m \<Rightarrow> settled_mcs s m)"

definition mcs_covers :: "(Testbed, call) world \<Rightarrow> mcs_watched \<Rightarrow> key \<Rightarrow> bool" where
  "mcs_covers s e k \<longleftrightarrow> k \<in> set (mcs_handle e s)"

abbreviation mcs_kept :: "(Testbed, call) world \<Rightarrow> bool" where
  "mcs_kept s \<equiv> well_kept (\<lambda>_. True) (mcss_at s)"

abbreviation mcs_owned :: "(Testbed, call) world \<Rightarrow> bool" where
  "mcs_owned s \<equiv> owned_by MCSControllerFinalizer (has_mcs_balancer (env s)) (mcss_at s)"

abbreviation mcs_served :: "(Testbed, call) world \<Rightarrow> bool" where
  "mcs_served s \<equiv> serves MCSControllerFinalizer (has_mcs_balancer (env s)) (mcss_at s)"

definition mcs_ok :: "(Testbed, call) world \<Rightarrow> bool" where
  "mcs_ok s \<longleftrightarrow> mcs_kept s \<and> mcs_owned s"

abbreviation mcs_keeps_up where
  "mcs_keeps_up \<equiv> keeps_up mcs_ok mcs_settled mcs_covers (\<lambda>_. (=))"

lemma covers_anywhere: "mcs_covers s' e k = mcs_covers s e k"
  by (simp add: mcs_covers_def mcs_handle_def)

lemma settled_mcs_cong:
  assumes "has_mcs_balancer (env w') (name_of (key_of m)) = has_mcs_balancer (env w) (name_of (key_of m))"
    and "mcs_told (calls w') (key_of m) = mcs_told (calls w) (key_of m)"
  shows "settled_mcs w' m = settled_mcs w m"
  using assms by (simp add: settled_mcs_def)

lemma with_mcss_settled: "settled_mcs (with_mcss xs s) m = settled_mcs s m"
  by (rule settled_mcs_cong) simp_all

section \<open>What others do is kept up with\<close>

text \<open>An update that is not announced changes nothing that matters.\<close>

lemma unannounced_update:
  assumes "mcs_multiClusterServiceEventHandler std_deps (UpdateEvent m m') = []" and "key_of m' = key_of m"
    and "MCSControllerFinalizer \<in> set (Finalizers m') \<longleftrightarrow> MCSControllerFinalizer \<in> set (Finalizers m)"
  shows "settled_mcs s m' = settled_mcs s m"
proof (cases "MCSContainLoadBalanceType std_deps m \<or> MCSContainLoadBalanceType std_deps m'")
  case True
  then have "Annotations m = Annotations m'" "mcsSpec m = mcsSpec m'"
      "(DeletionTimestamp m = None) = (DeletionTimestamp m' = None)"
    using assms(1) by (auto simp: IsZero_def split: if_splits)
  then show ?thesis using assms(2,3) by (simp add: settled_mcs_def wants_balancer_def MCSContainLoadBalanceType_def)
next
  case False
  then show ?thesis using assms(2,3) by (simp add: settled_mcs_def wants_balancer_def)
qed

lemma mcs_changed_kept_up:
  assumes ok: "mcs_ok s" and found: "find_key (key_of m') (mcss_at s) = Some m"
    and fin: "MCSControllerFinalizer \<in> set (Finalizers m') \<longleftrightarrow> MCSControllerFinalizer \<in> set (Finalizers m)"
  shows "mcs_keeps_up s [McsWatchMCS (UpdateEvent m m')] (with_mcss (put_key m' (mcss_at s)) s)" (is "mcs_keeps_up s [?e] ?s")
proof -
  have k: "key_of m = key_of m'" using find_keyD [OF found] by simp
  have good: "mcs_ok ?s"
    using ok found fin well_kept_put [of "\<lambda>_. True" "mcss_at s" m' m]
      owned_put [of "\<lambda>_. True" "mcss_at s" MCSControllerFinalizer "has_mcs_balancer (env s)" m' m]
    by (simp add: mcs_ok_def)
  have there: "find_key j (mcss_at ?s) = (if j = key_of m' then Some m' else find_key j (mcss_at s))" for j
    using found by (simp add: find_put_key)
  have settled: "mcs_settled ?s j \<or> mcs_covers ?s ?e j" if "mcs_settled s j" for j
  proof (cases "j = key_of m'")
    case here: True
    show ?thesis
    proof (cases "mcs_multiClusterServiceEventHandler std_deps (UpdateEvent m m') = []")
      case True
      then show ?thesis
        using that here unannounced_update [OF True k [symmetric] fin] found
        unfolding mcs_settled_def there by (simp add: with_mcss_settled split: option.splits)
    next
      case False
      then show ?thesis using here by (auto simp: mcs_covers_def mcs_handle_def split: if_splits)
    qed
  next
    case False
    then show ?thesis using that unfolding mcs_settled_def there by (simp add: with_mcss_settled split: option.splits)
  qed
  show ?thesis using good settled covers_anywhere [of ?s _ _ s] unfolding keeps_up_def by auto
qed

lemma mcs_created_kept_up:
  assumes ok: "mcs_ok s" and none: "find_key (key_of m) (mcss_at s) = None"
    and fin: "MCSControllerFinalizer \<notin> set (Finalizers m)" and slash: "CHR ''/'' \<notin> set (Namespace m)"
  shows "mcs_keeps_up s [McsWatchMCS (CreateEvent m)] (with_mcss (mcss_at s @ [m]) s)" (is "mcs_keeps_up s [?e] ?s")
proof -
  have good: "mcs_ok ?s"
    using ok none fin slash well_kept_append [of "\<lambda>_. True" "mcss_at s" m]
      owned_append [of MCSControllerFinalizer "has_mcs_balancer (env s)" "mcss_at s" m]
    by (simp add: mcs_ok_def)
  have there: "find_key j (mcss_at ?s) = (if j = key_of m then Some m else find_key j (mcss_at s))" for j
    using none by (simp add: find_append split: option.splits)
  have free: "\<not> has_mcs_balancer (env s) (name_of (key_of m))"
    using owner_of [of "\<lambda>_. True" "mcss_at ?s" MCSControllerFinalizer "has_mcs_balancer (env ?s)" m] good fin
    by (auto simp: mcs_ok_def)
  have settled: "mcs_settled ?s j \<or> mcs_covers ?s ?e j" if "mcs_settled s j" for j
  proof (cases "j = key_of m")
    case True
    then show ?thesis using free fin unfolding mcs_settled_def there
      by (simp add: settled_mcs_def mcs_covers_def mcs_handle_def wants_balancer_def)
  next
    case False
    then show ?thesis using that unfolding mcs_settled_def there by (simp add: with_mcss_settled split: option.splits)
  qed
  show ?thesis using good settled covers_anywhere [of ?s _ _ s] unfolding keeps_up_def by auto
qed

lemma mcs_removed_kept_up:
  assumes ok: "mcs_ok s" and found: "find_key k (mcss_at s) = Some m" and fin: "MCSControllerFinalizer \<notin> set (Finalizers m)"
  shows "mcs_keeps_up s [e] (with_mcss (filter (\<lambda>x. key_of x \<noteq> k) (mcss_at s)) s)" (is "mcs_keeps_up s [e] ?s")
proof -
  have good: "mcs_ok ?s"
    using ok found fin well_kept_filter [of "\<lambda>_. True" "mcss_at s"]
      owned_filter [of "\<lambda>_. True" "mcss_at s" MCSControllerFinalizer "has_mcs_balancer (env s)" k m]
    by (simp add: mcs_ok_def)
  have there: "find_key j (mcss_at ?s) = (if j = k then None else find_key j (mcss_at s))" for j
    by (simp add: find_filter)
  have settled: "mcs_settled ?s j" if "mcs_settled s j" for j
    using that unfolding mcs_settled_def there by (simp add: with_mcss_settled split: option.splits)
  show ?thesis using good settled covers_anywhere [of ?s _ _ s] unfolding keeps_up_def by auto
qed

lemma mcs_others_kept_up:
  assumes "mcs_others s es s'" and "mcs_ok s"
  shows "mcs_keeps_up s es s'"
  using assms(1)
proof (cases rule: mcs_others.cases)
  case (services e)
  then show ?thesis using assms(2) unfolding keeps_up_def by auto
qed (use mcs_created_kept_up mcs_changed_kept_up mcs_removed_kept_up assms(2) in blast)+

section \<open>A reconcile that runs to its end\<close>

lemma reconcile_mcs_missing:
  assumes "find_key k (mcss_at s) = None"
  shows "mcs_recon k s = (None, s\<lparr>calls := calls s @ [Reconciling MCSKind k, Got MCSKind k (Inl NotFound)]\<rparr>)"
  using assms by (simp add: mcs_recon_def ReconcileMCS_def run_api)

lemma mcs_reconciled_kept_up:
  assumes ok: "mcs_ok s" and found: "find_key k (mcss_at s) = Some m" and kept: "mcs_kept w"
    and store: "\<And>j. find_key j (mcss_at w) = (if j = k then zo else find_key j (mcss_at s))"
    and held: "\<And>n. has_mcs_balancer (env w) n \<longleftrightarrow> (if n = name_of k then b else has_mcs_balancer (env s) n)"
    and own: "b \<Longrightarrow> \<exists>z. zo = Some z \<and> MCSControllerFinalizer \<in> set (Finalizers z)"
    and serve: "\<And>z. mcs_served s \<Longrightarrow> zo = Some z \<Longrightarrow> MCSControllerFinalizer \<in> set (Finalizers z) \<Longrightarrow> b"
    and told: "mcs_told (calls w) = (mcs_told (calls s))(k := v)"
    and here: "\<And>z. zo = Some z \<Longrightarrow> settled_mcs w z"
  shows "mcs_settled w k \<and> mcs_keeps_up s [] w \<and> (mcs_served s \<longrightarrow> mcs_served w)"
proof -
  have old: "mcs_kept s" "mcs_owned s" using ok by (simp_all add: mcs_ok_def)
  have good: "mcs_ok w" using kept owned_replaced [OF old(1) kept old(2) store held] own by (auto simp: mcs_ok_def)
  have served: "mcs_served w" if "mcs_served s"
    by (rule serves_replaced [OF old(1) kept that found store held]) (use serve that in blast)
  have settled: "mcs_settled w k" using here by (simp add: mcs_settled_def store split: option.split)
  have "mcs_settled w j" if "mcs_settled s j" for j
  proof (cases "j = k \<or> find_key j (mcss_at s) = None")
    case False
    then obtain x where x: "find_key j (mcss_at s) = Some x" by blast
    have j: "x \<in> set (mcss_at s)" "key_of x = j" using find_keyD [OF x] by simp_all
    have "settled_mcs w x = settled_mcs s x"
      using False j others_named [OF old(1) found j(1)] by (intro settled_mcs_cong) (simp_all add: held told)
    then show ?thesis using that x False by (simp add: mcs_settled_def store)
  qed (use settled store in \<open>auto simp: mcs_settled_def\<close>)
  then show ?thesis using good settled served covers_anywhere [of w _ _ s] unfolding keeps_up_def by blast
qed

text \<open>Releasing an object: it is left, goes, or stays without the finalizer.\<close>

lemma released_cases:
  obtains (kept) "MCSControllerFinalizer \<notin> set (Finalizers m)" "released m xs = xs"
    | (gone) "released m xs = filter (\<lambda>x. key_of x \<noteq> key_of m) xs"
    | (freed) z where "released m xs = put_key z xs" "key_of z = key_of m" "mcsSpec z = mcsSpec m"
        "DeletionTimestamp z = DeletionTimestamp m" "MCSControllerFinalizer \<notin> set (Finalizers z)"
proof (cases "MCSControllerFinalizer \<notin> set (Finalizers m)")
  case True
  then show thesis by (intro kept) (simp_all add: released_def)
next
  case fin: False
  show thesis
  proof (cases "DeletionTimestamp m \<noteq> None \<and> set (Finalizers m) = {MCSControllerFinalizer}")
    case True
    then show thesis using fin by (intro gone) (simp add: released_def)
  next
    case False
    let ?z = "next_version (m\<lparr>Finalizers := filter (\<lambda>f. f \<noteq> MCSControllerFinalizer) (Finalizers m)\<rparr>)"
    have "released m xs = put_key ?z xs" 
      unfolding released_def by (simp only: False fin if_False)
    then show thesis
    proof (rule freed)
      show "key_of ?z = key_of m" by simp
      show "mcsSpec ?z = mcsSpec m" by simp
      show "DeletionTimestamp ?z = DeletionTimestamp m" by simp
      show "MCSControllerFinalizer \<notin> set (Finalizers ?z)" by simp
    qed
  qed
qed

lemma wants_cong:
  "mcsSpec z = mcsSpec m \<Longrightarrow> DeletionTimestamp z = DeletionTimestamp m \<Longrightarrow> wants_balancer std_deps z = wants_balancer std_deps m"
  by (simp add: wants_balancer_def MCSContainLoadBalanceType_def)

lemma reconcile_mcs_settles:
  assumes ok: "mcs_ok s"
  shows "\<exists>w. mcs_recon k s = (None, w) \<and> mcs_settled w k \<and> mcs_keeps_up s [] w \<and> (mcs_served s \<longrightarrow> mcs_served w)"
proof (cases "find_key k (mcss_at s)")
  case None
  let ?w = "s\<lparr>calls := calls s @ [Reconciling MCSKind k, Got MCSKind k (Inl NotFound)]\<rparr>"
  have settled: "mcs_settled ?w j = mcs_settled s j" for j
    unfolding mcs_settled_def settled_mcs_def by (simp add: mcs_told_append split: option.split)
  have "mcs_settled ?w k" using None by (simp add: mcs_settled_def)
  moreover have "mcs_ok ?w" using ok by (simp add: mcs_ok_def)
  moreover have "mcs_served s \<longrightarrow> mcs_served ?w" by simp
  ultimately show ?thesis
    unfolding reconcile_mcs_missing [OF None] keeps_up_def using settled covers_anywhere [of ?w _ _ s] by blast
next
  case (Some m)
  have k: "key_of m = k" using find_keyD [OF Some] by simp
  have old: "mcs_kept s" "mcs_owned s" using ok by (simp_all add: mcs_ok_def)
  obtain w v where run: "mcs_recon k s = (None, w)"
    and held: "\<forall>n. has_mcs_balancer (env w) n \<longleftrightarrow>
      (if n = name_of k then wants_balancer std_deps m else has_mcs_balancer (env s) n)"
    and store: "if wants_balancer std_deps m
      then \<exists>z. mcss_at w = put_key z (mcss_at s) \<and> key_of z = k \<and> mcsSpec z = mcsSpec m \<and>
        set (Finalizers z) = insert MCSControllerFinalizer (set (Finalizers m)) \<and>
        mcsLoadBalancer z = answered_status (has_mcs_balancer (env s) (name_of k)) \<and>
        Annotations z = Annotations m \<and> DeletionTimestamp z = None
      else mcss_at w = (if MCSContainLoadBalanceType std_deps m \<or> has_mcs_balancer (env s) (name_of k)
        then released m (mcss_at s) else mcss_at s)"
    and told: "mcs_told (calls w) = (mcs_told (calls s))(k := v)"
    and x: "wants_balancer std_deps m \<longrightarrow> (\<exists>x. v = Some x \<and> mcsSpec x = mcsSpec m \<and> Annotations x = Annotations m)"
    using reconcile_mcs_stored [OF Some] unfolding mcs_recon_def mcs_key_name k by (elim exE conjE) (rule that, unfold mcs_recon_def)
  note keep = mcs_reconciled_kept_up [OF ok Some _ _ held [rule_format] _ _ told]
  have put: "find_key j (put_key z (mcss_at s)) = (if j = k then Some z else find_key j (mcss_at s))"
      "mcs_kept (w\<lparr>env := (env w)\<lparr>apiMCSs := put_key z (mcss_at s)\<rparr>\<rparr>)" if "key_of z = k" for j z
    using that Some well_kept_put [OF old(1), of z m] by (simp_all add: find_put_key)
  have "mcs_settled w k \<and> mcs_keeps_up s [] w \<and> (mcs_served s \<longrightarrow> mcs_served w)"
  proof (cases "wants_balancer std_deps m")
    case True
    then obtain z where z: "mcss_at w = put_key z (mcss_at s)" "key_of z = k" "mcsSpec z = mcsSpec m"
      "set (Finalizers z) = insert MCSControllerFinalizer (set (Finalizers m))"
      "Annotations z = Annotations m" "DeletionTimestamp z = None"
      using store by auto
    have "wants_balancer std_deps z"
      using True wants_cong [OF z(3)] z(6) by (simp add: wants_balancer_def)
    then have "settled_mcs w z" using True z x held told by (auto simp: settled_mcs_def)
    then show ?thesis using z put [OF z(2)] True by (intro keep [where zo = "Some z"]) (simp_all add: z(1))
  next
    case False
    have rid: "settled_mcs w z" if "key_of z = k" "mcsSpec z = mcsSpec m" "DeletionTimestamp z = DeletionTimestamp m"
        "MCSContainLoadBalanceType std_deps z \<Longrightarrow> MCSControllerFinalizer \<notin> set (Finalizers z)" for z
      using False that held wants_cong [OF that(2,3)] by (simp add: settled_mcs_def)
    have unchanged: "mcs_settled w k \<and> mcs_keeps_up s [] w \<and> (mcs_served s \<longrightarrow> mcs_served w)"
      if "mcss_at w = mcss_at s" "MCSContainLoadBalanceType std_deps m \<Longrightarrow> MCSControllerFinalizer \<notin> set (Finalizers m)"
        "mcs_served s \<Longrightarrow> MCSControllerFinalizer \<notin> set (Finalizers m)"
      using that rid [of m] k False old(1) Some by (intro keep [where zo = "Some m"]) simp_all
    show ?thesis
    proof (cases "MCSContainLoadBalanceType std_deps m \<or> has_mcs_balancer (env s) (name_of k)")
      case True
      then have w: "mcss_at w = released m (mcss_at s)" using store False by simp
      show ?thesis
      proof (cases m "mcss_at s" rule: released_cases)
        case kept
        then show ?thesis using unchanged w by simp
      next
        case gone
        then show ?thesis using False w k old(1)
          by (intro keep [where zo = None]) (simp_all add: find_filter well_kept_filter)
      next
        case (freed z)
        then show ?thesis using False w k put [of z] rid [of z]
          by (intro keep [where zo = "Some z"]) simp_all
      qed
    next
      case no: False
      then have "mcs_served s \<Longrightarrow> MCSControllerFinalizer \<notin> set (Finalizers m)"
        using find_keyD [OF Some] by (auto simp: serves_def)
      then show ?thesis using unchanged store False no by simp
    qed
  qed
  then show ?thesis using run by blast
qed

lemma mcs_init_good:
  assumes "mcs_init s"
  shows "mcs_ok s" and "mcs_settled s k"
  using assms by (simp_all add: mcs_init_def mcs_ok_def well_kept_def owned_by_def serves_def has_mcs_balancer_def mcs_settled_def)

section \<open>A reconcile whose calls fail\<close>

interpretation mcs_named: keyed_balancer "fst (MCSLoadBalancer std_deps)" has_mcs_balancer "\<lambda>x. name_of (key_of x)"
  unfolding name_of_def by (rule fake_mcs_keyed.keyed_balancer_axioms)

interpretation mcs_kind: balanced_kind "fst (MCSLoadBalancer std_deps)" has_mcs_balancer MCSControllerFinalizer "\<lambda>_. True" MCSObj
  apiMCSs "\<lambda>xs w. w\<lparr>apiMCSs := xs\<rparr>" "\<lambda>_. ()" mcs_told
proof unfold_locales
  fix w :: Testbed and xs
  show "has_mcs_balancer (w\<lparr>apiMCSs := xs\<rparr>) = has_mcs_balancer w" by (simp add: has_mcs_balancer_def [abs_def])
next
  fix w w' :: Testbed and x r n
  assume "DeleteBalancer (fst (MCSLoadBalancer std_deps)) x w = (r, w')" "has_mcs_balancer w' n"
  then show "has_mcs_balancer w n" by (auto simp: mcs_balancer_defs Let_def split: if_splits)
next
  fix j c l
  assume "\<And>x. key_of x = j \<Longrightarrow> asked c \<noteq> Some (MCSObj x)"
  then show "mcs_told (l @ [c]) j = mcs_told l j"
    by (cases "(c, mcs_told l)" rule: see_mcs_told.cases) (auto simp: mcs_told_append)
qed (auto simp: leaves_def mcs_balancer_defs addCall_def Let_def split: option.splits)

lemma unreliable_mcs_fields [simp]:
  "mcsClient (unreliable_mcs_controller \<phi> \<psi>) = unreliable_server \<phi>" "mcsDeps (unreliable_mcs_controller \<phi> \<psi>) = std_deps"
  "mcsBalancer (unreliable_mcs_controller \<phi> \<psi>) = unreliable_balancer \<psi> (fst (MCSLoadBalancer std_deps))"
  "mcsRetry (unreliable_mcs_controller \<phi> \<psi>) = retry_upto 4"
  by (simp_all add: unreliable_mcs_controller_def)

lemma status_attempt_frame:
  assumes there: "find_key k (mcss_at s0) = Some m"
  shows "leads (\<lambda>s. mcs_kind.frame s0 k s \<and> mcs_kind.copied k v s) (mcs_status_attempt (unreliable_mcs_controller \<phi> \<psi>) st v)
    (\<lambda>r s. mcs_kind.frame s0 k s \<and> mcs_kind.copied k (snd r) s)"
proof -
  let ?c = "unreliable_client (\<phi> MCSKind) (mem_client apiMCSs (\<lambda>xs w. w\<lparr>apiMCSs := xs\<rparr>) (\<lambda>_ _. False))"
  let ?x = "with_mcs_status st v"
  have "api_status_update MCSObj ?c ?x \<in> mcs_kind.writes (\<phi> MCSKind) (\<lambda>_ _. False) ?x"
    by (simp add: mcs_kind.writes_def Let_def)
  from mcs_kind.live_write [OF this there, where C = "{}"]
  have store: "leads (\<lambda>s. mcs_kind.frame s0 k s \<and> mcs_kind.copied k v s) (api_status_update MCSObj ?c ?x)
      (\<lambda>r s. mcs_kind.frame s0 k s \<and> mcs_kind.copied k (snd r) s)"
    by (rule leads_consequence) (auto simp: mcs_kind.copied_def)
  have again: "leads (\<lambda>s. mcs_kind.frame s0 k s \<and> mcs_kind.copied k y s) (do {
       r \<leftarrow> api_get MCSKind MCSObj ?c (key_of y);
       case r of Inr updated \<Rightarrow> ret (e, updated) | Inl _ \<Rightarrow> ret (e, y) }) (\<lambda>r s. mcs_kind.frame s0 k s \<and> mcs_kind.copied k (snd r) s)" for y e
  proof (rule leads_known [where c = "key_of y = k"])
    assume y: "key_of y = k"
    have "leads (\<lambda>s. mcs_kind.frame s0 k s \<and> mcs_kind.copied k y s) (api_get MCSKind MCSObj ?c k)
        (\<lambda>r s. mcs_kind.frame s0 k s \<and> mcs_kind.copied k y s \<and> (\<forall>x. r = Inr x \<longrightarrow> mcs_kind.copied k x s))"
      by (rule leads_consequence [OF mcs_kind.live_get [where C = "{y}" and v = y]]) simp_all
    then show ?thesis unfolding y by (rule leads_bind) (auto intro!: leads_rules)
  qed (simp add: mcs_kind.copied_def)
  show ?thesis
    unfolding mcs_status_attempt_def unreliable_mcs_fields unreliable_server_simps mem_server_simps
    by (rule leads_bind [OF store], rule leads_cases(1), rule leads_if) (auto intro!: leads_rules again)
qed

lemma updateMCSStatus_frame:
  assumes there: "find_key k (mcss_at s0) = Some m"
  shows "leads (\<lambda>s. mcs_kind.frame s0 k s \<and> mcs_kind.copied k v s) (updateMCSStatus (unreliable_mcs_controller \<phi> \<psi>) v st)
    (\<lambda>_. mcs_kind.frame s0 k)"
proof -
  let ?I = "\<lambda>v s. mcs_kind.frame s0 k s \<and> mcs_kind.copied k v s"
  have "leads (?I v) (retry_upto 4 (mcs_status_attempt (unreliable_mcs_controller \<phi> \<psi>) x) v) (\<lambda>r. ?I (snd r))" for x
    by (rule leads_retry [OF retry_upto_ok, where I = ?I], rule status_attempt_frame [OF there])
  then have "leads (?I v) (do { (err, _) \<leftarrow> retry_upto 4 (mcs_status_attempt (unreliable_mcs_controller \<phi> \<psi>) x) v; ret err })
      (\<lambda>_. mcs_kind.frame s0 k)" for x
    by (rule leads_bind) (auto intro!: leads_rules)
  then show ?thesis unfolding updateMCSStatus_def unreliable_mcs_fields by (auto intro!: leads_rules)
qed

lemma sync_mcs_balancer_frame:
  assumes there: "find_key k (mcss_at s0) = Some m"
  shows "leads (\<lambda>s. mcs_kind.frame s0 k s \<and> mcs_kind.copied k v s) (sync_mcs_balancer (unreliable_mcs_controller \<phi> \<psi>) v)
    (\<lambda>_. mcs_kind.frame s0 k)"
proof (rule leads_known [where c = "key_of v = k"])
  assume v: "key_of v = k"
  let ?I = "\<lambda>s. mcs_kind.frame s0 k s \<and> mcs_kind.copied k v s" and ?b = "unreliable_balancer \<psi> (fst (MCSLoadBalancer std_deps))"
  have get: "leads ?I (lb_get MCSObj ?b v) (\<lambda>_. ?I)"
    using mcs_kind.live_lb_get [OF there, where C = "{v}"] by simp
  have asks: "leads ?I (lb_ensure MCSObj ?b v) (\<lambda>_. ?I)" "leads ?I (lb_update MCSObj ?b v) (\<lambda>_. ?I)"
    using mcs_kind.live_lb_write [OF there v, where C = "{v}" and v = v] by simp_all
  have tell: "leads ?I (handleMCSUpdate (unreliable_mcs_controller \<phi> \<psi>) v) (\<lambda>_. mcs_kind.frame s0 k)"
    "leads ?I (handleMCSCreate (unreliable_mcs_controller \<phi> \<psi>) v) (\<lambda>_. mcs_kind.frame s0 k)"
    unfolding handleMCSUpdate_def handleMCSCreate_def unreliable_mcs_fields
    by (rule leads_bind [OF asks(2)] leads_bind [OF asks(1)], rule leads_cases(1), rule leads_if,
        (rule leads_ret, blast), rule updateMCSStatus_frame [OF there])+
  show ?thesis
    unfolding sync_mcs_balancer_def unreliable_mcs_fields
    by (rule leads_bind [OF get]) (auto intro!: leads_rules tell)
qed (simp add: mcs_kind.copied_def)

lemma handleMCSCreateOrUpdate_frame:
  assumes there: "find_key k (mcss_at s0) = Some m" and v: "key_of v = k"
  shows "leads (\<lambda>s. mcs_kind.frame s0 k s \<and> find_key k (mcss_at s) = Some v)
    (handleMCSCreateOrUpdate (unreliable_mcs_controller \<phi> \<psi>) v) (\<lambda>_. mcs_kind.frame s0 k)"
proof (cases "MCSControllerFinalizer \<in> set (Finalizers v)")
  case True
  then have "leads (\<lambda>s. mcs_kind.frame s0 k s \<and> find_key k (mcss_at s) = Some v)
      (sync_mcs_balancer (unreliable_mcs_controller \<phi> \<psi>) v) (\<lambda>_. mcs_kind.frame s0 k)"
    by (intro leads_consequence [OF sync_mcs_balancer_frame [OF there]]) (simp_all add: mcs_kind.copied_def v)
  then show ?thesis using True by (simp add: handleMCSCreateOrUpdate_def)
next
  case False
  let ?c = "unreliable_client (\<phi> MCSKind) (mem_client apiMCSs (\<lambda>xs w. w\<lparr>apiMCSs := xs\<rparr>) (\<lambda>_ _. False))"
  let ?x = "v\<lparr>Finalizers := Finalizers v @ [MCSControllerFinalizer]\<rparr>"
  have "api_update MCSObj ?c ?x \<in> mcs_kind.writes (\<phi> MCSKind) (\<lambda>_ _. False) ?x"
    by (simp add: mcs_kind.writes_def Let_def)
  from mcs_kind.frame_finalized [OF this there] v
  have "leads (mcs_kind.frame s0 k) (api_update MCSObj ?c ?x)
      (\<lambda>r s. mcs_kind.frame s0 k s \<and> (fst r = None \<longrightarrow> mcs_kind.copied k (snd r) s))"
    by (auto elim!: leads_consequence simp: key_of_def)
  then have "leads (mcs_kind.frame s0 k) (do {
      (err, mcs) \<leftarrow> api_update MCSObj ?c ?x;
      if err \<noteq> None then ret err else sync_mcs_balancer (unreliable_mcs_controller \<phi> \<psi>) mcs }) (\<lambda>_. mcs_kind.frame s0 k)"
    by (rule leads_bind)
      (auto intro!: leads_rules leads_consequence [OF sync_mcs_balancer_frame [OF there]])
  moreover have "handleMCSCreateOrUpdate (unreliable_mcs_controller \<phi> \<psi>) v = do {
      (err, mcs) \<leftarrow> api_update MCSObj ?c ?x;
      if err \<noteq> None then ret err else sync_mcs_balancer (unreliable_mcs_controller \<phi> \<psi>) mcs }"
    using False by (simp add: handleMCSCreateOrUpdate_def)
  ultimately show ?thesis by (auto elim!: leads_consequence)
qed

lemma release_mcs_frame:
  assumes there: "find_key k (mcss_at s0) = Some m" and v: "key_of v = k"
  shows "leads (\<lambda>s. mcs_kind.frame s0 k s \<and> \<not> has_mcs_balancer (env s) (name_of k))
    (release_mcs (unreliable_mcs_controller \<phi> \<psi>) v) (\<lambda>_. mcs_kind.frame s0 k)"
proof -
  let ?c = "unreliable_client (\<phi> MCSKind) (mem_client apiMCSs (\<lambda>xs w. w\<lparr>apiMCSs := xs\<rparr>) (\<lambda>_ _. False))"
  have "api_update MCSObj ?c (v\<lparr>Finalizers := fs\<rparr>) \<in> mcs_kind.writes (\<phi> MCSKind) (\<lambda>_ _. False) (v\<lparr>Finalizers := fs\<rparr>)" for fs
    by (simp add: mcs_kind.writes_def Let_def)
  from mcs_kind.frame_released [OF this there]
  have "leads (\<lambda>s. mcs_kind.frame s0 k s \<and> \<not> has_mcs_balancer (env s) (name_of k))
      (api_update MCSObj ?c (v\<lparr>Finalizers := fs\<rparr>)) (\<lambda>_. mcs_kind.frame s0 k)" for fs
    using v by (simp add: key_of_def)
  then have "leads (\<lambda>s. mcs_kind.frame s0 k s \<and> \<not> has_mcs_balancer (env s) (name_of k))
      (do { (err, _) \<leftarrow> api_update MCSObj ?c (v\<lparr>Finalizers := fs\<rparr>); ret err }) (\<lambda>_. mcs_kind.frame s0 k)" for fs
    by (rule leads_bind) (auto intro!: leads_rules)
  then show ?thesis
    unfolding release_mcs_def unreliable_mcs_fields unreliable_server_simps mem_server_simps Let_def
    by (auto intro!: leads_rules split: prod.split)
qed

lemma handleMCSDelete_frame:
  assumes there: "find_key k (mcss_at s0) = Some m" and v: "key_of v = k"
  shows "leads (mcs_kind.frame s0 k) (handleMCSDelete (unreliable_mcs_controller \<phi> \<psi>) v) (\<lambda>_. mcs_kind.frame s0 k)"
proof -
  let ?c = "unreliable_mcs_controller \<phi> \<psi>" and ?b = "unreliable_balancer \<psi> (fst (MCSLoadBalancer std_deps))"
  have note': "leads (mcs_kind.frame s0 k) (note_call (Recorded x y)) (\<lambda>_. mcs_kind.frame s0 k)" for x y
    using mcs_kind.live_note [of "Recorded x y" s0 k "{}"] by simp
  have get: "leads (mcs_kind.frame s0 k) (lb_get MCSObj ?b v) (\<lambda>_. mcs_kind.frame s0 k)"
    using mcs_kind.live_lb_get [OF there, where C = "{}"] by simp
  have delete: "leads (mcs_kind.frame s0 k) (delete_mcs_balancer ?c v)
      (\<lambda>r s. mcs_kind.frame s0 k s \<and> (r = None \<longrightarrow> \<not> has_mcs_balancer (env s) (name_of k)))"
    unfolding delete_mcs_balancer_def unreliable_mcs_fields
  proof (rule leads_bind [OF mcs_kind.frame_lb_delete [OF there v]], rule leads_if)
    fix err assume err: "err \<noteq> None"
    have "leads (mcs_kind.frame s0 k) (do { _ \<leftarrow> note_call (Recorded (MCSObj v) ''Failed to delete MultiClusterService''); ret err })
        (\<lambda>r s. mcs_kind.frame s0 k s \<and> (r = None \<longrightarrow> \<not> has_mcs_balancer (env s) (name_of k)))"
      by (rule leads_bind [OF note']) (use err in \<open>auto intro!: leads_rules\<close>)
    then show "leads (\<lambda>s. mcs_kind.frame s0 k s \<and> (err = None \<longrightarrow> \<not> has_mcs_balancer (env s) (name_of k)))
        (do { _ \<leftarrow> note_call (Recorded (MCSObj v) ''Failed to delete MultiClusterService''); ret err })
        (\<lambda>r s. mcs_kind.frame s0 k s \<and> (r = None \<longrightarrow> \<not> has_mcs_balancer (env s) (name_of k)))"
      by (rule leads_consequence) auto
  qed (auto intro!: leads_rules)
  have rid: "leads (mcs_kind.frame s0 k) (do { err \<leftarrow> delete_mcs_balancer ?c v; if err \<noteq> None then ret err else release_mcs ?c v })
      (\<lambda>_. mcs_kind.frame s0 k)"
    by (rule leads_bind [OF delete])
      (auto intro!: leads_rules leads_consequence [OF release_mcs_frame [OF there v]])
  have kept: "leads (mcs_kind.frame s0 k) (do { _ \<leftarrow> note_call (Recorded (MCSObj v) ''Failed to get MultiClusterService''); ret err })
      (\<lambda>_. mcs_kind.frame s0 k)" for err
    by (rule leads_bind [OF note']) (auto intro!: leads_rules)
  show ?thesis
    unfolding handleMCSDelete_def unreliable_mcs_fields
    by (rule leads_if, rule rid, rule leads_bind [OF get]) (auto intro!: leads_rules rid kept)
qed

lemma ReconcileMCS_frame:
  "leads (mcs_kind.frame s0 k) (ReconcileMCS (unreliable_mcs_controller \<phi> \<psi>) k) (\<lambda>_. mcs_kind.frame s0 k)"
proof -
  let ?c = "unreliable_mcs_controller \<phi> \<psi>"
  have note': "leads (mcs_kind.frame s0 k) (note_call (Reconciling MCSKind k)) (\<lambda>_. mcs_kind.frame s0 k)"
    using mcs_kind.live_note [of "Reconciling MCSKind k" s0 k "{}"] by simp
  have found: "leads (\<lambda>s. mcs_kind.frame s0 k s \<and> find_key k (mcss_at s) = Some v)
      (if \<not> IsZero (DeletionTimestamp v) \<or> \<not> MCSContainLoadBalanceType std_deps v then handleMCSDelete ?c v
       else handleMCSCreateOrUpdate ?c v) (\<lambda>_. mcs_kind.frame s0 k)"
    if v: "key_of v = k \<and> find_key k (mcss_at s0) \<noteq> None" for v
  proof -
    obtain m where m: "find_key k (mcss_at s0) = Some m" using v by blast
    have "leads (\<lambda>s. mcs_kind.frame s0 k s \<and> find_key k (mcss_at s) = Some v) (handleMCSDelete ?c v) (\<lambda>_. mcs_kind.frame s0 k)"
      by (rule leads_consequence [OF handleMCSDelete_frame [OF m]]) (use v in auto)
    then show ?thesis using handleMCSCreateOrUpdate_frame [OF m, of v] v by simp
  qed
  show ?thesis
    unfolding ReconcileMCS_def unreliable_mcs_fields unreliable_server_simps mem_server_simps
  proof (rule leads_bind [OF note'], rule leads_bind [OF mcs_kind.frame_get], rule leads_cases(2), goal_cases)
    case (2 _ r v)
    show ?case
      by (rule leads_known [where c = "key_of v = k \<and> find_key k (mcss_at s0) \<noteq> None"], use 2 in simp,
        rule leads_consequence [OF found]) (use 2 in auto)
  qed (auto intro!: leads_rules)
qed

lemma mcs_hampered_harmless:
  assumes ok: "mcs_ok s" and run: "mcs_hampers k s w"
  shows "harmless mcs_ok mcs_settled mcs_covers (\<lambda>_. (=)) k s w"
proof (rule harmless_oneI)
  obtain \<phi> \<psi> e where "run_state (ReconcileMCS (unreliable_mcs_controller \<phi> \<psi>) k) s = (Some e, w)"
    using run by (auto simp: mcs_hampers_def)
  from leadsD [OF ReconcileMCS_frame this mcs_kind.frame_start] have frame: "mcs_kind.frame s k w" using ok by (simp add: mcs_ok_def)
  then show "mcs_ok w" using mcs_kind.frameD(1,2) by (simp add: mcs_ok_def)
  show "mcs_settled w i" if i: "i \<noteq> k" "mcs_settled s i" for i
  proof (cases "find_key i (mcss_at s)")
    case None
    then show ?thesis using mcs_kind.frameD(4) [OF frame i(1)] by (simp add: mcs_settled_def)
  next
    case (Some x)
    have x: "x \<in> set (mcss_at s)" "key_of x = i" using find_keyD [OF Some] by simp_all
    have "name_of i \<noteq> name_of k \<or> find_key k (mcss_at s) = None"
      using others_named [of "\<lambda>_. True" "mcss_at s" k _ x] ok i(1) x by (cases "find_key k (mcss_at s)") (simp_all add: mcs_ok_def)
    then have "settled_mcs w x = settled_mcs s x"
      using mcs_kind.frameD(5,6) [OF frame] i(1) x(2) by (intro settled_mcs_cong) simp_all
    then show ?thesis using mcs_kind.frameD(4) [OF frame i(1)] i(2) Some by (simp add: mcs_settled_def)
  qed
  show "mcs_settled w i \<or> mcs_covers w e i" if "mcs_covers s e i" for i e
    using that covers_anywhere by blast
qed

interpretation mcs_loop: event_loop mcs_init mcs_others mcs_hampers mcs_handle mcs_recon mcs_ok mcs_settled mcs_covers "\<lambda>_. (=)"
proof unfold_locales
  show "mcs_init w \<Longrightarrow> mcs_ok w" "mcs_init w \<Longrightarrow> mcs_settled w i" for w i by (rule mcs_init_good; assumption)+
  show "mcs_ok w \<Longrightarrow> mcs_others w es w' \<Longrightarrow> mcs_keeps_up w es w'" for w es w' by (rule mcs_others_kept_up)
  show "mcs_ok w \<Longrightarrow> mcs_hampers k w w' \<Longrightarrow> harmless mcs_ok mcs_settled mcs_covers (\<lambda>_. (=)) k w w'" for k w w'
    by (rule mcs_hampered_harmless)
  show "mcs_ok w \<Longrightarrow> mcs_covers w e i \<Longrightarrow> mcs_settled w i \<or> (\<exists>k \<in> set (mcs_handle e w). k = i)" for w e i
    by (simp add: mcs_covers_def)
  show "mcs_ok w \<Longrightarrow> \<exists>w'. mcs_recon k w = (None, w') \<and> (\<forall>i. k = i \<longrightarrow> mcs_settled w' i) \<and> mcs_keeps_up w [] w'" for w k
    using reconcile_mcs_settles [of w k] by metis
qed

section \<open>A sample run\<close>

text \<open>An object is created, its event arrives, and its key is reconciled.\<close>

definition mcs_start_world :: "(Testbed, call) world" where
  "mcs_start_world = \<lparr>env = empty_testbed, calls = []\<rparr>"

definition mcs_created :: "((Testbed, call) world, mcs_watched, key) loop" where
  "mcs_created = \<lparr>loopWorld = with_mcss [sample_mcs] mcs_start_world,
     loopEvents = [McsWatchMCS (CreateEvent sample_mcs)], loopQueue = []\<rparr>"

definition mcs_rested :: "((Testbed, call) world, mcs_watched, key) loop" where
  "mcs_rested = process mcs_recon (''shop'', ''cart'') (deliver mcs_handle (McsWatchMCS (CreateEvent sample_mcs)) [] mcs_created)"

lemma sample_mcs_fields:
  "key_of sample_mcs = (''shop'', ''cart'')" "Finalizers sample_mcs = []" "CHR ''/'' \<notin> set (Namespace sample_mcs)"
  "wants_balancer std_deps sample_mcs" "MCSContainLoadBalanceType std_deps sample_mcs"
  by (auto simp: sample_mcs_def meta_literal_def ObjectMeta.defs key_of_def wants_balancer_def MCSContainLoadBalanceType_iff)

lemma mcs_created_runs: "mcs_runs mcs_created"
proof -
  have world: "mcss_at mcs_start_world = []" "mcs_init mcs_start_world"
    by (simp_all add: mcs_start_world_def empty_testbed_def mcs_init_def)
  have "mcs_others mcs_start_world [McsWatchMCS (CreateEvent sample_mcs)] (with_mcss (mcss_at mcs_start_world @ [sample_mcs]) mcs_start_world)"
    by (rule mcs_others.created) (simp_all add: world sample_mcs_fields del: with_mcss_fields)
  then have "mcs_runs (announce [McsWatchMCS (CreateEvent sample_mcs)] (with_mcss (mcss_at mcs_start_world @ [sample_mcs]) mcs_start_world)
      \<lparr>loopWorld = mcs_start_world, loopEvents = [], loopQueue = []\<rparr>)"
    by (intro loop_runs.moved loop_runs.start world(2)) simp
  then show ?thesis by (simp add: announce_def mcs_created_def world(1))
qed

lemma mcs_rested_runs: "mcs_runs mcs_rested" "at_rest mcs_rested"
  "\<exists>z. z \<in> set (mcss_at (loopWorld mcs_rested)) \<and> key_of z = (''shop'', ''cart'') \<and> wants_balancer std_deps z"
proof -
  let ?D = "deliver mcs_handle (McsWatchMCS (CreateEvent sample_mcs)) [] mcs_created"
  have D: "loopQueue ?D = [(''shop'', ''cart'')]" "loopWorld ?D = with_mcss [sample_mcs] mcs_start_world" "loopEvents ?D = []"
    by (simp_all add: mcs_created_def mcs_handle_def sample_mcs_fields)
  have "mcs_work mcs_created ?D"
    using work_step.delivered [of mcs_created "[]" "McsWatchMCS (CreateEvent sample_mcs)" "[]"] by (simp add: mcs_created_def)
  moreover have "mcs_work ?D mcs_rested"
    unfolding mcs_rested_def by (rule work_step.reconciled) (simp add: D(1) del: loop_fields)
  ultimately show "mcs_runs mcs_rested" using mcs_created_runs by (blast intro: loop_runs.work)
  have "find_key (''shop'', ''cart'') (mcss_at (loopWorld ?D)) = Some sample_mcs"
    unfolding D by (simp add: sample_mcs_fields)
  from reconcile_mcs_stored [OF this] obtain w z where
    w: "mcs_recon (''shop'', ''cart'') (loopWorld ?D) = (None, w)" "mcss_at w = put_key z (mcss_at (loopWorld ?D))"
    and z: "key_of z = (''shop'', ''cart'')" "mcsSpec z = mcsSpec sample_mcs" "DeletionTimestamp z = None"
    using sample_mcs_fields(4) unfolding mcs_recon_def by (auto split: if_splits)
  have rested: "loopWorld mcs_rested = w" "at_rest mcs_rested"
    using w(1) D by (simp_all add: mcs_rested_def process_def at_rest_def)
  then show "at_rest mcs_rested" by simp
  have "mcss_at w = [z]" using w(2) z(1) unfolding D by (simp add: sample_mcs_fields)
  moreover have "wants_balancer std_deps z"
    using z sample_mcs_fields(5) by (simp add: wants_balancer_def MCSContainLoadBalanceType_def)
  ultimately show "\<exists>z. z \<in> set (mcss_at (loopWorld mcs_rested)) \<and> key_of z = (''shop'', ''cart'') \<and> wants_balancer std_deps z"
    using z(1) rested(1) by auto
qed

text \<open>Without failing calls, an object that carries the finalizer has its balancer.\<close>

lemma mcs_others_served:
  assumes "mcs_others s es s'" and "mcs_served s"
  shows "mcs_served s'"
  using assms(1)
proof (cases rule: mcs_others.cases)
  case (created m)
  then show ?thesis using assms(2) by (simp add: serves_append)
next
  case (changed m' m)
  then show ?thesis using serves_put [OF assms(2), of m' m] by simp
next
  case (removed k m)
  then show ?thesis using assms(2) by (simp add: serves_filter)
qed (use assms(2) in simp)

lemma calm_is_run: "mcs_calm_runs S \<Longrightarrow> mcs_runs S"
  by (erule loop_runs_more) simp

lemma calm_served: "mcs_calm_runs S \<Longrightarrow> mcs_served (loopWorld S)"
proof (induction rule: loop_runs.induct)
  case (start w)
  then show ?case by (simp add: mcs_init_def serves_def)
next
  case (moved S es w)
  then show ?case using mcs_others_served by simp
next
  case (work S S')
  from work.hyps(2) show ?case
  proof (cases rule: work_step.cases)
    case (reconciled k)
    have "mcs_ok (loopWorld S)" by (rule mcs_loop.runs_ok [OF calm_is_run [OF work.hyps(1)]])
    from reconcile_mcs_settles [OF this, of k] work.IH show ?thesis
      by (auto simp: reconciled process_def)
  qed (use work.IH in simp)
qed simp

section \<open>An object that cannot be deleted\<close>

text \<open>
  A run: an object of the LoadBalancer type is created; its reconcile stores the finalizer, then the
  provider refuses to make the balancer; the user takes the type away and deletes the object.
\<close>

definition refusing_provider :: "Testbed fates" where
  "refusing_provider verb k w = (if verb = ''ensure'' then Refused else Granted)"

definition finalized_mcs :: MultiClusterService where
  "finalized_mcs = next_version (sample_mcs\<lparr>Finalizers := [MCSControllerFinalizer]\<rparr>)"

definition stuck_mcs :: MultiClusterService where
  "stuck_mcs = finalized_mcs\<lparr>mcsSpec := (mcsSpec finalized_mcs)\<lparr>Types := None\<rparr>, DeletionTimestamp := Some ''now''\<rparr>"

definition refused_world :: "(Testbed, call) world" where
  "refused_world = snd (run_state (ReconcileMCS (unreliable_mcs_controller (\<lambda>_ _ _ _. Granted) refusing_provider)
     (''shop'', ''cart'')) (with_mcss [sample_mcs] mcs_start_world))"

lemma refused_reconcile:
  "mcs_hampers (''shop'', ''cart'') (with_mcss [sample_mcs] mcs_start_world) refused_world"
  "mcss_at refused_world = [finalized_mcs]" "\<not> has_mcs_balancer (env refused_world) n"
proof -
  let ?r = "run_state (ReconcileMCS (unreliable_mcs_controller (\<lambda>_ _ _ _. Granted) refusing_provider)
     (''shop'', ''cart'')) (with_mcss [sample_mcs] mcs_start_world)"
  have "fst ?r = Some timeout \<and> mcss_at (snd ?r) = [finalized_mcs] \<and> \<not> has_mcs_balancer (env (snd ?r)) n"
    by (simp add: mcs_start_world_def with_mcss_def refusing_provider_def finalized_mcs_def run_mcs_test
        unreliable_client_def unreliable_balancer_def ReconcileMCS_def handleMCSCreateOrUpdate_def sync_mcs_balancer_def
        handleMCSCreate_def MCSContainLoadBalanceType_def IsZero_def)
  then show "mcs_hampers (''shop'', ''cart'') (with_mcss [sample_mcs] mcs_start_world) refused_world"
    "mcss_at refused_world = [finalized_mcs]" "\<not> has_mcs_balancer (env refused_world) n"
    unfolding mcs_hampers_def refused_world_def by (metis prod.collapse, simp_all)
qed

definition stuck_events :: "mcs_watched list" where
  "stuck_events = [McsWatchMCS (UpdateEvent finalized_mcs stuck_mcs)]"

definition mcs_retried :: "((Testbed, call) world, mcs_watched, key) loop" where
  "mcs_retried = requeue (''shop'', ''cart'') refused_world
     (deliver mcs_handle (McsWatchMCS (CreateEvent sample_mcs)) [] mcs_created)"

definition mcs_stuck :: "((Testbed, call) world, mcs_watched, key) loop" where
  "mcs_stuck = process mcs_recon (''shop'', ''cart'') (deliver mcs_handle (hd stuck_events) []
     (announce stuck_events (with_mcss [stuck_mcs] refused_world) mcs_retried))"

lemma stuck_fields:
  "key_of finalized_mcs = (''shop'', ''cart'')" "key_of stuck_mcs = (''shop'', ''cart'')"
  "Finalizers finalized_mcs = [MCSControllerFinalizer]" "Finalizers stuck_mcs = [MCSControllerFinalizer]"
  "DeletionTimestamp stuck_mcs = Some ''now''" "\<not> MCSContainLoadBalanceType std_deps stuck_mcs"
proof -
  show "key_of finalized_mcs = (''shop'', ''cart'')" by (simp add: finalized_mcs_def sample_mcs_fields(1))
  then show "key_of stuck_mcs = (''shop'', ''cart'')" by (simp add: stuck_mcs_def key_of_def)
qed (simp_all add: stuck_mcs_def finalized_mcs_def MCSContainLoadBalanceType_def)

lemma mcs_retried_runs: "mcs_runs mcs_retried" "loopQueue mcs_retried = [(''shop'', ''cart'')]" "loopEvents mcs_retried = []"
  "loopWorld mcs_retried = refused_world"
proof -
  let ?D = "deliver mcs_handle (McsWatchMCS (CreateEvent sample_mcs)) [] mcs_created"
  have D: "loopQueue ?D = [(''shop'', ''cart'')]" "loopWorld ?D = with_mcss [sample_mcs] mcs_start_world" "loopEvents ?D = []"
    by (simp_all add: mcs_created_def mcs_handle_def sample_mcs_fields)
  have "mcs_work mcs_created ?D"
    using work_step.delivered [of mcs_created "[]" "McsWatchMCS (CreateEvent sample_mcs)" "[]"] by (simp add: mcs_created_def)
  then have "mcs_runs ?D" using mcs_created_runs by (blast intro: loop_runs.work)
  moreover have "(''shop'', ''cart'') \<in> set (loopQueue ?D)" unfolding D by simp
  moreover have "mcs_hampers (''shop'', ''cart'') (loopWorld ?D) refused_world" unfolding D by (rule refused_reconcile)
  ultimately show "mcs_runs mcs_retried" unfolding mcs_retried_def by (rule loop_runs.hampered)
  show "loopQueue mcs_retried = [(''shop'', ''cart'')]" "loopEvents mcs_retried = []" "loopWorld mcs_retried = refused_world"
    unfolding mcs_retried_def loop_fields(7-9) D by simp_all
qed

text \<open>A reconcile of an object that is left alone.\<close>

lemma stuck_recon:
  assumes "mcss_at s = [stuck_mcs]" and "\<And>n. \<not> has_mcs_balancer (env s) n"
  shows "fst (mcs_recon k s) = None" and "mcss_at (snd (mcs_recon k s)) = [stuck_mcs]"
    and "\<not> has_mcs_balancer (env (snd (mcs_recon k s))) n"
  using assms stuck_fields
  by (auto simp: mcs_recon_def ReconcileMCS_def handleMCSDelete_def run_api lb_defs mcs_balancer_defs Let_def)

lemma mcs_stuck_runs: "mcs_runs mcs_stuck" "at_rest mcs_stuck" "mcss_at (loopWorld mcs_stuck) = [stuck_mcs]"
  "\<not> has_mcs_balancer (env (loopWorld mcs_stuck)) n"
proof -
  let ?A = "announce stuck_events (with_mcss [stuck_mcs] refused_world) mcs_retried"
  let ?D = "deliver mcs_handle (hd stuck_events) [] ?A"
  have store: "put_key stuck_mcs (mcss_at refused_world) = [stuck_mcs]"
    by (simp add: refused_reconcile stuck_fields)
  have "mcs_others refused_world [McsWatchMCS (UpdateEvent finalized_mcs stuck_mcs)]
      (with_mcss (put_key stuck_mcs (mcss_at refused_world)) refused_world)"
    by (rule mcs_others.changed) (simp_all add: refused_reconcile stuck_fields)
  then have "mcs_others (loopWorld mcs_retried) stuck_events (with_mcss [stuck_mcs] refused_world)"
    unfolding store by (simp add: mcs_retried_runs(4) stuck_events_def)
  then have A: "mcs_runs ?A" by (rule loop_runs.moved [OF mcs_retried_runs(1)])
  have "loopEvents ?A = [] @ hd stuck_events # []" by (simp add: mcs_retried_runs(3) stuck_events_def)
  then have D: "mcs_runs ?D" using loop_runs.work [OF A work_step.delivered] by fastforce
  have "set (mcs_handle (hd stuck_events) s) \<subseteq> {(''shop'', ''cart'')}" for s
    using stuck_fields(2) by (simp add: mcs_handle_def stuck_events_def)
  then have queue: "set (loopQueue ?D) = {(''shop'', ''cart'')}" unfolding loop_fields set_enqueue mcs_retried_runs(2) by auto
  show "mcs_runs mcs_stuck"
    unfolding mcs_stuck_def by (rule loop_runs.work [OF D work_step.reconciled]) (unfold queue, simp)
  have world: "loopWorld ?D = with_mcss [stuck_mcs] refused_world" by simp
  have none: "mcss_at (loopWorld ?D) = [stuck_mcs]" "\<not> has_mcs_balancer (env (loopWorld ?D)) n" for n
    using refused_reconcile(3) by (simp_all add: world)
  note recon = stuck_recon [OF none, of "(''shop'', ''cart'')"]
  have "removeAll (''shop'', ''cart'') (loopQueue ?D) = []"
    unfolding removeAll_filter_not_eq filter_empty_conv queue by simp
  then have stuck: "loopWorld mcs_stuck = snd (mcs_recon (''shop'', ''cart'') (loopWorld ?D))" "at_rest mcs_stuck"
    using recon(1) by (simp_all add: mcs_stuck_def process_def at_rest_def case_prod_beta del: loop_fields(6))
  then show "at_rest mcs_stuck" "mcss_at (loopWorld mcs_stuck) = [stuck_mcs]" "\<not> has_mcs_balancer (env (loopWorld mcs_stuck)) n"
    using recon(2,3) by simp_all
qed

section \<open>What holds of the system\<close>



text \<open>
  C4: when no event is in flight and no key is queued, every stored object is as it should be,
  whichever calls failed before: it has its load balancer exactly if it is not being deleted and has
  the LoadBalancer type, and then it carries the finalizer, and the provider was last told its
  present specification and annotations. Otherwise the finalizer is gone, if the object has the type
  or if no call ever failed.
\<close>

theorem mcs_quiet_system_settled:
  assumes "mcs_runs S" and "at_rest S" and "m \<in> set (mcss_at (loopWorld S))"
  shows "(has_mcs_balancer (env (loopWorld S)) (mcs_key std_deps m) \<longleftrightarrow> wants_balancer std_deps m) \<and>
    (wants_balancer std_deps m \<longrightarrow> MCSControllerFinalizer \<in> set (Finalizers m) \<and>
      (\<exists>x. mcs_told (calls (loopWorld S)) (key_of m) = Some x \<and> mcsSpec x = mcsSpec m \<and> Annotations x = Annotations m)) \<and>
    (\<not> wants_balancer std_deps m \<and> (MCSContainLoadBalanceType std_deps m \<or> mcs_calm_runs S) \<longrightarrow>
      MCSControllerFinalizer \<notin> set (Finalizers m))"
proof -
  have "mcs_kept (loopWorld S)" using mcs_loop.runs_ok [OF assms(1)] by (simp add: mcs_ok_def)
  then have "find_key (key_of m) (mcss_at (loopWorld S)) = Some m" using assms(3) by (rule well_kept_find)
  then have "settled_mcs (loopWorld S) m"
    using mcs_loop.rest_settled [OF assms(1,2), of "key_of m"] by (simp add: mcs_settled_def)
  moreover have "mcs_calm_runs S \<Longrightarrow> MCSControllerFinalizer \<in> set (Finalizers m) \<Longrightarrow>
      has_mcs_balancer (env (loopWorld S)) (name_of (key_of m))"
    using calm_served assms(3) by (simp add: serves_def)
  ultimately show ?thesis by (auto simp: settled_mcs_def mcs_key_name split: if_splits)
qed

lemma mcs_quiet_system_settled_witness:
  "has_mcs_balancer (env (loopWorld mcs_rested)) ''shop/cart''"
proof -
  from mcs_rested_runs(3) obtain z where z: "z \<in> set (mcss_at (loopWorld mcs_rested))"
      "key_of z = (''shop'', ''cart'')" "wants_balancer std_deps z" by blast
  have "mcs_key std_deps z = ''shop/cart''" using z(2) by (simp add: mcs_key_def)
  then show ?thesis using mcs_quiet_system_settled [OF mcs_rested_runs(1,2) z(1)] z(3) by simp
qed

text \<open>
  C39: one failure is enough to make an object undeletable. The finalizer is stored, the provider
  fails to make the balancer, and before the next reconcile the user takes away the type and deletes
  the object: then nothing is left to do, the object is being deleted, only the controller's
  finalizer holds it, and no reconcile of any key releases it.
\<close>

theorem mcs_deletion_hangs_after_failure:
  "\<exists>S m. mcs_runs S \<and> at_rest S \<and> m \<in> set (mcss_at (loopWorld S)) \<and> DeletionTimestamp m \<noteq> None \<and>
    Finalizers m = [MCSControllerFinalizer] \<and> \<not> has_mcs_balancer (env (loopWorld S)) (mcs_key std_deps m) \<and>
    (\<forall>k. fst (mcs_recon k (loopWorld S)) = None \<and> m \<in> set (mcss_at (snd (mcs_recon k (loopWorld S)))))"
  using mcs_stuck_runs stuck_recon [OF mcs_stuck_runs(3,4)] stuck_fields(4,5)
  by (intro exI [of _ mcs_stuck] exI [of _ stuck_mcs]) simp

end
