(* ===== verification/CrdInstallation.thy ===== *)
theory CrdInstallation
  imports Events Testbed
begin

text \<open>
  pkg/controllers/crdinstallation/crd_installation_controller.go: the controller that keeps one
  ClusterPropagationPolicy with the names of all member clusters, so that the ServiceExport CRD
  is propagated to them.
\<close>

section \<open>The controller\<close>

definition clusterPropagationPolicyName :: string where
  "clusterPropagationPolicyName = ''serviceexportpropagation-policy''"

datatype eventType = EnsureType | RemoveType

record 'w CrdController =
  crdDeps :: deps
  crdClient :: "'w client"

definition clusterPropagationPolicy :: "deps \<Rightarrow> string slice \<Rightarrow> Policy" where
  "clusterPropagationPolicy d names = ObjectMeta.extend (meta_literal '''' clusterPropagationPolicyName)
     \<lparr>policySpec = \<lparr>
        ResourceSelectors = [\<lparr>SelectorAPIVersion = ''apiextensions.k8s.io/v1'',
          SelectorKind = ''CustomResourceDefinition'',
          SelectorName = ''serviceexports.multicluster.x-k8s.io''\<rparr>],
        SpecPlacement = \<lparr>
          PlacementAffinity = Some \<lparr>ClusterNames = names, AffinityRest = ''''\<rparr>,
          ClusterTolerations = [
            \<lparr>TolerationKey = TaintClusterNotReady d, TolerationOperator = TolerationOpExists d,
             TolerationEffect = TaintEffectNoExecute d\<rparr>,
            \<lparr>TolerationKey = TaintClusterUnreachable d, TolerationOperator = TolerationOpExists d,
             TolerationEffect = TaintEffectNoExecute d\<rparr>]\<rparr>\<rparr>\<rparr>"

definition createClusterPropagationPolicy :: "'w CrdController \<Rightarrow> ('w, error option) io" where
  "createClusterPropagationPolicy c = do {
     r \<leftarrow> api_list ClusterKind (clusters (crdClient c)) all_objects;
     case r of
       Inl e \<Rightarrow> ret (Some e)
     | Inr clusterList \<Rightarrow> do {
         let policy = clusterPropagationPolicy (crdDeps c) (Some (map Name clusterList));
         (err, _) \<leftarrow> api_create ClusterPolicyObj (cluster_policies (crdClient c)) policy;
         ret err
       }
   }"

text \<open>The loop that looks for the cluster: its index, or the length.\<close>

fun find_index :: "string \<Rightarrow> string list \<Rightarrow> nat" where
  "find_index n [] = 0"
| "find_index n (x # xs) = (if x = n then 0 else Suc (find_index n xs))"

definition with_names :: "ClusterAffinity \<Rightarrow> string slice \<Rightarrow> Policy \<Rightarrow> Policy" where
  "with_names affinity names policy = policy\<lparr>policySpec := (policySpec policy)\<lparr>SpecPlacement :=
     (SpecPlacement (policySpec policy))\<lparr>PlacementAffinity := Some (affinity\<lparr>ClusterNames := names\<rparr>)\<rparr>\<rparr>\<rparr>"

definition store_names :: "'w CrdController \<Rightarrow> Policy \<Rightarrow> ('w, error option) io" where
  "store_names c policy = do {
     (err, _) \<leftarrow> api_update ClusterPolicyObj (cluster_policies (crdClient c)) policy;
     ret err
   }"

definition syncClusterPropagationPolicy ::
  "'w CrdController \<Rightarrow> string \<Rightarrow> eventType \<Rightarrow> ('w, error option) io" where
  "syncClusterPropagationPolicy c clusterName t = do {
     r \<leftarrow> api_get ClusterPolicyKind ClusterPolicyObj (cluster_policies (crdClient c))
       ('''', clusterPropagationPolicyName);
     case r of
       Inl e \<Rightarrow> if e = NotFound then createClusterPropagationPolicy c else ret (Some e)
     | Inr policy \<Rightarrow>
         (case PlacementAffinity (SpecPlacement (policySpec policy)) of
            None \<Rightarrow> ret (Some Panic)
          | Some affinity \<Rightarrow>
              (let names = ClusterNames affinity;
                   index = find_index clusterName (elems names)
               in case t of
                    EnsureType \<Rightarrow>
                      if index < length (elems names) then ret None
                      else store_names c (with_names affinity (append_slice names clusterName) policy)
                  | RemoveType \<Rightarrow>
                      if index \<ge> length (elems names) then ret None
                      else store_names c (with_names affinity
                        (Some (take index (elems names) @ drop (Suc index) (elems names))) policy)))
   }"

text \<open>
  On NotFound the source passes on \<open>cluster.Name\<close> of the object it was about to read into, which is
  still empty.
\<close>

definition ReconcileCrd :: "'w CrdController \<Rightarrow> key \<Rightarrow> ('w, error option) io" where
  "ReconcileCrd c req = do {
     _ \<leftarrow> note_call (Reconciling ClusterKind req);
     r \<leftarrow> api_get ClusterKind ClusterObj (clusters (crdClient c)) req;
     case r of
       Inl e \<Rightarrow> if e = NotFound then syncClusterPropagationPolicy c '''' RemoveType else ret (Some e)
     | Inr cluster \<Rightarrow>
         if \<not> IsZero (DeletionTimestamp cluster)
         then syncClusterPropagationPolicy c (Name cluster) RemoveType
         else syncClusterPropagationPolicy c (Name cluster) EnsureType
   }"

section \<open>Events\<close>

fun clusterFilter :: "deps \<Rightarrow> 'o ObjectMeta_scheme event \<Rightarrow> bool" where
  "clusterFilter d (CreateEvent x) = True"
| "clusterFilter d (UpdateEvent old new) =
     (\<not> SemanticBool d (IsZero (DeletionTimestamp old)) (IsZero (DeletionTimestamp new)))"
| "clusterFilter d (DeleteEvent x) = True"
| "clusterFilter d (GenericEvent x) = False"

fun cppFilter :: "Policy event \<Rightarrow> bool" where
  "cppFilter (CreateEvent p) = False"
| "cppFilter (UpdateEvent old new) = False"
| "cppFilter (DeleteEvent p) = (Name p = clusterPropagationPolicyName)"
| "cppFilter (GenericEvent p) = False"

definition cppHandlerFn :: "Policy \<Rightarrow> key list" where
  "cppHandlerFn p = [('''', ''no-exist-cluster'')]"

text \<open>
  \<open>SetupWithManager\<close>: requests of the cluster itself (\<open>For\<close>), and of the mapped policies
  (\<open>Watches\<close>); the event filter applies to both. Mapped updates do not pass \<open>cppFilter\<close>.
\<close>

definition crd_cluster_requests :: "deps \<Rightarrow> Cluster event \<Rightarrow> key list" where
  "crd_cluster_requests d e = (if clusterFilter d e then [key_of (event_object e)] else [])"

definition crd_policy_requests :: "deps \<Rightarrow> Policy event \<Rightarrow> key list" where
  "crd_policy_requests d e =
     (if clusterFilter d e \<and> cppFilter e then cppHandlerFn (event_object e) else [])"

section \<open>The names after a sync\<close>

lemma find_index_less: "find_index n xs < length xs \<longleftrightarrow> n \<in> set xs"
  by (induction xs) auto

lemma remove_at_index:
  "n \<in> set xs \<Longrightarrow> take (find_index n xs) xs @ drop (Suc (find_index n xs)) xs = remove1 n xs"
  by (induction xs) auto

fun synced_names :: "eventType \<Rightarrow> string \<Rightarrow> string list \<Rightarrow> string list" where
  "synced_names EnsureType n names = names @ [n]"
| "synced_names RemoveType n names = remove1 n names"

definition policy_names :: "Policy \<Rightarrow> string list" where
  "policy_names p = (case PlacementAffinity (SpecPlacement (policySpec p)) of
     None \<Rightarrow> [] | Some a \<Rightarrow> elems (ClusterNames a))"

lemma policy_names_with_names [simp]: "policy_names (with_names a ns p) = elems ns"
  by (simp add: policy_names_def with_names_def)

text \<open>Everything of the policy but the names.\<close>

definition same_but_names :: "Policy \<Rightarrow> Policy \<Rightarrow> bool" where
  "same_but_names p q \<longleftrightarrow> (\<exists>a ns. PlacementAffinity (SpecPlacement (policySpec p)) = Some a \<and> q = with_names a ns p)"

abbreviation policy_key :: key where
  "policy_key \<equiv> ('''', clusterPropagationPolicyName)"

text \<open>
  A run with the policy there: no write when the names are as the event wants them, otherwise one
  Update of the policy with the names synced.
\<close>

lemma run_syncClusterPropagationPolicy:
  assumes get: "cGet (cluster_policies (crdClient c)) policy_key (env s) = (Inr p, w)"
    and affinity: "PlacementAffinity (SpecPlacement (policySpec p)) = Some a"
  defines "s1 \<equiv> s\<lparr>env := w, calls := calls s @ [Got ClusterPolicyKind policy_key (Inr (ClusterPolicyObj p))]\<rparr>"
  shows "(n \<in> set (policy_names p)) = (t = EnsureType) \<Longrightarrow>
      run_state (syncClusterPropagationPolicy c n t) s = (None, s1)"
    and "(n \<in> set (policy_names p)) \<noteq> (t = EnsureType) \<Longrightarrow>
      \<exists>q. same_but_names p q \<and> policy_names q = synced_names t n (policy_names p) \<and>
        run_state (syncClusterPropagationPolicy c n t) s = run_state (store_names c q) s1"
proof -
  have names: "policy_names p = elems (ClusterNames a)" by (simp add: policy_names_def affinity)
  show "(n \<in> set (policy_names p)) = (t = EnsureType) \<Longrightarrow>
      run_state (syncClusterPropagationPolicy c n t) s = (None, s1)"
    using get affinity
    by (cases t) (auto simp: syncClusterPropagationPolicy_def run_api s1_def Let_def names
        not_less [symmetric] find_index_less)
  assume change: "(n \<in> set (policy_names p)) \<noteq> (t = EnsureType)"
  define ns where "ns = (case t of EnsureType \<Rightarrow> append_slice (ClusterNames a) n
    | RemoveType \<Rightarrow> Some (remove1 n (elems (ClusterNames a))))"
  have "run_state (syncClusterPropagationPolicy c n t) s = run_state (store_names c (with_names a ns p)) s1"
    using get affinity change
    by (cases t) (auto simp: syncClusterPropagationPolicy_def run_api s1_def Let_def names ns_def
        not_less [symmetric] find_index_less remove_at_index)
  moreover have "elems ns = synced_names t n (policy_names p)"
    by (cases t) (simp_all add: ns_def names)
  ultimately show "\<exists>q. same_but_names p q \<and> policy_names q = synced_names t n (policy_names p) \<and>
        run_state (syncClusterPropagationPolicy c n t) s = run_state (store_names c q) s1"
    using affinity by (intro exI [of _ "with_names a ns p"]) (auto simp: same_but_names_def)
qed

lemma run_store_names:
  "run_state (store_names c q) s = (case cUpdate (cluster_policies (crdClient c)) q (env s) of
     ((e, _), w) \<Rightarrow> (e, s\<lparr>env := w, calls := calls s @ [Wrote UpdateVerb (ClusterPolicyObj q) e]\<rparr>))"
  by (simp add: store_names_def run_api split: prod.splits)

section \<open>The controller on the test server\<close>

definition test_crd_controller :: "Testbed CrdController" where
  "test_crd_controller = \<lparr>crdDeps = std_deps, crdClient = mem_server std_deps\<rparr>"

lemma test_crd_controller_simps [simp]:
  "crdDeps test_crd_controller = std_deps" "crdClient test_crd_controller = mem_server std_deps"
  by (simp_all add: test_crd_controller_def)

definition crd_world :: "Cluster list \<Rightarrow> string list \<Rightarrow> (Testbed, call) world" where
  "crd_world cs names = \<lparr>env = empty_testbed\<lparr>apiClusters := cs,
     apiClusterPolicies := [clusterPropagationPolicy std_deps (Some names)]\<rparr>, calls = []\<rparr>"

lemma clusterPropagationPolicy_simps [simp]:
  "key_of (clusterPropagationPolicy d ns) = policy_key"
  "policy_names (clusterPropagationPolicy d ns) = elems ns"
  "PlacementAffinity (SpecPlacement (policySpec (clusterPropagationPolicy d ns))) =
     Some \<lparr>ClusterNames = ns, AffinityRest = ''''\<rparr>"
  by (simp_all add: clusterPropagationPolicy_def policy_names_def meta_literal_def ObjectMeta.defs key_of_def)

lemma sample_cluster_fields [simp]:
  "Name sample_cluster = ''m1''" "key_of sample_cluster = ('''', ''m1'')"
  "DeletionTimestamp sample_cluster = None"
  by (simp_all add: sample_cluster_def meta_literal_def ObjectMeta.defs key_of_def)

lemma crd_world_gets:
  "cGet (clusters (crdClient test_crd_controller)) ('''', ''m1'') (env (crd_world [sample_cluster] ns)) =
     (Inr sample_cluster, env (crd_world [sample_cluster] ns))"
  "cGet (cluster_policies (crdClient test_crd_controller)) policy_key (env (crd_world cs ns)) =
     (Inr (clusterPropagationPolicy std_deps (Some ns)), env (crd_world cs ns))"
  by (simp_all add: crd_world_def)

section \<open>Properties\<close>



text \<open>
  When the policy is missing, a reconcile of any request whose cluster can be read or is
  missing creates it with the names of all clusters the server lists; and the deletion of the
  policy leads to such a request, so that it is created again.
\<close>

lemma crd_policy_recreated:
  assumes "cGet (clusters (crdClient c)) ('''', ''no-exist-cluster'') (env s) = (Inl NotFound, w0)"
    and "cGet (cluster_policies (crdClient c)) policy_key w0 = (Inl NotFound, w1)"
    and "cList (clusters (crdClient c)) all_objects w1 = (Inr cs, w2)"
    and "cCreate (cluster_policies (crdClient c)) (clusterPropagationPolicy (crdDeps c) (Some (map Name cs))) w2 =
      ((e, p'), w3)"
  shows "Name p = clusterPropagationPolicyName \<longrightarrow>
    (\<exists>k. crd_policy_requests d (DeleteEvent p) = [k] \<and>
      run_state (ReconcileCrd c k) s = (e, s\<lparr>env := w3, calls := calls s @
        [Reconciling ClusterKind k, Got ClusterKind k (Inl NotFound),
         Got ClusterPolicyKind policy_key (Inl NotFound), Listed ClusterKind all_objects None,
         Wrote CreateVerb (ClusterPolicyObj (clusterPropagationPolicy (crdDeps c) (Some (map Name cs)))) e]\<rparr>))"
  using assms
  by (auto simp: crd_policy_requests_def cppHandlerFn_def ReconcileCrd_def syncClusterPropagationPolicy_def
      createClusterPropagationPolicy_def run_api Let_def)

text \<open>
  Once a cluster is gone, a reconcile of its key does not remove it from the policy: it looks
  for the empty name instead, finds nothing to remove and returns nil without a write.
\<close>

lemma crd_gone_cluster_stays:
  assumes "cGet (clusters (crdClient c)) req (env s) = (Inl NotFound, w0)"
    and "cGet (cluster_policies (crdClient c)) policy_key w0 = (Inr p, w1)"
    and "PlacementAffinity (SpecPlacement (policySpec p)) = Some a"
    and "'''' \<notin> set (policy_names p)"
  shows "run_state (ReconcileCrd c req) s = (None, s\<lparr>env := w1, calls := calls s @
    [Reconciling ClusterKind req, Got ClusterKind req (Inl NotFound),
     Got ClusterPolicyKind policy_key (Inr (ClusterPolicyObj p))]\<rparr>)"
proof -
  let ?s = "s\<lparr>env := w0, calls := calls s @ [Reconciling ClusterKind req, Got ClusterKind req (Inl NotFound)]\<rparr>"
  have rec: "run_state (ReconcileCrd c req) s = run_state (syncClusterPropagationPolicy c '''' RemoveType) ?s"
    using assms(1) by (simp add: ReconcileCrd_def run_api)
  have "cGet (cluster_policies (crdClient c)) policy_key (env ?s) = (Inr p, w1)" using assms(2) by simp
  from run_syncClusterPropagationPolicy(1) [OF this assms(3), of "''''" RemoveType] show ?thesis
    using assms(4) rec by simp
qed

text \<open>
  An update of a cluster leads to a request only when its deletion begins or ends; its creation
  and its removal always do.
\<close>

lemma crd_cluster_requests_iff:
  assumes "semantic_ok d"
  shows "crd_cluster_requests d (UpdateEvent old new) =
      (if (DeletionTimestamp old = None) = (DeletionTimestamp new = None) then [] else [key_of new]) \<and>
    crd_cluster_requests d (CreateEvent new) = [key_of new] \<and>
    crd_cluster_requests d (DeleteEvent new) = [key_of new]"
  by (auto simp: crd_cluster_requests_def semantic_okD [OF assms] IsZero_def)

end
