(* ===== verification/CrdSystem.thy ===== *)
theory CrdSystem
  imports CrdInstallation EventLoop Unreliable
begin

text \<open>
  The controller that installs the ServiceExport CRD as it runs: clusters come, change and go, the
  propagation policy may be deleted, every change puts an event in flight, \<open>SetupWithManager\<close> turns it
  into keys, and the reconcile of a key runs to its end on the test server, or fails on the way and is
  tried again. A missing policy is
  created by whichever reconcile is next, so a key may be awaited by all clusters.
\<close>

section \<open>The system\<close>

datatype crd_watched = CrdWatchCluster "Cluster event" | CrdWatchPolicy "Policy event"

abbreviation clusters_at :: "(Testbed, call) world \<Rightarrow> Cluster list" where
  "clusters_at s \<equiv> apiClusters (env s)"

definition policy_at :: "(Testbed, call) world \<Rightarrow> Policy option" where
  "policy_at s = find_key policy_key (apiClusterPolicies (env s))"

definition at_clusters :: "Cluster list \<Rightarrow> (Testbed, call) world \<Rightarrow> (Testbed, call) world" where
  "at_clusters cs s = s\<lparr>env := (env s)\<lparr>apiClusters := cs\<rparr>\<rparr>"

definition at_policies :: "Policy list \<Rightarrow> (Testbed, call) world \<Rightarrow> (Testbed, call) world" where
  "at_policies ps s = s\<lparr>env := (env s)\<lparr>apiClusterPolicies := ps\<rparr>\<rparr>"

fun crd_handle :: "crd_watched \<Rightarrow> (Testbed, call) world \<Rightarrow> key list" where
  "crd_handle (CrdWatchCluster e) s = crd_cluster_requests std_deps e"
| "crd_handle (CrdWatchPolicy e) s = crd_policy_requests std_deps e"

definition crd_recon :: "key \<Rightarrow> (Testbed, call) world \<Rightarrow> error option \<times> (Testbed, call) world" where
  "crd_recon k = run_state (ReconcileCrd test_crd_controller k)"

text \<open>A reconcile whose calls fail somewhere, and which returns an error.\<close>

definition unreliable_crd_controller :: "(kind \<Rightarrow> Testbed fates) \<Rightarrow> Testbed CrdController" where
  "unreliable_crd_controller \<phi> = test_crd_controller\<lparr>crdClient := unreliable_server \<phi>\<rparr>"

definition crd_hampers :: "key \<Rightarrow> (Testbed, call) world \<Rightarrow> (Testbed, call) world \<Rightarrow> bool" where
  "crd_hampers k s w \<longleftrightarrow> (\<exists>\<phi> e. run_state (ReconcileCrd (unreliable_crd_controller \<phi>) k) s = (Some e, w))"

text \<open>
  A policy that the controller can work with: it has a list of clusters, with each name once, and is
  not being deleted (it carries no finalizers, so a deletion removes it).
\<close>

definition good_policy :: "Policy \<Rightarrow> bool" where
  "good_policy p \<longleftrightarrow> DeletionTimestamp p = None \<and> PlacementAffinity (SpecPlacement (policySpec p)) \<noteq> None \<and>
     distinct (policy_names p) \<and> '''' \<notin> set (policy_names p)"

text \<open>
  What others do: clusters (which have no namespace) are added, changed in any way and removed; the
  policy is deleted, or changed except in its clusters; other policies change in any way.
\<close>

inductive crd_others :: "(Testbed, call) world \<Rightarrow> crd_watched list \<Rightarrow> (Testbed, call) world \<Rightarrow> bool" where
  joined: "find_key (key_of cl) (clusters_at s) = None \<Longrightarrow> Namespace cl = '''' \<Longrightarrow> Name cl \<noteq> '''' \<Longrightarrow>
    crd_others s [CrdWatchCluster (CreateEvent cl)] (at_clusters (clusters_at s @ [cl]) s)"
| changed: "find_key (key_of cl') (clusters_at s) = Some cl \<Longrightarrow>
    crd_others s [CrdWatchCluster (UpdateEvent cl cl')] (at_clusters (put_key cl' (clusters_at s)) s)"
| left: "find_key k (clusters_at s) = Some cl \<Longrightarrow>
    crd_others s [CrdWatchCluster (DeleteEvent cl)] (at_clusters (filter (\<lambda>x. key_of x \<noteq> k) (clusters_at s)) s)"
| policy_deleted: "policy_at s = Some p \<Longrightarrow>
    crd_others s [CrdWatchPolicy (DeleteEvent p)]
      (at_policies (filter (\<lambda>x. key_of x \<noteq> policy_key) (apiClusterPolicies (env s))) s)"
| policy_edited: "policy_at s = Some p \<Longrightarrow> key_of p' = policy_key \<Longrightarrow> good_policy p' \<Longrightarrow> policy_names p' = policy_names p \<Longrightarrow>
    crd_others s [CrdWatchPolicy (UpdateEvent p p')] (at_policies (put_key p' (apiClusterPolicies (env s))) s)"
| other_policies: "find_key policy_key ps = policy_at s \<Longrightarrow> crd_others s [CrdWatchPolicy e] (at_policies ps s)"

definition crd_init :: "(Testbed, call) world \<Rightarrow> bool" where
  "crd_init s \<longleftrightarrow> clusters_at s = [] \<and> (case policy_at s of None \<Rightarrow> True | Some p \<Rightarrow> good_policy p)"

abbreviation crd_runs :: "((Testbed, call) world, crd_watched, key) loop \<Rightarrow> bool" where
  "crd_runs \<equiv> loop_runs crd_init crd_others crd_hampers crd_handle crd_recon"

abbreviation crd_work :: "((Testbed, call) world, crd_watched, key) loop \<Rightarrow> ((Testbed, call) world, crd_watched, key) loop \<Rightarrow> bool" where
  "crd_work \<equiv> work_step crd_handle crd_recon"

lemma at_fields [simp]:
  "clusters_at (at_clusters cs s) = cs" "policy_at (at_clusters cs s) = policy_at s"
  "clusters_at (at_policies ps s) = clusters_at s" "policy_at (at_policies ps s) = find_key policy_key ps"
  by (simp_all add: at_clusters_def at_policies_def policy_at_def)

section \<open>What is settled, and what is on its way\<close>

text \<open>A cluster is settled when the policy is there, and names it if the cluster is to stay.\<close>

definition crd_settled :: "(Testbed, call) world \<Rightarrow> key \<Rightarrow> bool" where
  "crd_settled s i \<longleftrightarrow> (case find_key i (clusters_at s) of None \<Rightarrow> True
     | Some cl \<Rightarrow> (\<exists>p. policy_at s = Some p \<and> (DeletionTimestamp cl = None \<longrightarrow> Name cl \<in> set (policy_names p))))"

fun crd_covers :: "(Testbed, call) world \<Rightarrow> crd_watched \<Rightarrow> key \<Rightarrow> bool" where
  "crd_covers s (CrdWatchCluster e) i \<longleftrightarrow> i \<in> set (crd_cluster_requests std_deps e)"
| "crd_covers s (CrdWatchPolicy e) i \<longleftrightarrow> policy_at s = None \<and> crd_policy_requests std_deps e \<noteq> []"

definition crd_awaits :: "(Testbed, call) world \<Rightarrow> key \<Rightarrow> key \<Rightarrow> bool" where
  "crd_awaits s k i \<longleftrightarrow> k = i \<or> policy_at s = None"

definition crd_ok :: "(Testbed, call) world \<Rightarrow> bool" where
  "crd_ok s \<longleftrightarrow> distinct (map key_of (clusters_at s)) \<and>
     (\<forall>cl \<in> set (clusters_at s). Namespace cl = '''' \<and> Name cl \<noteq> '''') \<and>
     (case policy_at s of None \<Rightarrow> True | Some p \<Rightarrow> good_policy p)"

abbreviation crd_keeps_up where
  "crd_keeps_up \<equiv> keeps_up crd_ok crd_settled crd_covers crd_awaits"

lemma crd_okD:
  assumes "crd_ok s" and "find_key k (clusters_at s) = Some cl"
  shows "key_of cl = k" and "Namespace cl = ''''" and "Name cl \<noteq> ''''" and "k = ('''', Name cl)"
  using assms find_keyD [OF assms(2)] by (auto simp: crd_ok_def key_of_def)

text \<open>Events and keys stay good as long as nobody else makes the policy.\<close>

lemma covers_stay:
  assumes "policy_at s' = None \<or> policy_at s \<noteq> None"
  shows "crd_covers s e i \<Longrightarrow> crd_covers s' e i" and "crd_awaits s k i \<Longrightarrow> crd_awaits s' k i"
  using assms by (cases e; auto simp: crd_awaits_def)+

lemma crd_keeps_upI:
  assumes "crd_ok s'" and "\<And>i. crd_settled s i \<Longrightarrow> crd_settled s' i \<or> (\<exists>e \<in> set es. crd_covers s' e i)"
    and "policy_at s' = None \<or> policy_at s \<noteq> None"
  shows "crd_keeps_up s es s'"
  using assms(1,2) covers_stay [OF assms(3)] unfolding keeps_up_def by blast

section \<open>What others do is kept up with\<close>

lemma crd_joined:
  assumes ok: "crd_ok s" and none: "find_key (key_of cl) (clusters_at s) = None" and "Namespace cl = ''''" "Name cl \<noteq> ''''"
  shows "crd_keeps_up s [CrdWatchCluster (CreateEvent cl)] (at_clusters (clusters_at s @ [cl]) s)" (is "crd_keeps_up s [?e] ?s")
proof (rule crd_keeps_upI)
  show "crd_ok ?s" using assms by (auto simp: crd_ok_def find_none_keys)
  fix i assume i: "crd_settled s i"
  show "crd_settled ?s i \<or> (\<exists>e \<in> set [?e]. crd_covers ?s e i)"
    using i none unfolding crd_settled_def at_fields find_append
    by (cases "i = key_of cl") (simp_all add: crd_cluster_requests_def split: option.splits)
qed auto

lemma crd_changed:
  assumes ok: "crd_ok s" and found: "find_key (key_of cl') (clusters_at s) = Some cl"
  shows "crd_keeps_up s [CrdWatchCluster (UpdateEvent cl cl')] (at_clusters (put_key cl' (clusters_at s)) s)" (is "crd_keeps_up s [?e] ?s")
proof (rule crd_keeps_upI)
  have same: "Namespace cl' = Namespace cl" "Name cl' = Name cl"
    using find_keyD [OF found] by (simp_all add: key_of_def)
  then show "crd_ok ?s"
    using ok crd_okD(2,3) [OF ok found] put_key_subset [of cl' "clusters_at s"] by (auto simp: crd_ok_def put_keys)
  fix i assume i: "crd_settled s i"
  show "crd_settled ?s i \<or> (\<exists>e \<in> set [?e]. crd_covers ?s e i)"
  proof (cases "i = key_of cl'")
    case True
    then show ?thesis using i found same
      by (cases "(DeletionTimestamp cl = None) = (DeletionTimestamp cl' = None)")
        (simp_all add: crd_settled_def find_put_key crd_cluster_requests_def IsZero_def)
  qed (use i in \<open>simp add: crd_settled_def find_put_key split: option.splits\<close>)
qed auto

lemma crd_left:
  assumes ok: "crd_ok s"
  shows "crd_keeps_up s [e] (at_clusters (filter (\<lambda>x. key_of x \<noteq> k) (clusters_at s)) s)" (is "crd_keeps_up s [e] ?s")
proof (rule crd_keeps_upI)
  show "crd_ok ?s" using ok by (simp add: crd_ok_def distinct_map_filter)
  fix i assume "crd_settled s i"
  then have "crd_settled ?s i" by (simp add: crd_settled_def find_filter split: option.splits)
  then show "crd_settled ?s i \<or> (\<exists>e \<in> set [e]. crd_covers ?s e i)" ..
qed auto

lemma crd_policy_deleted:
  assumes ok: "crd_ok s" and "policy_at s = Some p"
  shows "crd_keeps_up s [CrdWatchPolicy (DeleteEvent p)]
    (at_policies (filter (\<lambda>x. key_of x \<noteq> policy_key) (apiClusterPolicies (env s))) s)" (is "crd_keeps_up s [?e] ?s")
proof (rule crd_keeps_upI)
  have gone: "policy_at ?s = None" unfolding at_fields find_filter by simp
  then show "crd_ok ?s" using ok by (simp add: crd_ok_def del: at_fields(4))
  show "policy_at ?s = None \<or> policy_at s \<noteq> None" using gone ..
  have "key_of p = policy_key" using assms(2) find_keyD unfolding policy_at_def by blast
  then have "Name p = clusterPropagationPolicyName" by (simp add: key_of_def)
  then have "crd_covers ?s ?e i" for i using gone by (simp add: crd_policy_requests_def cppHandlerFn_def del: at_fields(4))
  then show "crd_settled ?s i \<or> (\<exists>e \<in> set [?e]. crd_covers ?s e i)" for i by simp
qed

lemma crd_same_names:
  assumes ok: "crd_ok s" and same: "case policy_at s of None \<Rightarrow> find_key policy_key ps = None
    | Some p \<Rightarrow> (\<exists>p'. find_key policy_key ps = Some p' \<and> good_policy p' \<and> policy_names p' = policy_names p)"
  shows "crd_keeps_up s es (at_policies ps s)" (is "crd_keeps_up s es ?s")
proof (rule crd_keeps_upI)
  show "crd_ok ?s" using assms by (auto simp: crd_ok_def split: option.splits)
  show "policy_at ?s = None \<or> policy_at s \<noteq> None" using same by (cases "policy_at s") simp_all
  fix i assume "crd_settled s i"
  then have "crd_settled ?s i" using same unfolding crd_settled_def at_fields by (auto split: option.splits)
  then show "crd_settled ?s i \<or> (\<exists>e \<in> set es. crd_covers ?s e i)" ..
qed

lemma crd_others_kept_up:
  assumes "crd_others s es s'" and ok: "crd_ok s"
  shows "crd_keeps_up s es s'"
  using assms(1)
proof (cases rule: crd_others.cases)
  case (policy_edited p p')
  then have "find_key policy_key (put_key p' (apiClusterPolicies (env s))) = Some p'"
    by (simp add: find_put_key policy_at_def)
  then show ?thesis using policy_edited crd_same_names [OF ok] by simp
next
  case (other_policies ps e)
  then show ?thesis using ok crd_same_names [OF ok, of ps] by (simp add: crd_ok_def split: option.splits)
qed (use crd_joined crd_changed crd_left crd_policy_deleted ok in blast)+

section \<open>A reconcile that runs to its end\<close>

lemma same_but_names_keeps:
  assumes "same_but_names p q"
  shows "key_of q = key_of p" and "ResourceVersion q = ResourceVersion p" and "DeletionTimestamp q = DeletionTimestamp p"
    and "PlacementAffinity (SpecPlacement (policySpec q)) \<noteq> None"
  using assms by (auto simp: same_but_names_def with_names_def key_of_def)

lemma next_version_policy [simp]:
  "policySpec (next_version p) = policySpec p" "policy_names (next_version p) = policy_names p"
  by (simp_all add: next_version_def policy_names_def)

text \<open>With the policy there: it is left, or stored with the name added or removed.\<close>

lemma sync_completes:
  assumes ok: "crd_ok s" and p: "policy_at s = Some p" and n: "n \<noteq> '''' \<or> t = RemoveType"
  shows "\<exists>w q. run_state (syncClusterPropagationPolicy test_crd_controller n t) s = (None, w) \<and>
    clusters_at w = clusters_at s \<and> policy_at w = Some q \<and> good_policy q \<and>
    policy_names q = (if (n \<in> set (policy_names p)) = (t = EnsureType) then policy_names p else synced_names t n (policy_names p))"
proof -
  have good: "good_policy p" using ok p by (simp add: crd_ok_def)
  then obtain a where a: "PlacementAffinity (SpecPlacement (policySpec p)) = Some a" by (auto simp: good_policy_def)
  have get: "cGet (cluster_policies (crdClient test_crd_controller)) policy_key (env s) = (Inr p, env s)"
    using p by (simp add: policy_at_def)
  note run = run_syncClusterPropagationPolicy [OF get a, of n t]
  show ?thesis
  proof (cases "(n \<in> set (policy_names p)) = (t = EnsureType)")
    case True
    then show ?thesis using run(1) p good by (simp add: policy_at_def)
  next
    case False
    then obtain q where q: "same_but_names p q" "policy_names q = synced_names t n (policy_names p)"
      and eq: "run_state (syncClusterPropagationPolicy test_crd_controller n t) s =
        run_state (store_names test_crd_controller q)
          (s\<lparr>calls := calls s @ [Got ClusterPolicyKind policy_key (Inr (ClusterPolicyObj p))]\<rparr>)"
      using run(2) by auto
    note same = same_but_names_keeps [OF q(1)]
    have key: "key_of q = policy_key" using same(1) p find_keyD unfolding policy_at_def by metis
    have stored: "find_key (key_of q) (apiClusterPolicies (env s)) = Some p" using key p by (simp add: policy_at_def)
    have "good_policy q"
      using good same False n q(2) by (cases t) (auto simp: good_policy_def)
    then have "good_policy (next_version q)" by (simp add: good_policy_def)
    then show ?thesis using False stored same good q(2) key unfolding eq
      by (simp add: run_store_names write_stored good_policy_def policy_at_def find_put_key)
  qed
qed

text \<open>With no policy there, it is made of all clusters.\<close>

lemma names_of_clusters:
  assumes "crd_ok s"
  shows "distinct (map Name (clusters_at s))" and "'''' \<notin> set (map Name (clusters_at s))"
proof -
  have eq: "map key_of (clusters_at s) = map (Pair '''') (map Name (clusters_at s))"
    using assms by (auto simp: crd_ok_def key_of_def)
  have "distinct (map key_of (clusters_at s))" using assms by (simp add: crd_ok_def)
  then show "distinct (map Name (clusters_at s))" unfolding eq distinct_map [of "Pair ''''"] by (rule conjunct1)
qed (use assms in \<open>auto simp: crd_ok_def\<close>)

lemma create_completes:
  assumes ok: "crd_ok s" and none: "policy_at s = None"
  shows "\<exists>w q. run_state (syncClusterPropagationPolicy test_crd_controller n t) s = (None, w) \<and>
    clusters_at w = clusters_at s \<and> policy_at w = Some q \<and> good_policy q \<and> policy_names q = map Name (clusters_at s)"
proof -
  let ?p = "next_version (clusterPropagationPolicy std_deps (Some (map Name (clusters_at s))))"
  have "good_policy ?p"
    using names_of_clusters [OF ok]
    by (simp add: good_policy_def) (simp add: clusterPropagationPolicy_def meta_literal_def ObjectMeta.defs)
  then show ?thesis using none
    by (simp add: syncClusterPropagationPolicy_def createClusterPropagationPolicy_def run_api policy_at_def
        mem_list_def all_objects_def find_append Let_def)
qed

lemma crd_recon_settles:
  assumes ok: "crd_ok s"
  shows "\<exists>w. crd_recon k s = (None, w) \<and> (\<forall>i. crd_awaits s k i \<longrightarrow> crd_settled w i) \<and> crd_keeps_up s [] w"
proof -
  define n where "n = (case find_key k (clusters_at s) of None \<Rightarrow> '''' | Some cl \<Rightarrow> Name cl)"
  define t where "t = (case find_key k (clusters_at s) of None \<Rightarrow> RemoveType
    | Some cl \<Rightarrow> if DeletionTimestamp cl = None then EnsureType else RemoveType)"
  obtain l where l: "crd_recon k s = run_state (syncClusterPropagationPolicy test_crd_controller n t) (s\<lparr>calls := l\<rparr>)"
  proof (cases "find_key k (clusters_at s)")
    case None
    then show thesis by (intro that) (simp add: crd_recon_def ReconcileCrd_def run_api n_def t_def)
  next
    case (Some cl)
    then show thesis
      by (intro that, cases "DeletionTimestamp cl = None")
        (auto simp: crd_recon_def ReconcileCrd_def run_api IsZero_def n_def t_def)
  qed
  let ?s = "s\<lparr>calls := l\<rparr>"
  have same: "clusters_at ?s = clusters_at s" "policy_at ?s = policy_at s" by (simp_all add: policy_at_def)
  then have ok': "crd_ok ?s" using ok by (simp add: crd_ok_def)
  have n: "n \<noteq> '''' \<or> t = RemoveType"
    using crd_okD(3) [OF ok, of k] by (simp add: n_def t_def split: option.split)
  show ?thesis
  proof (cases "policy_at s")
    case None
    from create_completes [OF ok', of n t] None obtain w q where w: "crd_recon k s = (None, w)"
        "clusters_at w = clusters_at s" "policy_at w = Some q" "good_policy q" "policy_names q = map Name (clusters_at s)"
      unfolding l same by blast
    have settled: "crd_settled w i" for i
      using w(2,3,5) find_keyD [of i "clusters_at s"] by (auto simp: crd_settled_def split: option.split)
    moreover have "crd_ok w" using ok w(2-4) by (simp add: crd_ok_def)
    ultimately have "crd_keeps_up s [] w" unfolding keeps_up_def by blast
    then show ?thesis using w(1) settled by blast
  next
    case (Some p)
    from sync_completes [OF ok' _ n] Some obtain w q where w: "crd_recon k s = (None, w)"
        "clusters_at w = clusters_at s" "policy_at w = Some q" "good_policy q"
      and q: "policy_names q = (if (n \<in> set (policy_names p)) = (t = EnsureType) then policy_names p
        else synced_names t n (policy_names p))"
      unfolding l same by blast
    have here: "crd_settled w k"
      using w(2,3) q by (auto simp: crd_settled_def n_def t_def split: option.split)
    have others: "crd_settled w i" if i: "crd_settled s i" "i \<noteq> k" for i
    proof (cases "find_key i (clusters_at s)")
      case found: (Some cl)
      have "Name cl \<noteq> n"
        using crd_okD(3,4) [OF ok found] crd_okD(4) [OF ok, of k] i(2) by (auto simp: n_def split: option.splits)
      then have "Name cl \<in> set (policy_names q) \<longleftrightarrow> Name cl \<in> set (policy_names p)"
        unfolding q by (cases t) auto
      then show ?thesis using i(1) found w(2,3) Some by (simp add: crd_settled_def)
    qed (simp add: crd_settled_def w(2))
    have "crd_ok w" using ok w(2-4) by (simp add: crd_ok_def)
    moreover have "crd_settled w i \<or> (\<exists>e \<in> set []. crd_covers w e i)" if "crd_settled s i" for i
      using that here others by (cases "i = k") blast+
    ultimately have "crd_keeps_up s [] w" using Some by (intro crd_keeps_upI) auto
    moreover have "crd_settled w i" if "crd_awaits s k i" for i
      using that here Some by (simp add: crd_awaits_def)
    ultimately show ?thesis using w(1) by blast
  qed
qed

lemma crd_covered:
  assumes "crd_covers w e i"
  shows "crd_settled w i \<or> (\<exists>k \<in> set (crd_handle e w). crd_awaits w k i)"
proof (cases e)
  case (CrdWatchPolicy p)
  then have "policy_at w = None" "crd_handle e w \<noteq> []" using assms by simp_all
  then have "hd (crd_handle e w) \<in> set (crd_handle e w)" "crd_awaits w (hd (crd_handle e w)) i"
    by (simp_all add: crd_awaits_def)
  then show ?thesis by blast
next
  case (CrdWatchCluster c)
  then have "i \<in> set (crd_handle e w)" using assms by simp
  then show ?thesis unfolding crd_awaits_def by blast
qed

section \<open>A reconcile whose calls fail\<close>

text \<open>
  What it may have done: made the policy of all clusters, or stored it with or without the name of
  its own cluster.
\<close>

definition crd_frame :: "(Testbed, call) world \<Rightarrow> key \<Rightarrow> (Testbed, call) world \<Rightarrow> bool" where
  "crd_frame s0 k s \<longleftrightarrow> clusters_at s = clusters_at s0 \<and> (policy_at s = policy_at s0 \<or>
     (\<exists>q. policy_at s = Some q \<and> good_policy q \<and> (case policy_at s0 of
        None \<Rightarrow> policy_names q = map Name (clusters_at s0)
      | Some p \<Rightarrow> (\<forall>n. n \<noteq> '''' \<longrightarrow> ('''', n) \<noteq> k \<longrightarrow> (n \<in> set (policy_names q)) = (n \<in> set (policy_names p))))))"

definition crd_untouched :: "(Testbed, call) world \<Rightarrow> (Testbed, call) world \<Rightarrow> bool" where
  "crd_untouched s0 s \<longleftrightarrow> clusters_at s = clusters_at s0 \<and> policy_at s = policy_at s0"

lemma crd_frame_calls [simp]:
  "crd_frame s0 k (s\<lparr>calls := l\<rparr>) = crd_frame s0 k s" "crd_untouched s0 (s\<lparr>calls := l\<rparr>) = crd_untouched s0 s"
  by (simp_all add: crd_frame_def crd_untouched_def policy_at_def)

lemma crd_untouched_frame: "crd_untouched s0 s \<Longrightarrow> crd_frame s0 k s"
  by (simp add: crd_frame_def crd_untouched_def)

lemma store_names_frame:
  assumes p: "policy_at s0 = Some p" and key: "key_of q = policy_key" and good: "good_policy q"
    and names: "\<And>n. n \<noteq> '''' \<Longrightarrow> ('''', n) \<noteq> k \<Longrightarrow> (n \<in> set (policy_names q)) = (n \<in> set (policy_names p))"
  shows "leads (crd_untouched s0) (store_names (unreliable_crd_controller \<phi>) q) (\<lambda>_. crd_frame s0 k)"
proof -
  have "leads (crd_untouched s0) (api_update ClusterPolicyObj (cluster_policies (unreliable_server \<phi>)) q) (\<lambda>_. crd_frame s0 k)"
    unfolding unreliable_server_simps mem_server_simps
  proof (rule leads_writes(1) [where v = UpdateVerb])
    fix s :: "(Testbed, call) world" and e y
    assume s: "crd_untouched s0 s" and "stored_version q (apiClusterPolicies (env s))"
    have "written q (apiClusterPolicies (env s)) = put_key (next_version q) (apiClusterPolicies (env s))"
      using good by (simp add: written_def good_policy_def)
    then have "policy_at (s\<lparr>env := (env s)\<lparr>apiClusterPolicies := written q (apiClusterPolicies (env s))\<rparr>,
        calls := calls s @ [Wrote UpdateVerb (ClusterPolicyObj q) e]\<rparr>) = Some (next_version q)" (is "policy_at ?s = _")
      using s p key by (simp add: policy_at_def find_put_key crd_untouched_def)
    moreover have "good_policy (next_version q)" using good by (simp add: good_policy_def)
    ultimately show "crd_frame s0 k ?s" using s p names by (simp add: crd_frame_def crd_untouched_def)
  qed (simp_all add: crd_untouched_frame)
  then show ?thesis
    unfolding store_names_def by (auto simp: unreliable_crd_controller_def intro!: leads_bind [where R = "\<lambda>_. crd_frame s0 k"] leads_rules)
qed

lemma createClusterPropagationPolicy_frame:
  assumes ok: "crd_ok s0"
  shows "leads (crd_untouched s0) (createClusterPropagationPolicy (unreliable_crd_controller \<phi>)) (\<lambda>_. crd_frame s0 k)"
proof -
  let ?p = "clusterPropagationPolicy std_deps (Some (map Name (clusters_at s0)))"
  have p: "good_policy (next_version ?p)" "policy_names ?p = map Name (clusters_at s0)" "key_of ?p = policy_key"
    using names_of_clusters [OF ok]
    by (simp_all add: good_policy_def policy_names_def, simp_all add: clusterPropagationPolicy_def meta_literal_def ObjectMeta.defs key_of_def)
  have deps: "crdClient (unreliable_crd_controller \<phi>) = unreliable_server \<phi>" "crdDeps (unreliable_crd_controller \<phi>) = std_deps"
    by (simp_all add: unreliable_crd_controller_def)
  have create: "leads (crd_untouched s0) (api_create ClusterPolicyObj (cluster_policies (unreliable_server \<phi>)) ?p) (\<lambda>_. crd_frame s0 k)"
    unfolding unreliable_server_simps mem_server_simps
  proof (rule leads_create)
    fix s :: "(Testbed, call) world" and e y
    assume s: "crd_untouched s0 s" and "find_key (key_of ?p) (apiClusterPolicies (env s)) = None"
    then have "policy_at s0 = None" by (simp add: crd_untouched_def policy_at_def p(3))
    then show "crd_frame s0 k (s\<lparr>env := (env s)\<lparr>apiClusterPolicies := apiClusterPolicies (env s) @ [next_version ?p]\<rparr>,
        calls := calls s @ [Wrote CreateVerb (ClusterPolicyObj ?p) e]\<rparr>)"
      using s p by (simp add: crd_frame_def crd_untouched_def policy_at_def find_append)
  qed (simp_all add: crd_untouched_frame)
  have "leads (crd_untouched s0) (api_list ClusterKind (clusters (unreliable_server \<phi>)) all_objects)
      (\<lambda>r s. crd_untouched s0 s \<and> (\<forall>xs. r = Inr xs \<longrightarrow> xs = clusters_at s0))"
    unfolding unreliable_server_simps mem_server_simps
    by (rule leads_list) (auto simp: mem_list_def all_objects_def crd_untouched_def policy_at_def)
  moreover have "leads (\<lambda>s. crd_untouched s0 s \<and> (\<forall>xs. r = Inr xs \<longrightarrow> xs = clusters_at s0))
      (case r of Inl e \<Rightarrow> ret (Some e) | Inr clusterList \<Rightarrow> do {
         let policy = clusterPropagationPolicy std_deps (Some (map Name clusterList));
         (err, _) \<leftarrow> api_create ClusterPolicyObj (cluster_policies (unreliable_server \<phi>)) policy;
         ret err }) (\<lambda>_. crd_frame s0 k)" for r :: "error + Cluster list"
  proof (cases r)
    case (Inr xs)
    have "leads (crd_untouched s0) (do { (err, _) \<leftarrow> api_create ClusterPolicyObj (cluster_policies (unreliable_server \<phi>)) ?p; ret err })
        (\<lambda>_. crd_frame s0 k)"
      by (rule leads_bind [OF create]) (auto intro!: leads_rules)
    then have create': "leads (\<lambda>s. crd_untouched s0 s \<and> (\<forall>ys. r = Inr ys \<longrightarrow> ys = clusters_at s0))
        (do { (err, _) \<leftarrow> api_create ClusterPolicyObj (cluster_policies (unreliable_server \<phi>)) ?p; ret err }) (\<lambda>_. crd_frame s0 k)"
      by (rule leads_consequence) auto
    show ?thesis
    proof (rule leads_known [where c = "xs = clusters_at s0"])
      assume "xs = clusters_at s0"
      then show ?thesis using create' by (simp only: Inr sum.case Let_def)
    qed (simp add: Inr)
  qed (auto simp: crd_untouched_frame intro!: leads_rules)
  ultimately show ?thesis
    unfolding createClusterPropagationPolicy_def deps by (rule leads_bind)
qed

lemma names_frame:
  assumes p: "policy_at s0 = Some p" and good: "good_policy p"
    and n: "('''', n) = k \<and> n \<noteq> '''' \<or> n = '''' \<and> t = RemoveType"
    and q: "same_but_names p q" "policy_names q = synced_names t n (policy_names p)"
    and change: "(n \<in> set (policy_names p)) \<noteq> (t = EnsureType)"
  shows "leads (crd_untouched s0) (store_names (unreliable_crd_controller \<phi>) q) (\<lambda>_. crd_frame s0 k)"
proof (rule store_names_frame [OF p])
  note same = same_but_names_keeps [OF q(1)]
  show "key_of q = policy_key" using same(1) p find_keyD unfolding policy_at_def by metis
  show "good_policy q" using good same change n q(2) by (cases t) (auto simp: good_policy_def)
  show "n' \<noteq> '''' \<Longrightarrow> ('''', n') \<noteq> k \<Longrightarrow> (n' \<in> set (policy_names q)) = (n' \<in> set (policy_names p))" for n'
    using n q(2) by (cases t) auto
qed

lemma syncClusterPropagationPolicy_frame:
  assumes ok: "crd_ok s0" and n: "('''', n) = k \<and> n \<noteq> '''' \<or> n = '''' \<and> t = RemoveType"
  shows "leads (crd_untouched s0) (syncClusterPropagationPolicy (unreliable_crd_controller \<phi>) n t) (\<lambda>_. crd_frame s0 k)"
proof -
  let ?c = "unreliable_crd_controller \<phi>"
  have deps: "crdClient ?c = unreliable_server \<phi>" by (simp add: unreliable_crd_controller_def)
  have get: "leads (crd_untouched s0) (api_get ClusterPolicyKind ClusterPolicyObj (cluster_policies (unreliable_server \<phi>)) policy_key)
      (\<lambda>r s. crd_untouched s0 s \<and> (\<forall>p. r = Inr p \<longrightarrow> policy_at s0 = Some p))"
    unfolding unreliable_server_simps mem_server_simps
    by (rule leads_get) (auto simp: crd_untouched_def policy_at_def split: option.splits)
  have sync: "leads (crd_untouched s0)
      (let names = ClusterNames affinity; index = find_index n (elems names)
       in case t of
            EnsureType \<Rightarrow> if index < length (elems names) then ret None
              else store_names ?c (with_names affinity (append_slice names n) p)
          | RemoveType \<Rightarrow> if index \<ge> length (elems names) then ret None
              else store_names ?c (with_names affinity (Some (take index (elems names) @ drop (Suc index) (elems names))) p))
      (\<lambda>_. crd_frame s0 k)"
    if p: "policy_at s0 = Some p" and a: "PlacementAffinity (SpecPlacement (policySpec p)) = Some affinity" for p affinity
  proof -
    have good: "good_policy p" using ok p by (simp add: crd_ok_def)
    have names: "policy_names p = elems (ClusterNames affinity)" by (simp add: policy_names_def a)
    have same: "same_but_names p (with_names affinity ns p)" for ns using a by (auto simp: same_but_names_def)
    note store = names_frame [OF p good n same]
    show ?thesis
      by (cases t; cases "n \<in> set (policy_names p)")
        (auto simp: Let_def names not_less [symmetric] find_index_less remove_at_index crd_untouched_frame
          intro!: leads_rules store)
  qed
  have rest: "leads (crd_untouched s0) (case PlacementAffinity (SpecPlacement (policySpec p)) of
            None \<Rightarrow> ret (Some Panic)
          | Some affinity \<Rightarrow>
              (let names = ClusterNames affinity;
                   index = find_index n (elems names)
               in case t of
                    EnsureType \<Rightarrow>
                      if index < length (elems names) then ret None
                      else store_names ?c (with_names affinity (append_slice names n) p)
                  | RemoveType \<Rightarrow>
                      if index \<ge> length (elems names) then ret None
                      else store_names ?c (with_names affinity
                        (Some (take index (elems names) @ drop (Suc index) (elems names))) p)))
      (\<lambda>_. crd_frame s0 k)" if "policy_at s0 = Some p" for p
    by (rule leads_cases(3)) (auto simp: crd_untouched_frame intro!: leads_rules(1) sync that)
  show ?thesis
    unfolding syncClusterPropagationPolicy_def deps
  proof (rule leads_bind [OF get], rule leads_cases(2), goal_cases)
    case (1 r e)
    have "leads (crd_untouched s0) (if e = NotFound then createClusterPropagationPolicy ?c else ret (Some e)) (\<lambda>_. crd_frame s0 k)"
      by (auto intro!: leads_rules createClusterPropagationPolicy_frame ok crd_untouched_frame)
    then show ?case by (rule leads_consequence) auto
  next
    case (2 r p)
    show ?case
      by (rule leads_known [where c = "policy_at s0 = Some p"], use 2 in simp, rule leads_consequence [OF rest]) auto
  qed
qed

lemma ReconcileCrd_frame:
  assumes ok: "crd_ok s0"
  shows "leads (crd_untouched s0) (ReconcileCrd (unreliable_crd_controller \<phi>) k) (\<lambda>_. crd_frame s0 k)"
proof -
  let ?c = "unreliable_crd_controller \<phi>"
  have deps: "crdClient ?c = unreliable_server \<phi>" by (simp add: unreliable_crd_controller_def)
  have get: "leads (crd_untouched s0) (api_get ClusterKind ClusterObj (clusters (unreliable_server \<phi>)) k)
      (\<lambda>r s. crd_untouched s0 s \<and> (\<forall>cl. r = Inr cl \<longrightarrow> ('''', Name cl) = k \<and> Name cl \<noteq> ''''))"
    unfolding unreliable_server_simps mem_server_simps
    by (rule leads_get) (auto simp: crd_untouched_def policy_at_def dest: crd_okD(3,4) [OF ok] split: option.splits)
  note sync = syncClusterPropagationPolicy_frame [OF ok]
  show ?thesis
    unfolding ReconcileCrd_def deps
  proof (rule leads_bind [where R = "\<lambda>_. crd_untouched s0"], rule leads_note, simp, rule leads_bind [OF get], rule leads_cases(2), goal_cases)
    case (1 _ r e)
    have "leads (crd_untouched s0) (if e = NotFound then syncClusterPropagationPolicy ?c '''' RemoveType else ret (Some e)) (\<lambda>_. crd_frame s0 k)"
      by (auto intro!: leads_rules sync crd_untouched_frame)
    then show ?case by (rule leads_consequence) auto
  next
    case (2 _ r cl)
    have "leads (crd_untouched s0) (if \<not> IsZero (DeletionTimestamp cl) then syncClusterPropagationPolicy ?c (Name cl) RemoveType
        else syncClusterPropagationPolicy ?c (Name cl) EnsureType) (\<lambda>_. crd_frame s0 k)" if "('''', Name cl) = k \<and> Name cl \<noteq> ''''"
      using that by (auto intro!: leads_rules(2) sync)
    from leads_consequence [OF this] show ?case
      by (rule leads_known [where c = "('''', Name cl) = k \<and> Name cl \<noteq> ''''", rotated]) (simp_all add: 2)
  qed
qed

lemma crd_hampered_harmless:
  assumes ok: "crd_ok s" and run: "crd_hampers k s w"
  shows "harmless crd_ok crd_settled crd_covers crd_awaits k s w"
proof -
  obtain \<phi> e where "run_state (ReconcileCrd (unreliable_crd_controller \<phi>) k) s = (Some e, w)"
    using run by (auto simp: crd_hampers_def)
  from leadsD [OF ReconcileCrd_frame [OF ok] this] have frame: "crd_frame s k w" by (simp add: crd_untouched_def)
  then have cls: "clusters_at w = clusters_at s" by (simp add: crd_frame_def)
  have ok': "crd_ok w" using frame ok by (auto simp: crd_frame_def crd_ok_def)
  show ?thesis
  proof (cases "policy_at s")
    case None
    then consider "policy_at w = None" | q where "policy_at w = Some q" "policy_names q = map Name (clusters_at s)"
      using frame by (auto simp: crd_frame_def)
    then show ?thesis
    proof cases
      case 1
      then show ?thesis using None cls ok' covers_stay [of w s]
        by (auto simp: keeps_up_def crd_settled_def crd_awaits_def)
    next
      case 2
      then have "crd_settled w i" for i
        using cls find_keyD [of i "clusters_at s"] by (auto simp: crd_settled_def split: option.split)
      then show ?thesis using ok' by (simp add: keeps_up_def)
    qed
  next
    case (Some p)
    then obtain q where q: "policy_at w = Some q"
        "\<And>n. n \<noteq> '''' \<Longrightarrow> ('''', n) \<noteq> k \<Longrightarrow> (n \<in> set (policy_names q)) = (n \<in> set (policy_names p))"
      using frame by (auto simp: crd_frame_def)
    have kept: "crd_settled w i" if i: "crd_settled s i" "i \<noteq> k" for i
    proof (cases "find_key i (clusters_at s)")
      case found: (Some cl)
      have "('''', Name cl) \<noteq> k" "Name cl \<noteq> ''''" using crd_okD(3,4) [OF ok found] i(2) by auto
      then show ?thesis using i(1) found q cls Some by (simp add: crd_settled_def)
    qed (simp add: crd_settled_def cls)
    then show ?thesis using Some ok' q(1) covers_stay [of w s] unfolding keeps_up_def crd_awaits_def by auto
  qed
qed

interpretation crd_loop: event_loop crd_init crd_others crd_hampers crd_handle crd_recon crd_ok crd_settled crd_covers crd_awaits
proof unfold_locales
  show "crd_init w \<Longrightarrow> crd_ok w" "crd_init w \<Longrightarrow> crd_settled w i" for w i
    by (simp_all add: crd_init_def crd_ok_def crd_settled_def)
  show "crd_ok w \<Longrightarrow> crd_others w es w' \<Longrightarrow> crd_keeps_up w es w'" for w es w' by (rule crd_others_kept_up)
  show "crd_ok w \<Longrightarrow> crd_hampers k w w' \<Longrightarrow> harmless crd_ok crd_settled crd_covers crd_awaits k w w'" for k w w'
    by (rule crd_hampered_harmless)
  show "crd_ok w \<Longrightarrow> crd_covers w e i \<Longrightarrow> crd_settled w i \<or> (\<exists>k \<in> set (crd_handle e w). crd_awaits w k i)" for w e i
    by (rule crd_covered)
  show "crd_ok w \<Longrightarrow> \<exists>w'. crd_recon k w = (None, w') \<and> (\<forall>i. crd_awaits w k i \<longrightarrow> crd_settled w' i) \<and> crd_keeps_up w [] w'" for w k
    by (rule crd_recon_settles)
qed

section \<open>A sample run\<close>

text \<open>
  A cluster joins and its deletion begins; both events arrive, and only then is its key reconciled,
  which makes the policy.
\<close>

definition leaving_cluster :: Cluster where
  "leaving_cluster = sample_cluster\<lparr>DeletionTimestamp := Some ''now''\<rparr>"

definition crd_start_world :: "(Testbed, call) world" where
  "crd_start_world = \<lparr>env = empty_testbed, calls = []\<rparr>"

definition crd_begun :: "((Testbed, call) world, crd_watched, key) loop" where
  "crd_begun = \<lparr>loopWorld = at_clusters [sample_cluster] crd_start_world,
     loopEvents = [CrdWatchCluster (CreateEvent sample_cluster)], loopQueue = []\<rparr>"

definition crd_leaving :: "((Testbed, call) world, crd_watched, key) loop" where
  "crd_leaving = announce [CrdWatchCluster (UpdateEvent sample_cluster leaving_cluster)]
     (at_clusters [leaving_cluster] (loopWorld crd_begun)) crd_begun"

definition crd_told :: "((Testbed, call) world, crd_watched, key) loop" where
  "crd_told = deliver crd_handle (CrdWatchCluster (UpdateEvent sample_cluster leaving_cluster)) []
     (deliver crd_handle (CrdWatchCluster (CreateEvent sample_cluster))
       [CrdWatchCluster (UpdateEvent sample_cluster leaving_cluster)] crd_leaving)"

lemma leaving_cluster_fields [simp]:
  "Name leaving_cluster = ''m1''" "key_of leaving_cluster = ('''', ''m1'')" "DeletionTimestamp leaving_cluster = Some ''now''"
  by (simp_all add: leaving_cluster_def sample_cluster_def meta_literal_def ObjectMeta.defs key_of_def)

lemma crd_start: "clusters_at crd_start_world = []" "policy_at crd_start_world = None" "crd_init crd_start_world"
  by (simp_all add: crd_start_world_def empty_testbed_def crd_init_def policy_at_def)

lemma crd_begun_runs: "crd_runs crd_begun"
proof -
  have "crd_others crd_start_world [CrdWatchCluster (CreateEvent sample_cluster)]
      (at_clusters (clusters_at crd_start_world @ [sample_cluster]) crd_start_world)"
    by (rule crd_others.joined)
      (simp_all add: crd_start, simp add: sample_cluster_def meta_literal_def ObjectMeta.defs)
  then have "crd_runs (announce [CrdWatchCluster (CreateEvent sample_cluster)]
      (at_clusters (clusters_at crd_start_world @ [sample_cluster]) crd_start_world)
      \<lparr>loopWorld = crd_start_world, loopEvents = [], loopQueue = []\<rparr>)"
    by (intro loop_runs.moved loop_runs.start crd_start(3)) simp
  then show ?thesis by (simp add: announce_def crd_begun_def crd_start)
qed

lemma crd_leaving_runs: "crd_runs crd_leaving"
proof -
  have "crd_others (loopWorld crd_begun) [CrdWatchCluster (UpdateEvent sample_cluster leaving_cluster)]
      (at_clusters (put_key leaving_cluster (clusters_at (loopWorld crd_begun))) (loopWorld crd_begun))"
    by (rule crd_others.changed) (simp add: crd_begun_def)
  then show ?thesis unfolding crd_leaving_def
    by (intro loop_runs.moved crd_begun_runs) (simp add: crd_begun_def)
qed

lemma crd_told_runs: "crd_runs crd_told" "loopQueue crd_told = [('''', ''m1'')]" "loopEvents crd_told = []"
  "clusters_at (loopWorld crd_told) = [leaving_cluster]" "policy_at (loopWorld crd_told) = None"
proof -
  let ?e = "CrdWatchCluster (CreateEvent sample_cluster)"
  let ?e' = "CrdWatchCluster (UpdateEvent sample_cluster leaving_cluster)"
  have events: "loopEvents crd_leaving = [] @ ?e # [?e']" by (simp add: crd_leaving_def crd_begun_def)
  from loop_runs.work [OF crd_leaving_runs work_step.delivered [OF events]]
  have "crd_runs (deliver crd_handle ?e [?e'] crd_leaving)" by simp
  then show "crd_runs crd_told"
    unfolding crd_told_def
    using loop_runs.work [OF _ work_step.delivered [of "deliver crd_handle ?e [?e'] crd_leaving" "[]" ?e' "[]"]] by simp
  show "loopQueue crd_told = [('''', ''m1'')]" "loopEvents crd_told = []"
    "clusters_at (loopWorld crd_told) = [leaving_cluster]" "policy_at (loopWorld crd_told) = None"
    by (simp_all add: crd_told_def crd_leaving_def crd_begun_def crd_cluster_requests_def IsZero_def crd_start)
qed

definition crd_rested :: "((Testbed, call) world, crd_watched, key) loop" where
  "crd_rested = process crd_recon ('''', ''m1'') crd_told"

lemma crd_rested_runs: "crd_runs crd_rested" "at_rest crd_rested" "clusters_at (loopWorld crd_rested) = [leaving_cluster]"
  "\<exists>p. policy_at (loopWorld crd_rested) = Some p \<and> policy_names p = [''m1'']"
proof -
  let ?s = "loopWorld crd_told"
  have ok: "crd_ok ?s" by (rule crd_loop.runs_ok [OF crd_told_runs(1)])
  obtain l where l: "crd_recon ('''', ''m1'') ?s =
      run_state (syncClusterPropagationPolicy test_crd_controller ''m1'' RemoveType) (?s\<lparr>calls := l\<rparr>)"
    by (intro that) (simp add: crd_recon_def ReconcileCrd_def run_api crd_told_runs IsZero_def)
  have same: "clusters_at (?s\<lparr>calls := l\<rparr>) = clusters_at ?s" "policy_at (?s\<lparr>calls := l\<rparr>) = None"
    using crd_told_runs(5) by (simp_all add: policy_at_def)
  then have "crd_ok (?s\<lparr>calls := l\<rparr>)" using ok by (simp add: crd_ok_def)
  from create_completes [OF this same(2), of "''m1''" RemoveType] obtain w q where
    w: "crd_recon ('''', ''m1'') ?s = (None, w)" "clusters_at w = [leaving_cluster]" "policy_at w = Some q" "policy_names q = [''m1'']"
    unfolding l same by (auto simp: crd_told_runs)
  then show "at_rest crd_rested" "clusters_at (loopWorld crd_rested) = [leaving_cluster]"
    "\<exists>p. policy_at (loopWorld crd_rested) = Some p \<and> policy_names p = [''m1'']"
    by (simp_all add: crd_rested_def process_def at_rest_def crd_told_runs)
  show "crd_runs crd_rested"
    unfolding crd_rested_def
    by (rule loop_runs.work [OF crd_told_runs(1) work_step.reconciled]) (simp add: crd_told_runs)
qed

section \<open>What holds of the system\<close>



text \<open>
  C37: the policy may go on naming a cluster that is being deleted, also when nothing is left to do: a
  missing policy is made of all clusters that the server lists, those under deletion included, and
  the events of the deletion have been handled by then.
\<close>

theorem crd_deleting_cluster_stays_named:
  "\<exists>S cl p. crd_runs S \<and> at_rest S \<and> cl \<in> set (clusters_at (loopWorld S)) \<and> DeletionTimestamp cl \<noteq> None \<and>
    policy_at (loopWorld S) = Some p \<and> Name cl \<in> set (policy_names p)"
proof -
  obtain p where "policy_at (loopWorld crd_rested) = Some p" "policy_names p = [''m1'']"
    using crd_rested_runs(4) by blast
  then show ?thesis using crd_rested_runs(1-3)
    by (intro exI [of _ crd_rested] exI [of _ leaving_cluster] exI [of _ p]) simp
qed


end
