(* ===== verification/SvcLocations.thy ===== *)
theory SvcLocations
  imports Events Settling Testbed
begin

text \<open>
  pkg/controllers/mciservicelocations/mci_service_locations.go: the controller that records in an
  ingress's status in which clusters its backend services are, with the filters and the mapping
  that decide which events it reacts to.
\<close>

section \<open>The controller\<close>

record 'w LocController =
  locDeps :: deps
  locClient :: "'w client"
  locRetry :: "(MultiClusterIngress, ('w, call) world) retrier"

definition obtainBindingClusters :: "deps \<Rightarrow> ResourceBinding \<Rightarrow> string slice" where
  "obtainBindingClusters d rb = Some (SetsList d
     (map TargetName (elems (BindingClusters (rbSpec rb))) @
      concat (map (\<lambda>requiredBy. map TargetName (elems (SnapshotClusters requiredBy)))
        (elems (RequiredBy (rbSpec rb))))))"

text \<open>The loop of \<open>calculateServiceLocations\<close> over the sorted names.\<close>

fun locate_services ::
  "'w LocController \<Rightarrow> string \<Rightarrow> string list \<Rightarrow> ServiceLocation slice \<Rightarrow> ('w, error + ServiceLocation slice) io" where
  "locate_services c ns [] svcLocations = ret (Inr svcLocations)"
| "locate_services c ns (svcName # svcNames) svcLocations = do {
     r \<leftarrow> api_get BindingKind BindingObj (bindings (locClient c))
       (ns, GenerateBindingName (locDeps c) ''Service'' svcName);
     case r of
       Inl e \<Rightarrow> if e = NotFound then locate_services c ns svcNames svcLocations else ret (Inl e)
     | Inr svcBinding \<Rightarrow> locate_services c ns svcNames (append_slice svcLocations
         \<lparr>LocationName = svcName, LocationClusters = obtainBindingClusters (locDeps c) svcBinding\<rparr>)
   }"

definition calculateServiceLocations ::
  "'w LocController \<Rightarrow> MultiClusterIngress \<Rightarrow> ('w, error + ServiceLocation slice) io" where
  "calculateServiceLocations c mci =
     (case BuildServiceRefIndexes (locDeps c) mci of
        None \<Rightarrow> ret (Inl Panic)
      | Some backendSvcNames \<Rightarrow> locate_services c (Namespace mci) (sort backendSvcNames) None)"

definition with_locations :: "ServiceLocation slice \<Rightarrow> MultiClusterIngress \<Rightarrow> MultiClusterIngress" where
  "with_locations locs mci = mci\<lparr>mciStatus := (mciStatus mci)\<lparr>ServiceLocations := locs\<rparr>\<rparr>"

text \<open>The function literal of \<open>Reconcile\<close>; it captures \<open>mci\<close>.\<close>

definition location_attempt ::
  "'w LocController \<Rightarrow> key \<Rightarrow> ServiceLocation slice \<Rightarrow> MultiClusterIngress
    \<Rightarrow> ('w, error option \<times> MultiClusterIngress) io" where
  "location_attempt c req svcLocations mci =
     (if svcLocations = ServiceLocations (mciStatus mci) then ret (None, mci)
      else do {
        (updateErr, mci) \<leftarrow>
          api_status_update MCIObj (mcis (locClient c)) (with_locations svcLocations mci);
        if updateErr = None then ret (None, mci)
        else do {
          r \<leftarrow> api_get MCIKind MCIObj (mcis (locClient c)) req;
          case r of
            Inr updatedMCI \<Rightarrow> ret (updateErr, updatedMCI)
          | Inl e \<Rightarrow> ret (updateErr, mci)
        }
      })"

definition ReconcileLocations :: "'w LocController \<Rightarrow> key \<Rightarrow> ('w, error option) io" where
  "ReconcileLocations c req = do {
     _ \<leftarrow> note_call (Reconciling MCIKind req);
     r \<leftarrow> api_get MCIKind MCIObj (mcis (locClient c)) req;
     case r of
       Inl e \<Rightarrow> if e = NotFound then ret None else ret (Some e)
     | Inr mci \<Rightarrow> do {
         r \<leftarrow> calculateServiceLocations c mci;
         case r of
           Inl err \<Rightarrow> ret (Some err)
         | Inr svcLocations \<Rightarrow> do {
             (err, _) \<leftarrow> locRetry c (location_attempt c req svcLocations) mci;
             ret err
           }
       }
   }"

section \<open>Events\<close>

definition zero_backend :: IngressBackend where
  "zero_backend = \<lparr>BackendService = None, BackendResource = None\<rparr>"

fun default_or_zero :: "IngressBackend option \<Rightarrow> IngressBackend" where
  "default_or_zero None = zero_backend"
| "default_or_zero (Some b) = b"

text \<open>
  The predicates, one equation per function; a predicate without a function for an event lets it
  pass.
\<close>

fun mciPredicateFuncs :: "MultiClusterIngress event \<Rightarrow> bool" where
  "mciPredicateFuncs (CreateEvent mci) = True"
| "mciPredicateFuncs (DeleteEvent mci) = False"
| "mciPredicateFuncs (UpdateEvent oldMCI newMCI) \<longleftrightarrow>
     default_or_zero (DefaultBackend (mciSpec oldMCI)) \<noteq> default_or_zero (DefaultBackend (mciSpec newMCI)) \<or>
     Rules (mciSpec oldMCI) \<noteq> Rules (mciSpec newMCI)"
| "mciPredicateFuncs (GenericEvent mci) = True"

definition binds_service :: "ResourceBinding \<Rightarrow> bool" where
  "binds_service rb \<longleftrightarrow> RefAPIVersion (Resource (rbSpec rb)) = ''v1'' \<and> RefKind (Resource (rbSpec rb)) = ''Service''"

fun rbPredicateFuncs :: "ResourceBinding event \<Rightarrow> bool" where
  "rbPredicateFuncs (CreateEvent rb) = binds_service rb"
| "rbPredicateFuncs (UpdateEvent oldRB newRB) =
     (if \<not> binds_service newRB then False
      else BindingClusters (rbSpec oldRB) \<noteq> BindingClusters (rbSpec newRB) \<or>
        RequiredBy (rbSpec oldRB) \<noteq> RequiredBy (rbSpec newRB))"
| "rbPredicateFuncs (DeleteEvent rb) = binds_service rb"
| "rbPredicateFuncs (GenericEvent rb) = True"

definition rbMapFunc :: "'w client \<Rightarrow> ResourceBinding \<Rightarrow> ('w, key list) io" where
  "rbMapFunc c rb =
     (if \<not> binds_service rb then ret []
      else do {
        r \<leftarrow> api_list MCIKind (mcis c)
          (in_namespace_with (Namespace rb) IndexKeyServiceRefName (RefName (Resource (rbSpec rb))));
        case r of
          Inl e \<Rightarrow> ret []
        | Inr mciList \<Rightarrow> ret (map key_of mciList)
      })"

text \<open>
  \<open>SetupWithManager\<close>: the requests of the ingress itself (\<open>For\<close>) and those that a binding is mapped to
  (\<open>Watches\<close>), of both versions when it is updated.
\<close>

definition loc_mci_requests :: "MultiClusterIngress event \<Rightarrow> key list" where
  "loc_mci_requests e = (if mciPredicateFuncs e then [key_of (event_object e)] else [])"

fun loc_mapped :: "'w client \<Rightarrow> ResourceBinding event \<Rightarrow> ('w, key list) io" where
  "loc_mapped c (UpdateEvent old new) = do {
     ks \<leftarrow> rbMapFunc c old;
     ks' \<leftarrow> rbMapFunc c new;
     ret (ks @ ks')
   }"
| "loc_mapped c e = rbMapFunc c (event_object e)"

definition loc_binding_requests :: "'w client \<Rightarrow> ResourceBinding event \<Rightarrow> ('w, key list) io" where
  "loc_binding_requests c e = (if rbPredicateFuncs e then loc_mapped c e else ret [])"

section \<open>Contracts\<close>

definition loc_contract :: "'w LocController \<Rightarrow> bool" where
  "loc_contract c \<longleftrightarrow> sets_ok (locDeps c) \<and> retry_ok (locRetry c) \<and> keeps_key (mcis (locClient c))"

lemma loc_contractD:
  assumes "loc_contract c"
  shows "sets_ok (locDeps c)" and "retry_ok (locRetry c)" and "keeps_key (mcis (locClient c))"
  using assms by (simp_all add: loc_contract_def)

section \<open>The locations\<close>

definition located_in :: "ResourceBinding \<Rightarrow> string \<Rightarrow> bool" where
  "located_in rb n \<longleftrightarrow>
     (\<exists>t \<in> set (elems (BindingClusters (rbSpec rb))). TargetName t = n) \<or>
     (\<exists>snap \<in> set (elems (RequiredBy (rbSpec rb))). \<exists>t \<in> set (elems (SnapshotClusters snap)). TargetName t = n)"

lemma obtainBindingClusters_iff:
  assumes "sets_ok d"
  shows "n \<in> set (elems (obtainBindingClusters d rb)) \<longleftrightarrow> located_in rb n"
  by (auto simp: obtainBindingClusters_def located_in_def sets_okD [OF assms])

text \<open>The bindings a server holds, as a function of the key.\<close>

definition bindings_in_cache :: "'w client \<Rightarrow> (key \<Rightarrow> ResourceBinding option) \<Rightarrow> 'w \<Rightarrow> bool" where
  "bindings_in_cache c get_rb w \<longleftrightarrow>
     (\<forall>ns n. cGet (bindings c) (ns, n) w =
        (case get_rb (ns, n) of None \<Rightarrow> Inl NotFound | Some rb \<Rightarrow> Inr rb, w))"

definition location_of :: "deps \<Rightarrow> (key \<Rightarrow> ResourceBinding option) \<Rightarrow> string \<Rightarrow> string \<Rightarrow> ServiceLocation list" where
  "location_of d get_rb ns n =
     (case get_rb (ns, GenerateBindingName d ''Service'' n) of
        None \<Rightarrow> []
      | Some rb \<Rightarrow> [\<lparr>LocationName = n, LocationClusters = obtainBindingClusters d rb\<rparr>])"

lemma run_locate_services:
  assumes "bindings_in_cache (locClient c) get_rb (env s)"
  shows "\<exists>locs s'. run_state (locate_services c ns names acc) s = (Inr locs, s') \<and> env s' = env s \<and>
    elems locs = elems acc @ concat (map (location_of (locDeps c) get_rb ns) names)"
  using assms
proof (induction names arbitrary: acc s)
  case (Cons n names)
  let ?k = "(ns, GenerateBindingName (locDeps c) ''Service'' n)"
  have get: "cGet (bindings (locClient c)) ?k (env s) =
      (case get_rb ?k of None \<Rightarrow> (Inl NotFound, env s) | Some rb \<Rightarrow> (Inr rb, env s))"
    using Cons.prems by (simp add: bindings_in_cache_def split: option.splits)
  show ?case
  proof (cases "get_rb ?k")
    case None
    then show ?thesis
      using get Cons.IH [of "s\<lparr>calls := calls s @ [Got BindingKind ?k (Inl NotFound)]\<rparr>" acc] Cons.prems
      by (simp add: run_api location_of_def)
  next
    case (Some rb)
    let ?acc = "append_slice acc \<lparr>LocationName = n, LocationClusters = obtainBindingClusters (locDeps c) rb\<rparr>"
    show ?thesis
      using get Some Cons.prems
        Cons.IH [of "s\<lparr>calls := calls s @ [Got BindingKind ?k (Inr (BindingObj rb))]\<rparr>" ?acc]
      by (simp add: run_api location_of_def)
  qed
qed simp

section \<open>What a reconcile stores\<close>

lemma location_attempt_run:
  assumes keys: "keeps_key (mcis (locClient c))"
    and run: "run_state (location_attempt c k locs m) s = ((e, m'), s')"
  obtains (equal) "ServiceLocations (mciStatus m) = locs" and "e = None" and "s' = s"
    | (stored) "e = None"
      and "calls s' = calls s @ [Wrote StatusVerb (MCIObj (with_locations locs m)) None]"
    | (read) e1 where "e = Some e1" and "key_of m' = k"
      and "calls s' = calls s @ [Wrote StatusVerb (MCIObj (with_locations locs m)) e, Got MCIKind k (Inr (MCIObj m'))]"
    | (unread) e1 e2 where "e = Some e1" and "key_of m' = key_of m"
      and "calls s' = calls s @ [Wrote StatusVerb (MCIObj (with_locations locs m)) e, Got MCIKind k (Inl e2)]"
proof -
  obtain e1 m1 w1 where u: "cStatusUpdate (mcis (locClient c)) (with_locations locs m) (env s) = ((e1, m1), w1)"
    by (rule out2)
  obtain r w2 where g: "cGet (mcis (locClient c)) k w1 = (r, w2)"
    by (metis surj_pair)
  have "key_of m1 = key_of m" and "r = Inr x \<Longrightarrow> key_of x = k" for x
    using keeps_keyD(3) [OF keys u] keeps_keyD(1) [OF keys] g by (auto simp: with_locations_def key_of_def)
  then show thesis using run u g that
    by (auto simp: location_attempt_def run_api split: sum.splits if_splits)
qed

definition has_locations :: "ServiceLocation slice \<Rightarrow> MultiClusterIngress \<Rightarrow> bool" where
  "has_locations locs mci \<longleftrightarrow> ServiceLocations (mciStatus mci) = locs"

lemma location_attempt_seen:
  assumes keys: "keeps_key (mcis (locClient c))" and seen: "seen k mci l0 m (calls s)"
    and run: "run_state (location_attempt c k locs m) s = ((Some Conflict, m'), s')"
  shows "seen k mci l0 m' (calls s')"
proof -
  from seen obtain qs where l: "calls s = l0 @ qs" and k: "key_of m = k" by (rule seenE)
  define wr where "wr = Wrote StatusVerb (MCIObj (with_locations locs m)) (Some Conflict)"
  from keys run show ?thesis
  proof (cases rule: location_attempt_run)
    case (read e1)
    then show ?thesis using seen_read [of m' k mci l0 "qs @ [wr]"] by (simp add: l wr_def)
  next
    case (unread e1 e2)
    then show ?thesis using seen_unread [of m' k mci l0 "qs @ [wr]"] by (simp add: l k wr_def)
  qed simp_all
qed

lemma location_attempt_settled:
  assumes keys: "keeps_key (mcis (locClient c))" and seen: "seen k mci l0 m (calls s)"
    and run: "run_state (location_attempt c k locs m) s = ((None, m'), s')"
  shows "\<exists>qs. calls s' = l0 @ qs \<and> settled k (has_locations locs) mci qs"
proof -
  from seen obtain qs where l: "calls s = l0 @ qs" and k: "key_of m = k" by (rule seenE)
  from keys run show ?thesis
  proof (cases rule: location_attempt_run)
    case equal
    then show ?thesis using seen by (intro seen_settled [of k mci l0 m]) (simp_all add: has_locations_def)
  next
    case stored
    have "has_locations locs (with_locations locs m)" and "key_of (with_locations locs m) = k"
      using k by (simp_all add: has_locations_def with_locations_def key_of_def)
    then show ?thesis using stored l stored_settled [of "with_locations locs m" k] by auto
  qed simp_all
qed

lemma ReconcileLocations_settled:
  assumes c: "loc_contract c" and run: "run_state (ReconcileLocations c req) s = (None, s')"
    and read: "cGet (mcis (locClient c)) req (env s) = (Inr mci, w)"
    and calc: "run_state (calculateServiceLocations c mci) (s\<lparr>env := w, calls := calls s @
      [Reconciling MCIKind req, Got MCIKind req (Inr (MCIObj mci))]\<rparr>) = (Inr locs, s1)"
  shows "\<exists>l. calls s' = calls s1 @ l \<and> settled req (has_locations locs) mci l"
proof -
  note keys = loc_contractD(3) [OF c]
  have req: "key_of mci = req" by (rule keeps_keyD(1) [OF keys read])
  obtain e m s2 where out: "run_state (locRetry c (location_attempt c req locs) mci) s1 = ((e, m), s2)"
    by (rule out2)
  have e: "e = None" "s2 = s'"
    using run read calc out by (auto simp: ReconcileLocations_def run_api)
  show ?thesis
  proof (rule retry_success [where I = "\<lambda>m s. seen req mci (calls s1) m (calls s)" and
        Q = "\<lambda>m s'. \<exists>l. calls s' = calls s1 @ l \<and> settled req (has_locations locs) mci l",
        OF loc_contractD(2) [OF c] out [unfolded e]])
    show "seen req mci (calls s1) mci (calls s1)" using seen_start [of mci] by (simp add: req)
  qed (use location_attempt_seen [OF keys] location_attempt_settled [OF keys] in blast)+
qed

section \<open>The controller on the test server\<close>

definition test_loc_controller :: "Testbed LocController" where
  "test_loc_controller = \<lparr>locDeps = std_deps, locClient = mem_server std_deps, locRetry = retry_upto 4\<rparr>"

lemma test_loc_controller_simps [simp]:
  "locDeps test_loc_controller = std_deps" "locClient test_loc_controller = mem_server std_deps"
  "locRetry test_loc_controller = retry_upto 4"
  by (simp_all add: test_loc_controller_def)

lemma test_loc_contract: "loc_contract test_loc_controller"
  by (simp add: loc_contract_def std_sets_ok retry_upto_ok)

definition front_binding :: ResourceBinding where
  "front_binding = ObjectMeta.extend (meta_literal ''shop'' ''front-Service'')
     \<lparr>rbSpec = \<lparr>Resource = \<lparr>RefAPIVersion = ''v1'', RefKind = ''Service'', RefNamespace = ''shop'', RefName = ''front''\<rparr>,
        BindingClusters = Some [\<lparr>TargetName = ''m2'', Replicas = ''''\<rparr>, \<lparr>TargetName = ''m1'', Replicas = ''''\<rparr>],
        RequiredBy = Some [\<lparr>SnapshotRest = '''', SnapshotClusters = Some [\<lparr>TargetName = ''m2'', Replicas = ''''\<rparr>]\<rparr>]\<rparr>\<rparr>"

definition loc_world :: "(Testbed, call) world" where
  "loc_world = \<lparr>env = empty_testbed\<lparr>apiMCIs := [sample_mci], apiBindings := [front_binding]\<rparr>, calls = []\<rparr>"

lemma loc_world_bindings:
  "bindings_in_cache (locClient test_loc_controller) (\<lambda>k. find_key k [front_binding]) (env loc_world)"
  by (simp add: bindings_in_cache_def loc_world_def)

lemma sample_mci_services: "BuildServiceRefIndexes std_deps sample_mci = Some [''front'']"
  by (simp add: BuildServiceRefIndexes_def spec_backends_def sample_mci_def meta_literal_def ObjectMeta.defs)

section \<open>Properties\<close>

text \<open>
  C30: the locations computed for an ingress are those of the services it refers to that have a
  binding, in the order of their names and each once, with the clusters of the binding.
\<close>

theorem loc_calculated_locations:
  assumes "sets_ok (locDeps c)" and "only_services mci"
    and "bindings_in_cache (locClient c) get_rb (env s)"
  shows "\<exists>names locs s'. sorted_wrt (<) names \<and> set names = {n. refers_to_service mci n} \<and>
    run_state (calculateServiceLocations c mci) s = (Inr locs, s') \<and> env s' = env s \<and>
    elems locs = concat (map (location_of (locDeps c) get_rb (Namespace mci)) names)"
proof -
  obtain names where names: "BuildServiceRefIndexes (locDeps c) mci = Some names"
    using assms(2) BuildServiceRefIndexes_None [of "locDeps c" mci] by auto
  have sorted: "sorted_wrt (<) names" by (rule BuildServiceRefIndexes_sorted [OF assms(1) names])
  then have "sort names = names" by (simp add: strict_sorted_iff sorted_sort_id)
  moreover have "set names = {n. refers_to_service mci n}"
    using BuildServiceRefIndexes_set [OF assms(1) names] by blast
  ultimately show ?thesis
    using run_locate_services [OF assms(3), of "Namespace mci" names None] sorted names
    by (auto simp: calculateServiceLocations_def)
qed

lemma loc_calculated_locations_witness:
  "\<exists>names locs s'. sorted_wrt (<) names \<and> set names = {n. refers_to_service sample_mci n} \<and>
    run_state (calculateServiceLocations test_loc_controller sample_mci) loc_world = (Inr locs, s') \<and>
    env s' = env loc_world \<and>
    elems locs = concat (map (location_of std_deps (\<lambda>k. find_key k [front_binding]) ''shop'') names)"
proof -
  have "only_services sample_mci"
    using BuildServiceRefIndexes_None [of std_deps sample_mci] by (simp add: sample_mci_services)
  then show ?thesis
    using loc_calculated_locations [of test_loc_controller sample_mci, OF _ _ loc_world_bindings]
    by (simp add: std_sets_ok)
qed

text \<open>
  The clusters of a binding are those it is scheduled to and those of the bindings that
  require it, in order and each once.
\<close>

lemma loc_binding_clusters:
  assumes "sets_ok d"
  shows "sorted_wrt (<) (elems (obtainBindingClusters d rb)) \<and>
    set (elems (obtainBindingClusters d rb)) = {n. located_in rb n}"
  using obtainBindingClusters_iff [OF assms, of _ rb] sets_okD(1) [OF assms]
  by (auto simp: obtainBindingClusters_def)


lemmas loc_defs = ReconcileLocations_def calculateServiceLocations_def location_attempt_def
  with_locations_def obtainBindingClusters_def


text \<open>
  An ingress with a backend that is not a service makes the reconcile panic, right after
  reading the ingress.
\<close>

lemma loc_resource_backend_panics:
  assumes "cGet (mcis (locClient c)) req (env s) = (Inr mci, w)" and "\<not> only_services mci"
  shows "run_state (ReconcileLocations c req) s = (Some Panic, s\<lparr>env := w, calls := calls s @
    [Reconciling MCIKind req, Got MCIKind req (Inr (MCIObj mci))]\<rparr>)"
  using assms BuildServiceRefIndexes_None [of "locDeps c" mci]
  by (simp add: ReconcileLocations_def run_api calculateServiceLocations_def)

text \<open>The updates of an ingress that are filtered out leave its backends.\<close>

lemma filtered_same_services:
  assumes "only_services old" and "only_services new" and "\<not> mciPredicateFuncs (UpdateEvent old new)"
  shows "BuildServiceRefIndexes d new = BuildServiceRefIndexes d old"
proof -
  have no_zero: "DefaultBackend (mciSpec m) \<noteq> Some zero_backend" if "only_services m" for m
    using that by (auto simp: only_services_def has_backend_def zero_backend_def)
  have "DefaultBackend (mciSpec new) = DefaultBackend (mciSpec old)"
    using assms(3) no_zero [OF assms(1)] no_zero [OF assms(2)]
    by (cases "DefaultBackend (mciSpec old)"; cases "DefaultBackend (mciSpec new)") auto
  then have "spec_backends (mciSpec new) = spec_backends (mciSpec old)"
    using assms(3) by (simp add: spec_backends_def)
  then show ?thesis by (simp add: BuildServiceRefIndexes_def)
qed

text \<open>
  The updates of an ingress that the controller ignores do not matter to it: whatever the
  server holds, it computes the same locations for the new object as for the old.
\<close>

lemma loc_ignored_updates_do_not_matter:
  assumes "only_services old" and "only_services new" and "Namespace new = Namespace old"
    and "\<not> mciPredicateFuncs (UpdateEvent old new)"
  shows "calculateServiceLocations c new = calculateServiceLocations c old"
  unfolding calculateServiceLocations_def assms(3) filtered_same_services [OF assms(1,2,4)] ..

text \<open>
  An event of a binding of a service is mapped to exactly the ingresses in the binding's
  namespace that refer to the service, and the updates of such a binding that are filtered out
  do not change the clusters it stands for.
\<close>

lemma loc_binding_event_reaches_ingresses:
  assumes "sets_ok d" and "mcis_in_cache d c ms (env s)" and "binds_service rb"
  shows "set (fst (run_state (rbMapFunc c rb) s)) = key_of ` {m \<in> set ms. Namespace m = Namespace rb \<and>
      only_services m \<and> refers_to_service m (RefName (Resource (rbSpec rb)))} \<and>
    (rbPredicateFuncs (UpdateEvent old rb) \<or> obtainBindingClusters d rb = obtainBindingClusters d old)"
proof -
  let ?n = "RefName (Resource (rbSpec rb))"
  have "fst (run_state (rbMapFunc c rb) s) = map key_of (filter (\<lambda>m. Namespace m = Namespace rb \<and>
      (\<exists>xs. BuildServiceRefIndexes d m = Some xs \<and> ?n \<in> set xs)) ms)"
    using assms(2,3) by (simp add: rbMapFunc_def run_api mcis_in_cache_def)
  moreover have "(\<exists>xs. BuildServiceRefIndexes d m = Some xs \<and> ?n \<in> set xs) \<longleftrightarrow>
      only_services m \<and> refers_to_service m ?n" for m
    using BuildServiceRefIndexes_None [of d m] BuildServiceRefIndexes_set [OF assms(1), of m]
    by (cases "BuildServiceRefIndexes d m") auto
  ultimately show ?thesis
    using assms(3) by (auto simp: obtainBindingClusters_def)
qed

end
