(* ===== verification/LocSystem.thy ===== *)
theory LocSystem
  imports SvcLocations MciHandlers EventLoop Unreliable
begin

text \<open>
  The controller of service locations as it runs: ingresses and the bindings of their services come,
  change and go, every change puts an event in flight, \<open>SetupWithManager\<close> filters and maps it into
  keys, and the reconcile of a key runs to its end on the test server, or fails on the way and is tried again.
\<close>

section \<open>The system\<close>

datatype loc_watched = LocWatchMCI "MultiClusterIngress event" | LocWatchBinding "ResourceBinding event"

abbreviation ingresses_at :: "(Testbed, call) world \<Rightarrow> MultiClusterIngress list" where
  "ingresses_at s \<equiv> apiMCIs (env s)"

abbreviation bindings_at :: "(Testbed, call) world \<Rightarrow> ResourceBinding list" where
  "bindings_at s \<equiv> apiBindings (env s)"

definition at_ingresses :: "MultiClusterIngress list \<Rightarrow> (Testbed, call) world \<Rightarrow> (Testbed, call) world" where
  "at_ingresses xs s = s\<lparr>env := (env s)\<lparr>apiMCIs := xs\<rparr>\<rparr>"

definition at_bindings :: "ResourceBinding list \<Rightarrow> (Testbed, call) world \<Rightarrow> (Testbed, call) world" where
  "at_bindings bs s = s\<lparr>env := (env s)\<lparr>apiBindings := bs\<rparr>\<rparr>"

fun loc_handle :: "loc_watched \<Rightarrow> (Testbed, call) world \<Rightarrow> key list" where
  "loc_handle (LocWatchMCI e) s = loc_mci_requests e"
| "loc_handle (LocWatchBinding e) s = fst (run_state (loc_binding_requests (mem_server std_deps) e) s)"

definition loc_recon :: "key \<Rightarrow> (Testbed, call) world \<Rightarrow> error option \<times> (Testbed, call) world" where
  "loc_recon k = run_state (ReconcileLocations test_loc_controller k)"

text \<open>A reconcile whose calls fail somewhere, and which returns an error.\<close>

definition unreliable_loc_controller :: "(kind \<Rightarrow> Testbed fates) \<Rightarrow> Testbed LocController" where
  "unreliable_loc_controller \<phi> = test_loc_controller\<lparr>locClient := unreliable_server \<phi>\<rparr>"

definition loc_hampers :: "key \<Rightarrow> (Testbed, call) world \<Rightarrow> (Testbed, call) world \<Rightarrow> bool" where
  "loc_hampers k s w \<longleftrightarrow> (\<exists>\<phi> e. run_state (ReconcileLocations (unreliable_loc_controller \<phi>) k) s = (Some e, w))"

text \<open>
  An ingress has services as backends only, and is not kept by the server without finalizers once its
  deletion has begun. A binding of a service has the name that Karmada gives it.
\<close>

definition good_ingress :: "MultiClusterIngress \<Rightarrow> bool" where
  "good_ingress m \<longleftrightarrow> only_services m \<and> (DeletionTimestamp m \<noteq> None \<longrightarrow> Finalizers m \<noteq> [])"

definition good_binding :: "ResourceBinding \<Rightarrow> bool" where
  "good_binding rb \<longleftrightarrow> (\<forall>n. Name rb = GenerateBindingName std_deps ''Service'' n \<longrightarrow>
     binds_service rb \<and> RefName (Resource (rbSpec rb)) = n)"

text \<open>What others do. They may change all of an ingress but its locations, and all of a binding.\<close>

inductive loc_others :: "(Testbed, call) world \<Rightarrow> loc_watched list \<Rightarrow> (Testbed, call) world \<Rightarrow> bool" where
  created: "find_key (key_of m) (ingresses_at s) = None \<Longrightarrow> good_ingress m \<Longrightarrow>
    loc_others s [LocWatchMCI (CreateEvent m)] (at_ingresses (ingresses_at s @ [m]) s)"
| changed: "find_key (key_of m') (ingresses_at s) = Some m \<Longrightarrow> good_ingress m' \<Longrightarrow>
    ServiceLocations (mciStatus m') = ServiceLocations (mciStatus m) \<Longrightarrow>
    loc_others s [LocWatchMCI (UpdateEvent m m')] (at_ingresses (put_key m' (ingresses_at s)) s)"
| removed: "find_key k (ingresses_at s) = Some m \<Longrightarrow>
    loc_others s [LocWatchMCI (DeleteEvent m)] (at_ingresses (filter (\<lambda>x. key_of x \<noteq> k) (ingresses_at s)) s)"
| bound: "find_key (key_of rb) (bindings_at s) = None \<Longrightarrow> good_binding rb \<Longrightarrow>
    loc_others s [LocWatchBinding (CreateEvent rb)] (at_bindings (bindings_at s @ [rb]) s)"
| rebound: "find_key (key_of rb') (bindings_at s) = Some rb \<Longrightarrow> good_binding rb' \<Longrightarrow>
    loc_others s [LocWatchBinding (UpdateEvent rb rb')] (at_bindings (put_key rb' (bindings_at s)) s)"
| unbound: "find_key k (bindings_at s) = Some rb \<Longrightarrow>
    loc_others s [LocWatchBinding (DeleteEvent rb)] (at_bindings (filter (\<lambda>x. key_of x \<noteq> k) (bindings_at s)) s)"

definition loc_init :: "(Testbed, call) world \<Rightarrow> bool" where
  "loc_init s \<longleftrightarrow> ingresses_at s = [] \<and> bindings_at s = []"

abbreviation loc_runs :: "((Testbed, call) world, loc_watched, key) loop \<Rightarrow> bool" where
  "loc_runs \<equiv> loop_runs loc_init loc_others loc_hampers loc_handle loc_recon"

lemma at_loc_fields [simp]:
  "ingresses_at (at_ingresses xs s) = xs" "bindings_at (at_ingresses xs s) = bindings_at s"
  "ingresses_at (at_bindings bs s) = ingresses_at s" "bindings_at (at_bindings bs s) = bs"
  by (simp_all add: at_ingresses_def at_bindings_def)

section \<open>The locations\<close>

text \<open>Where the services of an ingress are, by the bindings of the server.\<close>

definition located :: "ResourceBinding list \<Rightarrow> MultiClusterIngress \<Rightarrow> ServiceLocation list" where
  "located bs m = (case BuildServiceRefIndexes std_deps m of None \<Rightarrow> []
     | Some names \<Rightarrow> concat (map (location_of std_deps (\<lambda>k. find_key k bs) (Namespace m)) names))"

definition binding_key :: "MultiClusterIngress \<Rightarrow> string \<Rightarrow> key" where
  "binding_key m n = (Namespace m, GenerateBindingName std_deps ''Service'' n)"

lemma located_bindings_cong:
  assumes "\<And>n. refers_to_service m n \<Longrightarrow> map_option (obtainBindingClusters std_deps) (find_key (binding_key m n) bs') =
    map_option (obtainBindingClusters std_deps) (find_key (binding_key m n) bs)"
  shows "located bs' m = located bs m"
proof (cases "BuildServiceRefIndexes std_deps m")
  case (Some names)
  have "location_of std_deps (\<lambda>k. find_key k bs') (Namespace m) n = location_of std_deps (\<lambda>k. find_key k bs) (Namespace m) n"
    if "n \<in> set names" for n
    using assms [of n] that BuildServiceRefIndexes_set [OF std_sets_ok Some, of n]
    unfolding location_of_def binding_key_def
    by (cases "find_key (binding_key m n) bs"; cases "find_key (binding_key m n) bs'") (simp_all add: binding_key_def)
  then show ?thesis unfolding located_def Some by (simp cong: map_cong)
qed (simp add: located_def)

lemma same_backends:
  assumes "good_ingress m" and "good_ingress m'" and "Namespace m' = Namespace m" and "\<not> mciPredicateFuncs (UpdateEvent m m')"
  shows "located bs m' = located bs m" and "refers_to_service m' n = refers_to_service m n"
proof -
  have same: "BuildServiceRefIndexes std_deps m' = BuildServiceRefIndexes std_deps m"
    using filtered_same_services [of m m'] assms(1,2,4) by (simp add: good_ingress_def)
  show "located bs m' = located bs m" unfolding located_def same assms(3) ..
  obtain names where names: "BuildServiceRefIndexes std_deps m = Some names"
    using assms(1) BuildServiceRefIndexes_None [of std_deps m] by (auto simp: good_ingress_def)
  show "refers_to_service m' n = refers_to_service m n"
    using BuildServiceRefIndexes_set [OF std_sets_ok names] BuildServiceRefIndexes_set [OF std_sets_ok same [unfolded names]] by blast
qed

section \<open>What is settled, and what is on its way\<close>

definition loc_settled :: "(Testbed, call) world \<Rightarrow> key \<Rightarrow> bool" where
  "loc_settled s k \<longleftrightarrow> (case find_key k (ingresses_at s) of None \<Rightarrow> True
     | Some m \<Rightarrow> elems (ServiceLocations (mciStatus m)) = located (bindings_at s) m)"

text \<open>A binding concerns the ingresses of its namespace that refer to its service.\<close>

definition concerns :: "ResourceBinding \<Rightarrow> MultiClusterIngress \<Rightarrow> bool" where
  "concerns rb m \<longleftrightarrow> binds_service rb \<and> Namespace m = Namespace rb \<and> refers_to_service m (RefName (Resource (rbSpec rb)))"

fun loc_covers :: "(Testbed, call) world \<Rightarrow> loc_watched \<Rightarrow> key \<Rightarrow> bool" where
  "loc_covers s (LocWatchMCI e) k \<longleftrightarrow> k \<in> set (loc_mci_requests e)"
| "loc_covers s (LocWatchBinding e) k \<longleftrightarrow> rbPredicateFuncs e \<and>
     (case find_key k (ingresses_at s) of None \<Rightarrow> False | Some m \<Rightarrow> concerns (event_object e) m)"

definition loc_ok :: "(Testbed, call) world \<Rightarrow> bool" where
  "loc_ok s \<longleftrightarrow> (\<forall>m \<in> set (ingresses_at s). good_ingress m) \<and> (\<forall>rb \<in> set (bindings_at s). good_binding rb)"

abbreviation loc_keeps_up where
  "loc_keeps_up \<equiv> keeps_up loc_ok loc_settled loc_covers (\<lambda>_. (=))"

lemma loc_settled_cong:
  assumes "map_option (\<lambda>m. elems (ServiceLocations (mciStatus m)) = located (bindings_at s') m) (find_key k (ingresses_at s')) =
    map_option (\<lambda>m. elems (ServiceLocations (mciStatus m)) = located (bindings_at s) m) (find_key k (ingresses_at s))"
  shows "loc_settled s' k = loc_settled s k"
  using assms unfolding loc_settled_def
  by (cases "find_key k (ingresses_at s)"; cases "find_key k (ingresses_at s')") simp_all

section \<open>What others do is kept up with\<close>

lemma loc_created:
  assumes ok: "loc_ok s" and none: "find_key (key_of m) (ingresses_at s) = None" and "good_ingress m"
  shows "loc_keeps_up s [LocWatchMCI (CreateEvent m)] (at_ingresses (ingresses_at s @ [m]) s)" (is "loc_keeps_up s [?e] ?s")
proof -
  have there: "find_key j (ingresses_at ?s) = (if j = key_of m then Some m else find_key j (ingresses_at s))" for j
    using none by (simp add: find_append split: option.splits)
  have good: "loc_ok ?s" using ok assms(3) by (simp add: loc_ok_def)
  have settled: "loc_settled ?s j \<or> loc_covers ?s ?e j" if "loc_settled s j" for j
  proof (cases "j = key_of m")
    case True
    then show ?thesis by (simp add: loc_mci_requests_def)
  next
    case False
    then show ?thesis using that loc_settled_cong [of ?s j s] there [of j] by simp
  qed
  have kept: "loc_covers ?s e j" if "loc_covers s e j" for e j
    using that none there [of j] by (cases e) (auto split: option.splits)
  show ?thesis using good settled kept by (intro keeps_up_oneI) blast+
qed

lemma loc_changed:
  assumes ok: "loc_ok s" and found: "find_key (key_of m') (ingresses_at s) = Some m" and good: "good_ingress m'"
    and status: "ServiceLocations (mciStatus m') = ServiceLocations (mciStatus m)"
  shows "loc_keeps_up s [LocWatchMCI (UpdateEvent m m')] (at_ingresses (put_key m' (ingresses_at s)) s)" (is "loc_keeps_up s [?e] ?s")
proof -
  have there: "find_key j (ingresses_at ?s) = (if j = key_of m' then Some m' else find_key j (ingresses_at s))" for j
    using found by (simp add: find_put_key)
  have old: "good_ingress m" "Namespace m' = Namespace m"
    using ok find_keyD [OF found] by (simp_all add: loc_ok_def key_of_def)
  have ok': "loc_ok ?s" using ok good put_key_subset [of m' "ingresses_at s"] by (auto simp: loc_ok_def)
  have covered: "loc_covers ?s ?e j" if "j = key_of m'" "mciPredicateFuncs (UpdateEvent m m')" for j
    using that by (simp add: loc_mci_requests_def)
  have settled: "loc_settled ?s j" if "loc_settled s j" "j \<noteq> key_of m' \<or> \<not> mciPredicateFuncs (UpdateEvent m m')" for j
  proof -
    have "loc_settled ?s j = loc_settled s j"
      using that(2) there [of j] found status same_backends(1) [OF old(1) good old(2)]
      by (intro loc_settled_cong) (auto simp del: mciPredicateFuncs.simps)
    then show ?thesis using that(1) by simp
  qed
  have kept: "loc_covers ?s e j" if cov: "loc_covers s e j" and free: "j \<noteq> key_of m' \<or> \<not> mciPredicateFuncs (UpdateEvent m m')" for e j
  proof (cases e)
    case (LocWatchBinding b)
    then obtain x where x: "rbPredicateFuncs b" "find_key j (ingresses_at s) = Some x" "concerns (event_object b) x"
      using cov by (auto split: option.splits)
    show ?thesis
    proof (cases "j = key_of m'")
      case True
      then have "x = m" using x(2) found by simp
      moreover have out: "\<not> mciPredicateFuncs (UpdateEvent m m')" using free True by blast
      have "concerns rb m' = concerns rb m" for rb
        by (simp only: concerns_def old(2) same_backends(2) [OF old(1) good old(2) out])
      ultimately show ?thesis using x there [of j] True LocWatchBinding by simp
    next
      case False
      then show ?thesis using x there [of j] LocWatchBinding by simp
    qed
  qed (use cov in simp)
  show ?thesis
  proof (rule keeps_up_oneI)
    show "loc_settled ?s j \<or> loc_covers ?s ?e j" if "loc_settled s j" for j
      using covered [of j] settled [OF that] by blast
    show "loc_settled ?s j \<or> loc_covers ?s e j \<or> loc_covers ?s ?e j" if "loc_covers s e j" for e j
      using covered [of j] kept [OF that] by blast
  qed (rule ok')
qed

lemma loc_removed:
  assumes ok: "loc_ok s"
  shows "loc_keeps_up s [e] (at_ingresses (filter (\<lambda>x. key_of x \<noteq> k) (ingresses_at s)) s)" (is "loc_keeps_up s [e] ?s")
proof -
  have there: "find_key j (ingresses_at ?s) = (if j = k then None else find_key j (ingresses_at s))" for j
    by (simp add: find_filter)
  have good: "loc_ok ?s" using ok by (simp add: loc_ok_def)
  have settled: "loc_settled ?s j" if "loc_settled s j \<or> j = k" for j
    using that there [of j] unfolding loc_settled_def by (auto split: option.splits)
  have kept: "loc_covers ?s e j" if "loc_covers s e j" "j \<noteq> k" for e j
    using that there [of j] by (cases e) (auto split: option.splits)
  show ?thesis using good settled kept by (intro keeps_up_oneI) blast+
qed

text \<open>A change of a binding matters to the ingresses that it concerns.\<close>

lemma bindings_kept_up:
  assumes ok: "loc_ok s" and bs: "\<forall>rb \<in> set bs. good_binding rb"
    and others: "\<And>k. k \<noteq> key_of rb \<Longrightarrow> find_key k bs = find_key k (bindings_at s)"
    and rb: "event_object e = rb" "good_binding rb"
    and filtered: "rbPredicateFuncs e \<or> \<not> binds_service rb \<or>
      map_option (obtainBindingClusters std_deps) (find_key (key_of rb) bs) =
      map_option (obtainBindingClusters std_deps) (find_key (key_of rb) (bindings_at s))"
  shows "loc_keeps_up s [LocWatchBinding e] (at_bindings bs s)" (is "loc_keeps_up s [?e] ?s")
proof -
  have good: "loc_ok ?s" using ok bs by (simp add: loc_ok_def)
  have settled: "loc_settled ?s j \<or> loc_covers ?s ?e j" if "loc_settled s j" for j
  proof (cases "find_key j (ingresses_at s)")
    case (Some m)
    show ?thesis
    proof (cases "rbPredicateFuncs e \<and> concerns rb m")
      case True
      then show ?thesis using Some rb by simp
    next
      case False
      have "map_option (obtainBindingClusters std_deps) (find_key (binding_key m n) bs) =
          map_option (obtainBindingClusters std_deps) (find_key (binding_key m n) (bindings_at s))"
        if n: "refers_to_service m n" for n
      proof (cases "binding_key m n = key_of rb")
        case True
        then have key: "Namespace m = Namespace rb" "Name rb = GenerateBindingName std_deps ''Service'' n"
          by (simp_all add: binding_key_def key_of_def)
        then have "binds_service rb" "RefName (Resource (rbSpec rb)) = n" using rb(2) unfolding good_binding_def by blast+
        then show ?thesis using False filtered n key(1) True by (simp add: concerns_def)
      qed (simp add: others)
      then have "located bs m = located (bindings_at s) m" by (rule located_bindings_cong)
      then show ?thesis using that Some by (simp add: loc_settled_def)
    qed
  qed (simp add: loc_settled_def)
  have kept: "loc_covers ?s e' j" if "loc_covers s e' j" for e' j
    using that by (cases e') auto
  show ?thesis using good settled kept by (intro keeps_up_oneI) blast+
qed

lemma obtain_cong:
  "BindingClusters (rbSpec a) = BindingClusters (rbSpec b) \<Longrightarrow> RequiredBy (rbSpec a) = RequiredBy (rbSpec b) \<Longrightarrow>
    obtainBindingClusters d a = obtainBindingClusters d b"
  by (simp add: obtainBindingClusters_def)

lemma loc_others_kept_up:
  assumes "loc_others s es s'" and ok: "loc_ok s"
  shows "loc_keeps_up s es s'"
  using assms(1)
proof (cases rule: loc_others.cases)
  case (created m)
  then show ?thesis using loc_created [OF ok] by simp
next
  case (changed m' m)
  then show ?thesis using loc_changed [OF ok] by simp
next
  case (removed k m)
  then show ?thesis using loc_removed [OF ok] by simp
next
  case (bound rb)
  have "\<forall>x \<in> set (bindings_at s @ [rb]). good_binding x" using ok bound(4) by (auto simp: loc_ok_def)
  moreover have "find_key k (bindings_at s @ [rb]) = find_key k (bindings_at s)" if "k \<noteq> key_of rb" for k
    using that by (simp add: find_append split: option.splits)
  ultimately show ?thesis unfolding bound(1,2) using bound(4) by (intro bindings_kept_up [OF ok]) auto
next
  case (rebound rb' rb)
  have "\<forall>x \<in> set (put_key rb' (bindings_at s)). good_binding x"
    using ok rebound(4) put_key_subset [of rb' "bindings_at s"] by (auto simp: loc_ok_def)
  moreover have "find_key k (put_key rb' (bindings_at s)) = (if k = key_of rb' then Some rb' else find_key k (bindings_at s))" for k
    using rebound(3) by (simp add: find_put_key)
  ultimately show ?thesis unfolding rebound(1,2) using rebound(3,4) obtain_cong [of rb' rb std_deps]
    by (intro bindings_kept_up [OF ok]) auto
next
  case (unbound k rb)
  have k: "key_of rb = k" "good_binding rb" using ok find_keyD [OF unbound(3)] by (auto simp: loc_ok_def)
  have "\<forall>x \<in> set (filter (\<lambda>x. key_of x \<noteq> k) (bindings_at s)). good_binding x" using ok by (simp add: loc_ok_def)
  moreover have "find_key j (filter (\<lambda>x. key_of x \<noteq> k) (bindings_at s)) = find_key j (bindings_at s)" if "j \<noteq> key_of rb" for j
    using that k(1) by (simp add: find_filter)
  ultimately show ?thesis unfolding unbound(1,2) using k by (intro bindings_kept_up [OF ok]) auto
qed

section \<open>An event that arrives is handled\<close>

lemma run_rbMapFunc:
  "\<exists>l. run_state (rbMapFunc (mem_server std_deps) rb) s =
    (if binds_service rb then map key_of (filter (\<lambda>m. Namespace m = Namespace rb \<and>
       (\<exists>xs. BuildServiceRefIndexes std_deps m = Some xs \<and> RefName (Resource (rbSpec rb)) \<in> set xs)) (ingresses_at s)) else [],
     s\<lparr>calls := l\<rparr>)"
proof (cases "binds_service rb")
  case True
  have "mcis_in_cache std_deps (mem_server std_deps) (ingresses_at s) (env s)"
    using mem_server_cached [of std_deps "env s"] by (simp add: cached_def)
  then show ?thesis using True by (auto simp: rbMapFunc_def run_api mcis_in_cache_def)
next
  case False
  then show ?thesis by (intro exI [of _ "calls s"]) (simp add: rbMapFunc_def)
qed

lemma mapped_if_concerned:
  assumes "find_key k (ingresses_at s) = Some m" and "concerns rb m" and "only_services m"
  shows "k \<in> set (fst (run_state (rbMapFunc (mem_server std_deps) rb) s))"
proof -
  obtain names where names: "BuildServiceRefIndexes std_deps m = Some names"
    using assms(3) BuildServiceRefIndexes_None [of std_deps m] by auto
  then have "RefName (Resource (rbSpec rb)) \<in> set names"
    using assms(2) BuildServiceRefIndexes_set [OF std_sets_ok] by (simp add: concerns_def)
  then show ?thesis
    using names run_rbMapFunc [of rb s] assms find_keyD [OF assms(1)] by (auto simp: concerns_def)
qed

lemma loc_covered:
  assumes "loc_ok s" and "loc_covers s e k"
  shows "k \<in> set (loc_handle e s)"
proof (cases e)
  case (LocWatchBinding b)
  then obtain m where m: "rbPredicateFuncs b" "find_key k (ingresses_at s) = Some m" "concerns (event_object b) m"
    using assms(2) by (auto split: option.splits)
  have only: "only_services m" using assms(1) find_keyD [OF m(2)] by (simp add: loc_ok_def good_ingress_def)
  show ?thesis
  proof (cases "\<exists>old new. b = UpdateEvent old new")
    case True
    then obtain old new where b: "b = UpdateEvent old new" by blast
    obtain ks l where old: "run_state (rbMapFunc (mem_server std_deps) old) s = (ks, s\<lparr>calls := l\<rparr>)"
      using run_rbMapFunc [of old s] by blast
    obtain ks' l' where new: "run_state (rbMapFunc (mem_server std_deps) new) (s\<lparr>calls := l\<rparr>) = (ks', s\<lparr>calls := l'\<rparr>)"
      using run_rbMapFunc [of new "s\<lparr>calls := l\<rparr>"] by auto
    have "k \<in> set ks'"
      using mapped_if_concerned [of k "s\<lparr>calls := l\<rparr>" m new] m(2,3) only new b by simp
    then show ?thesis using LocWatchBinding m(1) b old new by (simp add: loc_binding_requests_def del: rbPredicateFuncs.simps)
  next
    case False
    then have "loc_mapped (mem_server std_deps) b = (rbMapFunc (mem_server std_deps) (event_object b) :: (Testbed, key list) io)"
      by (cases b) simp_all
    then show ?thesis
      using LocWatchBinding m(1) mapped_if_concerned [OF m(2,3) only] by (simp add: loc_binding_requests_def)
  qed
qed (use assms(2) in simp)

section \<open>A reconcile that runs to its end\<close>

lemma calculated:
  assumes "only_services m"
  shows "\<exists>locs l. run_state (calculateServiceLocations test_loc_controller m) s = (Inr locs, s\<lparr>calls := l\<rparr>) \<and>
    elems locs = located (bindings_at s) m"
proof -
  obtain names where names: "BuildServiceRefIndexes std_deps m = Some names"
    using assms BuildServiceRefIndexes_None [of std_deps m] by auto
  have sorted: "sort names = names"
    using BuildServiceRefIndexes_sorted [OF std_sets_ok names] by (simp add: strict_sorted_iff sorted_sort_id)
  have cache: "bindings_in_cache (locClient test_loc_controller) (\<lambda>k. find_key k (bindings_at s)) (env s)"
    by (simp add: bindings_in_cache_def)
  from run_locate_services [OF cache, of "Namespace m" names None] obtain locs s' where
    run: "run_state (locate_services test_loc_controller (Namespace m) names None) s = (Inr locs, s')" "env s' = env s"
    and locs: "elems locs = concat (map (location_of std_deps (\<lambda>k. find_key k (bindings_at s)) (Namespace m)) names)"
    by auto
  have eq: "s' = s\<lparr>calls := calls s'\<rparr>" using run(2) by simp
  have "run_state (calculateServiceLocations test_loc_controller m) s = (Inr locs, s\<lparr>calls := calls s'\<rparr>)"
    unfolding eq [symmetric] using run(1) by (simp add: calculateServiceLocations_def names sorted)
  then show ?thesis using locs by (auto simp: located_def names)
qed

lemma with_locations_fields [simp]:
  "key_of (with_locations locs m) = key_of m" "mciSpec (with_locations locs m) = mciSpec m"
  "ResourceVersion (with_locations locs m) = ResourceVersion m" "Namespace (with_locations locs m) = Namespace m"
  "DeletionTimestamp (with_locations locs m) = DeletionTimestamp m" "Finalizers (with_locations locs m) = Finalizers m"
  "ServiceLocations (mciStatus (with_locations locs m)) = locs"
  by (simp_all add: with_locations_def key_of_def)

lemma loc_recon_stores:
  assumes found: "find_key k (ingresses_at s) = Some m" and good: "good_ingress m"
  shows "\<exists>w z. loc_recon k s = (None, w) \<and> ingresses_at w = put_key z (ingresses_at s) \<and> bindings_at w = bindings_at s \<and>
    key_of z = k \<and> mciSpec z = mciSpec m \<and> DeletionTimestamp z = DeletionTimestamp m \<and> Finalizers z = Finalizers m \<and>
    elems (ServiceLocations (mciStatus z)) = located (bindings_at s) m"
proof -
  have k: "key_of m = k" using find_keyD [OF found] by simp
  let ?s = "s\<lparr>calls := calls s @ [Reconciling MCIKind k, Got MCIKind k (Inr (MCIObj m))]\<rparr>"
  have "only_services m" using good by (simp add: good_ingress_def)
  from calculated [OF this, of ?s] obtain locs l where
    calc: "run_state (calculateServiceLocations test_loc_controller m) ?s = (Inr locs, s\<lparr>calls := l\<rparr>)"
    and locs: "elems locs = located (bindings_at s) m" by auto
  show ?thesis
  proof (cases "locs = ServiceLocations (mciStatus m)")
    case True
    then have "loc_recon k s = (None, s\<lparr>calls := l\<rparr>)"
      using found calc by (simp add: loc_recon_def ReconcileLocations_def run_api location_attempt_def)
    then show ?thesis using True locs k put_found [OF found] by (intro exI [of _ "s\<lparr>calls := l\<rparr>"] exI [of _ m]) simp
  next
    case False
    let ?x = "with_locations locs m"
    have "DeletionTimestamp m = None \<or> Finalizers m \<noteq> []" using good by (auto simp: good_ingress_def)
    then have out: "mem_write apiMCIs (\<lambda>xs w. w\<lparr>apiMCIs := xs\<rparr>) ?x (env s) =
        ((None, next_version ?x), (env s)\<lparr>apiMCIs := put_key (next_version ?x) (ingresses_at s)\<rparr>)"
      using found k by (auto simp: mem_write_def)
    let ?w = "s\<lparr>env := (env s)\<lparr>apiMCIs := put_key (next_version ?x) (ingresses_at s)\<rparr>, calls := l @ [Wrote StatusVerb (MCIObj ?x) None]\<rparr>"
    have "loc_recon k s = (None, ?w)"
      using False found calc out by (simp add: loc_recon_def ReconcileLocations_def run_api location_attempt_def)
    then show ?thesis using locs k
      by (intro exI [of _ ?w] exI [of _ "next_version ?x"]) (simp add: next_version_def)
  qed
qed

lemma same_spec:
  assumes "mciSpec z = mciSpec m" and "key_of z = key_of m"
  shows "located bs z = located bs m" and "refers_to_service z n = refers_to_service m n"
    and "only_services z = only_services m" and "Namespace z = Namespace m"
proof -
  have "has_backend z = has_backend m" using assms(1) by (simp add: has_backend_def fun_eq_iff)
  then show "refers_to_service z n = refers_to_service m n" "only_services z = only_services m"
    by (simp_all add: refers_to_service_def only_services_def)
  show "Namespace z = Namespace m" using assms(2) by (simp add: key_of_def)
  then show "located bs z = located bs m" using assms(1) by (simp add: located_def BuildServiceRefIndexes_def cong: option.case_cong)
qed

text \<open>The locations in the status depend on no other ingress, and nothing that is on its way is lost.\<close>

lemma loc_recon_settles:
  assumes ok: "loc_ok s"
  shows "\<exists>w. loc_recon k s = (None, w) \<and> loc_settled w k \<and> loc_keeps_up s [] w"
proof (cases "find_key k (ingresses_at s)")
  case None
  let ?w = "s\<lparr>calls := calls s @ [Reconciling MCIKind k, Got MCIKind k (Inl NotFound)]\<rparr>"
  have "loc_recon k s = (None, ?w)"
    using None by (simp add: loc_recon_def ReconcileLocations_def run_api)
  moreover have "loc_settled ?w k" using None by (simp add: loc_settled_def)
  moreover have "loc_covers ?w e j = loc_covers s e j" "loc_settled ?w j = loc_settled s j" for e j
    by (cases e; simp) (rule loc_settled_cong, simp)
  ultimately show ?thesis using ok by (simp add: keeps_up_def loc_ok_def)
next
  case (Some m)
  have good: "good_ingress m" and k: "key_of m = k"
    using ok find_keyD [OF Some] by (simp_all add: loc_ok_def)
  from loc_recon_stores [OF Some good] obtain w z where run: "loc_recon k s = (None, w)"
    and store: "ingresses_at w = put_key z (ingresses_at s)" "bindings_at w = bindings_at s"
    and z: "key_of z = k" "mciSpec z = mciSpec m" "DeletionTimestamp z = DeletionTimestamp m" "Finalizers z = Finalizers m"
    and locs: "elems (ServiceLocations (mciStatus z)) = located (bindings_at s) m" by blast
  note same = same_spec [OF z(2) trans [OF z(1) k [symmetric]]]
  have there: "find_key j (ingresses_at w) = (if j = k then Some z else find_key j (ingresses_at s))" for j
    using Some z(1) by (simp add: store find_put_key)
  have now: "loc_settled w k" using there [of k] store(2) locs same(1) by (simp add: loc_settled_def)
  have settled: "loc_settled w j" if "loc_settled s j" for j
    using that now there [of j] store(2) loc_settled_cong [of w j s] by (cases "j = k") simp_all
  have covers: "loc_covers w e j" if "loc_covers s e j" for e j
    using that there [of j] Some same(2,4) by (cases e) (auto simp: concerns_def split: if_splits option.splits)
  have "loc_ok w"
    using ok good put_key_subset [of z "ingresses_at s"] z same(3) by (auto simp: loc_ok_def store good_ingress_def)
  then show ?thesis using run now settled covers unfolding keeps_up_def by blast
qed

section \<open>A reconcile whose calls fail\<close>

definition alike :: "MultiClusterIngress \<Rightarrow> MultiClusterIngress \<Rightarrow> bool" where
  "alike z m \<longleftrightarrow> key_of z = key_of m \<and> mciSpec z = mciSpec m \<and> DeletionTimestamp z = DeletionTimestamp m \<and> Finalizers z = Finalizers m"

text \<open>What a reconcile may have done so far: replaced its ingress by one with other locations.\<close>

definition loc_frame :: "(Testbed, call) world \<Rightarrow> key \<Rightarrow> (Testbed, call) world \<Rightarrow> bool" where
  "loc_frame s0 k s \<longleftrightarrow> bindings_at s = bindings_at s0 \<and> (ingresses_at s = ingresses_at s0 \<or>
     (\<exists>m z. find_key k (ingresses_at s0) = Some m \<and> alike z m \<and> ingresses_at s = put_key z (ingresses_at s0)))"

lemma loc_frame_calls [simp]: "loc_frame s0 k (s\<lparr>calls := l\<rparr>) = loc_frame s0 k s"
  by (simp add: loc_frame_def)

lemma loc_frame_found:
  assumes "loc_frame s0 k s" and "find_key k (ingresses_at s) = Some x" and "find_key k (ingresses_at s0) = Some m"
  shows "alike x m"
  using assms find_keyD [OF assms(3)] by (auto simp: loc_frame_def find_put_key alike_def split: if_splits)

lemma loc_frame_written:
  assumes frame: "loc_frame s0 k s" and m: "find_key k (ingresses_at s0) = Some m" "good_ingress m" and x: "alike x m"
  shows "loc_frame s0 k (s\<lparr>env := (env s)\<lparr>apiMCIs := written x (ingresses_at s)\<rparr>, calls := l\<rparr>)"
proof -
  have "written x (ingresses_at s) = put_key (next_version x) (ingresses_at s)"
    using m(2) x by (auto simp: written_def good_ingress_def alike_def)
  moreover have "put_key (next_version x) (put_key z (ingresses_at s0)) = put_key (next_version x) (ingresses_at s0)" if "alike z m" for z
    using x that by (simp add: put_put alike_def)
  moreover have "alike (next_version x) m" using x by (simp add: alike_def next_version_def key_of_def)
  ultimately show ?thesis using frame m(1) by (auto simp: loc_frame_def)
qed

lemma location_attempt_frame:
  assumes m: "find_key k (ingresses_at s0) = Some m" "good_ingress m"
  shows "leads (\<lambda>s. alike v m \<and> loc_frame s0 k s) (location_attempt (unreliable_loc_controller \<phi>) k locs v)
    (\<lambda>r s. alike (snd r) m \<and> loc_frame s0 k s)"
proof (rule leads_pure)
  assume v: "alike v m"
  then have x: "alike (with_locations locs v) m" "alike (next_version (with_locations locs v)) m"
    by (simp_all add: alike_def next_version_def with_locations_def key_of_def)
  have "leads (loc_frame s0 k) (api_status_update MCIObj (mcis (unreliable_server \<phi>)) (with_locations locs v))
      (\<lambda>r s. alike (snd r) m \<and> loc_frame s0 k s)"
    unfolding unreliable_server_simps mem_server_simps
    by (rule leads_writes(3) [where v = StatusVerb]) (use x loc_frame_written [OF _ m x(1)] in auto)
  moreover have "leads (\<lambda>s. alike y m \<and> loc_frame s0 k s) (do {
      r \<leftarrow> api_get MCIKind MCIObj (mcis (unreliable_server \<phi>)) k;
      case r of Inr updatedMCI \<Rightarrow> ret (e, updatedMCI) | Inl _ \<Rightarrow> ret (e, y) })
      (\<lambda>r s. alike (snd r) m \<and> loc_frame s0 k s)" for y e
    unfolding unreliable_server_simps mem_server_simps
    by (rule leads_bind, rule leads_get [where Q = "\<lambda>r s. alike y m \<and> loc_frame s0 k s \<and> (\<forall>x. r = Inr x \<longrightarrow> alike x m)"])
      (auto intro!: leads_rules dest: loc_frame_found [OF _ _ m(1)] split: option.splits)
  ultimately show "leads (loc_frame s0 k) (location_attempt (unreliable_loc_controller \<phi>) k locs v)
      (\<lambda>r s. alike (snd r) m \<and> loc_frame s0 k s)"
    unfolding location_attempt_def unreliable_loc_controller_def using v
    by (auto intro!: leads_bind [where R = "\<lambda>r s. alike (snd r) m \<and> loc_frame s0 k s"] leads_rules)
qed

lemma locate_services_frame:
  "leads (loc_frame s0 k) (locate_services (unreliable_loc_controller \<phi>) ns names acc) (\<lambda>_. loc_frame s0 k)"
proof (induction names arbitrary: acc)
  case (Cons n names)
  have "leads (loc_frame s0 k) (api_get BindingKind BindingObj (bindings (unreliable_server \<phi>)) j) (\<lambda>_. loc_frame s0 k)" for j
    unfolding unreliable_server_simps mem_server_simps by (rule leads_get) simp
  then show ?case
    by (auto simp: unreliable_loc_controller_def intro!: leads_bind leads_rules Cons.IH [unfolded unreliable_loc_controller_def])
qed (simp add: leads_rules)

lemma ReconcileLocations_frame:
  assumes ok: "loc_ok s0"
  shows "leads (loc_frame s0 k) (ReconcileLocations (unreliable_loc_controller \<phi>) k) (\<lambda>_. loc_frame s0 k)"
proof -
  have read: "leads (loc_frame s0 k) (api_get MCIKind MCIObj (mcis (unreliable_server \<phi>)) k)
      (\<lambda>r s. loc_frame s0 k s \<and> (\<forall>x. r = Inr x \<longrightarrow> (\<exists>m. find_key k (ingresses_at s0) = Some m \<and> alike x m)))"
    unfolding unreliable_server_simps mem_server_simps
  proof (rule leads_get)
    fix s :: "(Testbed, call) world" and r
    assume s: "loc_frame s0 k s" and r: "r = Inl timeout \<or> r = (case find_key k (ingresses_at s) of None \<Rightarrow> Inl NotFound | Some x \<Rightarrow> Inr x)"
    have "\<exists>m. find_key k (ingresses_at s0) = Some m \<and> alike x m" if "r = Inr x" for x
    proof -
      have x: "find_key k (ingresses_at s) = Some x" using r that by (auto split: option.splits)
      then obtain m where "find_key k (ingresses_at s0) = Some m"
        using s by (auto simp: loc_frame_def find_put_key split: if_splits)
      then show ?thesis using loc_frame_found [OF s x] by blast
    qed
    then show "loc_frame s0 k (s\<lparr>calls := calls s @ [Got MCIKind k (map_sum id MCIObj r)]\<rparr>) \<and>
        (\<forall>x. r = Inr x \<longrightarrow> (\<exists>m. find_key k (ingresses_at s0) = Some m \<and> alike x m))" using s by simp
  qed
  have calc: "leads (loc_frame s0 k) (calculateServiceLocations (unreliable_loc_controller \<phi>) x) (\<lambda>_. loc_frame s0 k)" for x
    unfolding calculateServiceLocations_def by (auto intro!: leads_rules locate_services_frame)
  have attempt: "leads (\<lambda>s. alike x m \<and> loc_frame s0 k s) (retry_upto 4 (location_attempt (unreliable_loc_controller \<phi>) k locs) x)
      (\<lambda>r s. alike (snd r) m \<and> loc_frame s0 k s)" if "find_key k (ingresses_at s0) = Some m" for x m locs
  proof -
    have "good_ingress m" using ok find_keyD [OF that] by (simp add: loc_ok_def)
    from location_attempt_frame [OF that this] show ?thesis by (rule leads_retry [OF retry_upto_ok])
  qed
  have rest: "leads (\<lambda>s. loc_frame s0 k s \<and> (\<exists>m. find_key k (ingresses_at s0) = Some m \<and> alike x m))
      (do { r \<leftarrow> calculateServiceLocations (unreliable_loc_controller \<phi>) x;
            case r of Inl err \<Rightarrow> ret (Some err)
            | Inr locs \<Rightarrow> do { (err, _) \<leftarrow> retry_upto 4 (location_attempt (unreliable_loc_controller \<phi>) k locs) x; ret err } })
      (\<lambda>_. loc_frame s0 k)" for x
  proof (rule leads_known)
    assume "\<exists>m. find_key k (ingresses_at s0) = Some m \<and> alike x m"
    then obtain m where m: "find_key k (ingresses_at s0) = Some m" "alike x m" by blast
    have stored: "leads (loc_frame s0 k) (do { (err, _) \<leftarrow> retry_upto 4 (location_attempt (unreliable_loc_controller \<phi>) k locs) x; ret err })
        (\<lambda>_. loc_frame s0 k)" for locs
      by (rule leads_bind [where R = "\<lambda>_. loc_frame s0 k"], rule leads_consequence [OF attempt [OF m(1)]])
        (auto simp: m(2) intro!: leads_rules)
    show ?thesis
      by (rule leads_bind [where R = "\<lambda>_. loc_frame s0 k"], rule leads_consequence [OF calc]) (auto intro!: leads_rules stored)
  qed simp
  have deps: "locDeps (unreliable_loc_controller \<phi>) = std_deps" "locClient (unreliable_loc_controller \<phi>) = unreliable_server \<phi>"
    "locRetry (unreliable_loc_controller \<phi>) = retry_upto 4"
    by (simp_all add: unreliable_loc_controller_def)
  show ?thesis
    unfolding ReconcileLocations_def deps
  proof (rule leads_bind [where R = "\<lambda>_. loc_frame s0 k"], rule leads_note, simp, rule leads_bind [OF read], rule leads_rules)
    fix r :: "error + MultiClusterIngress" and x assume r: "r = Inr x"
    show "leads (\<lambda>s. loc_frame s0 k s \<and> (\<forall>x. r = Inr x \<longrightarrow> (\<exists>m. find_key k (ingresses_at s0) = Some m \<and> alike x m)))
      (do { r \<leftarrow> calculateServiceLocations (unreliable_loc_controller \<phi>) x;
            case r of Inl err \<Rightarrow> ret (Some err)
            | Inr locs \<Rightarrow> do { (err, _) \<leftarrow> retry_upto 4 (location_attempt (unreliable_loc_controller \<phi>) k locs) x; ret err } })
      (\<lambda>_. loc_frame s0 k)"
      by (rule leads_consequence [OF rest [of x]]) (simp_all add: r)
  qed (auto intro!: leads_rules)
qed

lemma loc_hampered_harmless:
  assumes ok: "loc_ok s" and run: "loc_hampers k s w"
  shows "harmless loc_ok loc_settled loc_covers (\<lambda>_. (=)) k s w"
proof -
  obtain \<phi> e where "run_state (ReconcileLocations (unreliable_loc_controller \<phi>) k) s = (Some e, w)"
    using run by (auto simp: loc_hampers_def)
  from leadsD [OF ReconcileLocations_frame [OF ok] this] have frame: "loc_frame s k w" by (simp add: loc_frame_def)
  show ?thesis
  proof (cases "ingresses_at w = ingresses_at s")
    case True
    then have env: "ingresses_at w = ingresses_at s" "bindings_at w = bindings_at s" using frame by (simp_all add: loc_frame_def)
    then have "loc_covers s e j \<Longrightarrow> loc_covers w e j" "loc_settled s j \<Longrightarrow> loc_settled w j" for e j
      using loc_settled_cong [of w j s] by (cases e; simp)+
    then show ?thesis using ok env by (intro harmless_oneI) (auto simp: loc_ok_def)
  next
    case False
    then obtain m z where m: "find_key k (ingresses_at s) = Some m" and z: "alike z m"
      and store: "ingresses_at w = put_key z (ingresses_at s)" "bindings_at w = bindings_at s"
      using frame by (auto simp: loc_frame_def)
    have k: "key_of z = k" using z find_keyD [OF m] by (simp add: alike_def)
    have there: "find_key j (ingresses_at w) = find_key j (ingresses_at s)" if "j \<noteq> k" for j
      using that k by (simp add: store find_put_key)
    have kept: "loc_covers s e j \<Longrightarrow> loc_covers w e j" "loc_settled s j \<Longrightarrow> loc_settled w j" if "j \<noteq> k" for e j
      using there [OF that] store(2) loc_settled_cong [of w j s] by (cases e; simp)+
    have "good_ingress m" using ok find_keyD [OF m] by (simp add: loc_ok_def)
    then have "loc_ok w"
      using ok put_key_subset [of z "ingresses_at s"] z same_spec(3) [of z m]
      by (auto simp: loc_ok_def store good_ingress_def alike_def)
    then show ?thesis using kept by (intro harmless_oneI) blast+
  qed
qed

lemma loc_init_good:
  assumes "loc_init s"
  shows "loc_ok s" and "loc_settled s k"
  using assms by (simp_all add: loc_init_def loc_ok_def loc_settled_def)

interpretation loc_loop: event_loop loc_init loc_others loc_hampers loc_handle loc_recon loc_ok loc_settled loc_covers "\<lambda>_. (=)"
proof unfold_locales
  show "loc_init w \<Longrightarrow> loc_ok w" "loc_init w \<Longrightarrow> loc_settled w i" for w i by (rule loc_init_good; assumption)+
  show "loc_ok w \<Longrightarrow> loc_others w es w' \<Longrightarrow> loc_keeps_up w es w'" for w es w' by (rule loc_others_kept_up)
  show "loc_ok w \<Longrightarrow> loc_hampers k w w' \<Longrightarrow> harmless loc_ok loc_settled loc_covers (\<lambda>_. (=)) k w w'" for k w w'
    by (rule loc_hampered_harmless)
  show "loc_ok w \<Longrightarrow> loc_covers w e i \<Longrightarrow> loc_settled w i \<or> (\<exists>k \<in> set (loc_handle e w). k = i)" for w e i
    using loc_covered [of w e i] by blast
  show "loc_ok w \<Longrightarrow> \<exists>w'. loc_recon k w = (None, w') \<and> (\<forall>i. k = i \<longrightarrow> loc_settled w' i) \<and> loc_keeps_up w [] w'" for w k
    using loc_recon_settles [of w k] by metis
qed

section \<open>A sample run\<close>

text \<open>A service is bound, an ingress to it is created, both events arrive, and the key is reconciled.\<close>

definition loc_created_system :: "((Testbed, call) world, loc_watched, key) loop" where
  "loc_created_system = \<lparr>loopWorld = loc_world,
     loopEvents = [LocWatchBinding (CreateEvent front_binding), LocWatchMCI (CreateEvent sample_mci)], loopQueue = []\<rparr>"

definition loc_rested :: "((Testbed, call) world, loc_watched, key) loop" where
  "loc_rested = process loc_recon (''shop'', ''web'')
     (deliver loc_handle (LocWatchMCI (CreateEvent sample_mci)) []
       (deliver loc_handle (LocWatchBinding (CreateEvent front_binding)) [LocWatchMCI (CreateEvent sample_mci)]
         loc_created_system))"

lemma sample_loc_objects:
  "good_ingress sample_mci" "good_binding front_binding" "binds_service front_binding"
  "key_of front_binding = (''shop'', ''front-Service'')" "RefName (Resource (rbSpec front_binding)) = ''front''"
proof -
  show "good_ingress sample_mci"
    using BuildServiceRefIndexes_None [of std_deps sample_mci] sample_mci_services
    by (simp add: good_ingress_def sample_mci_def meta_literal_def ObjectMeta.defs)
  have "n = ''front''" if "''front-Service'' = n @ ''-Service''" for n
  proof -
    have "''front'' @ ''-Service'' = n @ ''-Service''" using that by simp
    then show ?thesis unfolding append_same_eq by simp
  qed
  then show "good_binding front_binding"
    by (auto simp: good_binding_def binds_service_def front_binding_def meta_literal_def ObjectMeta.defs)
qed (simp_all add: binds_service_def front_binding_def meta_literal_def ObjectMeta.defs key_of_def)

lemma loc_created_runs: "loc_runs loc_created_system"
proof -
  let ?s = "\<lparr>env = empty_testbed, calls = []\<rparr> :: (Testbed, call) world"
  let ?b = "at_bindings [front_binding] ?s"
  have empty: "apiMCIs empty_testbed = []" "apiBindings empty_testbed = []" by (simp_all add: empty_testbed_def)
  have "loc_others ?s [LocWatchBinding (CreateEvent front_binding)] ?b"
    using loc_others.bound [of front_binding ?s] by (simp add: empty sample_loc_objects(2))
  moreover have "loc_others ?b [LocWatchMCI (CreateEvent sample_mci)] (at_ingresses [sample_mci] ?b)"
    using loc_others.created [of sample_mci ?b] by (simp add: empty sample_loc_objects(1))
  moreover have "loc_init ?s" by (simp add: loc_init_def empty)
  ultimately have "loc_runs (announce [LocWatchMCI (CreateEvent sample_mci)] (at_ingresses [sample_mci] ?b)
      (announce [LocWatchBinding (CreateEvent front_binding)] ?b \<lparr>loopWorld = ?s, loopEvents = [], loopQueue = []\<rparr>))"
    by (intro loop_runs.moved loop_runs.start) simp_all
  then show ?thesis
    by (simp add: announce_def loc_created_system_def loc_world_def at_ingresses_def at_bindings_def empty_testbed_def)
qed

lemma loc_rested_runs: "loc_runs loc_rested" "at_rest loc_rested"
  "\<exists>z. find_key (''shop'', ''web'') (ingresses_at (loopWorld loc_rested)) = Some z \<and> mciSpec z = mciSpec sample_mci"
  "bindings_at (loopWorld loc_rested) = [front_binding]"
proof -
  let ?B = "deliver loc_handle (LocWatchBinding (CreateEvent front_binding)) [LocWatchMCI (CreateEvent sample_mci)] loc_created_system"
  let ?D = "deliver loc_handle (LocWatchMCI (CreateEvent sample_mci)) [] ?B"
  have world: "ingresses_at loc_world = [sample_mci]" "bindings_at loc_world = [front_binding]"
    by (simp_all add: loc_world_def)
  have "set (fst (run_state (rbMapFunc (mem_server std_deps) front_binding) loc_world)) \<subseteq> {(''shop'', ''web'')}"
    using run_rbMapFunc [of front_binding loc_world] by (auto simp: world split: if_splits)
  then have D: "set (loopQueue ?D) = {(''shop'', ''web'')}" "loopWorld ?D = loc_world" "loopEvents ?D = []"
    by (auto simp: loc_created_system_def loc_mci_requests_def loc_binding_requests_def sample_loc_objects)
  have "work_step loc_handle loc_recon loc_created_system ?B"
    using work_step.delivered [of loc_created_system "[]" "LocWatchBinding (CreateEvent front_binding)" "[LocWatchMCI (CreateEvent sample_mci)]"]
    by (simp add: loc_created_system_def)
  moreover have "work_step loc_handle loc_recon ?B ?D"
    using work_step.delivered [of ?B "[]" "LocWatchMCI (CreateEvent sample_mci)" "[]"] by simp
  moreover have "work_step loc_handle loc_recon ?D loc_rested"
    unfolding loc_rested_def by (rule work_step.reconciled) (unfold D(1), simp)
  ultimately show "loc_runs loc_rested" using loc_created_runs by (blast intro: loop_runs.work)
  from loc_recon_stores [of "(''shop'', ''web'')" "loopWorld ?D" sample_mci] obtain w z where
    w: "loc_recon (''shop'', ''web'') (loopWorld ?D) = (None, w)" "ingresses_at w = put_key z [sample_mci]"
      "bindings_at w = [front_binding]" "key_of z = (''shop'', ''web'')" "mciSpec z = mciSpec sample_mci"
    unfolding D(2) by (auto simp: world sample_loc_objects(1))
  moreover have "removeAll (''shop'', ''web'') (loopQueue ?D) = []"
    unfolding removeAll_filter_not_eq filter_empty_conv D(1) by simp
  ultimately have rested: "loopWorld loc_rested = w" "at_rest loc_rested"
    using D(2,3) by (simp_all add: loc_rested_def process_def at_rest_def del: loop_fields)
  then show "at_rest loc_rested" "bindings_at (loopWorld loc_rested) = [front_binding]" using w by simp_all
  show "\<exists>z. find_key (''shop'', ''web'') (ingresses_at (loopWorld loc_rested)) = Some z \<and> mciSpec z = mciSpec sample_mci"
    using w rested by (simp add: find_put_key)
qed

section \<open>What holds of the system\<close>



end
