(* ===== verification/ServiceExport.thy ===== *)
theory ServiceExport
  imports SvcLocations MciHandlers
begin

text \<open>
  pkg/controllers/serviceexportpropagation: the controller that creates a ServiceExport for every
  service that an ingress or a MultiClusterService exposes, and a PropagationPolicy that carries
  it to the clusters the service is scheduled to. The source reads bindings in the version
  v1alpha1 of the API and the location controller in v1alpha2; the fields used are the same.
\<close>

section \<open>The controller\<close>

definition propagationPolicyPrefix :: string where
  "propagationPolicyPrefix = ''propagate-service-''"

record 'w ExportController =
  expDeps :: deps
  expClient :: "'w client"
  expProviderClassName :: string

definition policyName :: "string \<Rightarrow> string" where
  "policyName n = propagationPolicyPrefix @ n"

definition createServiceExportTemplate :: "deps \<Rightarrow> Service \<Rightarrow> ServiceExport" where
  "createServiceExportTemplate d svc =
     (meta_literal (Namespace svc) (Name svc))\<lparr>OwnerReferences := [NewControllerRef d svc ''Service'']\<rparr>"

definition createPropagationPolicyTemplate :: "deps \<Rightarrow> string \<Rightarrow> Service \<Rightarrow> string slice \<Rightarrow> Policy" where
  "createPropagationPolicyTemplate d pname svc names = ObjectMeta.extend
     ((meta_literal (Namespace svc) pname)\<lparr>OwnerReferences := [NewControllerRef d svc ''Service'']\<rparr>)
     \<lparr>policySpec = \<lparr>
        ResourceSelectors = [\<lparr>SelectorAPIVersion = ServiceExportGroupVersion d,
          SelectorKind = ''ServiceExport'', SelectorName = Name svc\<rparr>],
        SpecPlacement = \<lparr>PlacementAffinity = Some \<lparr>ClusterNames = names, AffinityRest = ''''\<rparr>,
          ClusterTolerations = []\<rparr>\<rparr>\<rparr>"

definition getClusterResults :: "deps \<Rightarrow> ResourceBindingSpec \<Rightarrow> string slice" where
  "getClusterResults d spec = Some (SetsList d
     (map TargetName (elems (BindingClusters spec)) @
      concat (map (\<lambda>requiredBy. map TargetName (elems (SnapshotClusters requiredBy)))
        (elems (RequiredBy spec)))))"

definition zero_binding_spec :: ResourceBindingSpec where
  "zero_binding_spec = \<lparr>Resource = \<lparr>RefAPIVersion = '''', RefKind = '''', RefNamespace = '''', RefName = ''''\<rparr>,
     BindingClusters = None, RequiredBy = None\<rparr>"

fun target_spec :: "string \<Rightarrow> ResourceBinding list \<Rightarrow> ResourceBindingSpec" where
  "target_spec n [] = zero_binding_spec"
| "target_spec n (binding # bs) =
     (if RefKind (Resource (rbSpec binding)) = ''Service'' \<and> RefName (Resource (rbSpec binding)) = n
      then rbSpec binding
      else target_spec n bs)"

definition getBindingClusterResults ::
  "'w ExportController \<Rightarrow> Service \<Rightarrow> ('w, error + string slice) io" where
  "getBindingClusterResults c svc = do {
     r \<leftarrow> api_list BindingKind (bindings (expClient c)) (in_namespace (Namespace svc));
     case r of
       Inl e \<Rightarrow> ret (Inl e)
     | Inr bs \<Rightarrow> ret (Inr (getClusterResults (expDeps c) (target_spec (Name svc) bs)))
   }"

definition needEnsureServiceExport ::
  "'w ExportController \<Rightarrow> string \<Rightarrow> string \<Rightarrow> ('w, error + bool) io" where
  "needEnsureServiceExport c svcNamespace svcName = do {
     r \<leftarrow> api_list MCIKind (mcis (expClient c)) (in_namespace_with svcNamespace IndexKeyServiceRefName svcName);
     case r of
       Inl e \<Rightarrow> ret (Inl e)
     | Inr mciList \<Rightarrow>
         if length mciList > 0 then ret (Inr True)
         else do {
           r \<leftarrow> api_get MCSKind MCSObj (mcss (expClient c)) (svcNamespace, svcName);
           case r of
             Inl e \<Rightarrow> if e = NotFound then ret (Inr False) else ret (Inl e)
           | Inr mcs \<Rightarrow> ret (Inr (MCSContainLoadBalanceType (expDeps c) mcs))
         }
   }"

text \<open>The assignment to the \<open>ClusterNames\<close> of the copied policy, whose affinity is not nil.\<close>

definition place_on :: "string slice \<Rightarrow> ClusterAffinity \<Rightarrow> Policy \<Rightarrow> Policy" where
  "place_on names affinity policy = policy\<lparr>policySpec := (policySpec policy)\<lparr>SpecPlacement :=
     (SpecPlacement (policySpec policy))\<lparr>PlacementAffinity := Some (affinity\<lparr>ClusterNames := names\<rparr>)\<rparr>\<rparr>\<rparr>"

text \<open>The steps 3 to 6 of \<open>ensureServiceExport\<close>, from the scheduled clusters to the policy.\<close>

definition ensure_policy :: "'w ExportController \<Rightarrow> Service \<Rightarrow> ('w, error option) io" where
  "ensure_policy c svc = do {
     r \<leftarrow> getBindingClusterResults c svc;
     case r of
       Inl err \<Rightarrow> ret (Some err)
     | Inr names \<Rightarrow>
         if length (elems names) = 0 then ret None
         else do {
           let pname = policyName (Name svc);
           r \<leftarrow> api_get PolicyKind PolicyObj (policies (expClient c)) (Namespace svc, pname);
           case r of
             Inl e \<Rightarrow>
               if e \<noteq> NotFound then ret (Some e)
               else do {
                 (err, _) \<leftarrow> api_create PolicyObj (policies (expClient c))
                   (createPropagationPolicyTemplate (expDeps c) pname svc names);
                 ret err
               }
           | Inr policy \<Rightarrow>
               (case PlacementAffinity (SpecPlacement (policySpec policy)) of
                  None \<Rightarrow> ret (Some Panic)
                | Some affinity \<Rightarrow>
                    if SemanticStrings (expDeps c) (ClusterNames affinity) names then ret None
                    else do {
                      let policyCopy = place_on names affinity policy;
                      (err, _) \<leftarrow> api_update PolicyObj (policies (expClient c)) policyCopy;
                      ret err
                    })
         }
   }"

definition ensureServiceExport :: "'w ExportController \<Rightarrow> Service \<Rightarrow> ('w, error option) io" where
  "ensureServiceExport c svc = do {
     r \<leftarrow> api_get ExportKind ExportObj (exports (expClient c)) (Namespace svc, Name svc);
     case r of
       Inr svcExport \<Rightarrow> ensure_policy c svc
     | Inl e \<Rightarrow>
         if e \<noteq> NotFound then ret (Some e)
         else do {
           (err, _) \<leftarrow> api_create ExportObj (exports (expClient c))
             (createServiceExportTemplate (expDeps c) svc);
           if err \<noteq> None then ret err else ensure_policy c svc
         }
   }"

definition deleteServiceExport :: "'w ExportController \<Rightarrow> Service \<Rightarrow> ('w, error option) io" where
  "deleteServiceExport c svc = do {
     r \<leftarrow> api_get ExportKind ExportObj (exports (expClient c)) (Namespace svc, Name svc);
     case r of
       Inl e \<Rightarrow> if e = NotFound then ret None else ret (Some e)
     | Inr svcExport \<Rightarrow> do {
         err \<leftarrow> api_delete ExportObj (exports (expClient c)) svcExport;
         if err \<noteq> None \<and> err \<noteq> Some NotFound then ret err else ret None
       }
   }"

definition deletePropagationPolicy :: "'w ExportController \<Rightarrow> Service \<Rightarrow> ('w, error option) io" where
  "deletePropagationPolicy c svc = do {
     r \<leftarrow> api_get PolicyKind PolicyObj (policies (expClient c)) (Namespace svc, policyName (Name svc));
     case r of
       Inl e \<Rightarrow> if e = NotFound then ret None else ret (Some e)
     | Inr policy \<Rightarrow> do {
         err \<leftarrow> api_delete PolicyObj (policies (expClient c)) policy;
         if err \<noteq> None \<and> err \<noteq> Some NotFound then ret err else ret None
       }
   }"

definition removeServiceExport :: "'w ExportController \<Rightarrow> Service \<Rightarrow> ('w, error option) io" where
  "removeServiceExport c svc = do {
     err \<leftarrow> deleteServiceExport c svc;
     if err \<noteq> None then ret err
     else do {
       err \<leftarrow> deletePropagationPolicy c svc;
       if err \<noteq> None then ret err else ret None
     }
   }"

definition ReconcileExport :: "'w ExportController \<Rightarrow> key \<Rightarrow> ('w, error option) io" where
  "ReconcileExport c req = do {
     _ \<leftarrow> note_call (Reconciling ServiceKind req);
     r \<leftarrow> api_get ServiceKind ServiceObj (services (expClient c)) req;
     case r of
       Inl e \<Rightarrow> if e = NotFound then ret None else ret (Some e)
     | Inr svc \<Rightarrow>
         if \<not> IsZero (DeletionTimestamp svc) then ret None
         else do {
           r \<leftarrow> needEnsureServiceExport c (Namespace svc) (Name svc);
           case r of
             Inl err \<Rightarrow> ret (Some err)
           | Inr needEnsure \<Rightarrow>
               if needEnsure then ensureServiceExport c svc else removeServiceExport c svc
         }
   }"

lemmas export_defs = ReconcileExport_def removeServiceExport_def deletePropagationPolicy_def
  deleteServiceExport_def ensureServiceExport_def ensure_policy_def needEnsureServiceExport_def
  getBindingClusterResults_def

section \<open>What the parts do\<close>

text \<open>The names a service is scheduled to, by the bindings of its namespace.\<close>

definition scheduled :: "deps \<Rightarrow> Service \<Rightarrow> ResourceBinding list \<Rightarrow> string list" where
  "scheduled d svc bs = elems (getClusterResults d (target_spec (Name svc) bs))"

definition placed_on :: "Policy \<Rightarrow> string list" where
  "placed_on p = (case PlacementAffinity (SpecPlacement (policySpec p)) of
     None \<Rightarrow> [] | Some a \<Rightarrow> elems (ClusterNames a))"

lemma placed_on_simps [simp]:
  "placed_on (createPropagationPolicyTemplate d pname svc names) = elems names"
  "placed_on (place_on names a p) = elems names"
  by (simp_all add: placed_on_def createPropagationPolicyTemplate_def place_on_def ObjectMeta.defs)

text \<open>
  A run of \<open>ensure_policy\<close> that returns nil: the bindings were listed, and the service is not
  scheduled, or the last call read a policy placed on the scheduled clusters, or the last call
  created or updated the policy so.
\<close>

definition policy_ensured :: "Service \<Rightarrow> string list \<Rightarrow> call list \<Rightarrow> bool" where
  "policy_ensured svc names l \<longleftrightarrow>
     (names = [] \<and> l = []) \<or>
     (\<exists>p. l = [Got PolicyKind (Namespace svc, policyName (Name svc)) (Inr (PolicyObj p))] \<and> placed_on p = names) \<or>
     (\<exists>p r v. l = [Got PolicyKind (Namespace svc, policyName (Name svc)) r, Wrote v (PolicyObj p) None] \<and>
        placed_on p = names \<and> (v = CreateVerb \<and> r = Inl NotFound \<or> v = UpdateVerb \<and> (\<exists>q. r = Inr (PolicyObj q))))"

lemma ensure_policy_run:
  assumes sem: "semantic_ok (expDeps c)" and run: "run_state (ensure_policy c svc) s = (None, s')"
  shows "\<exists>bs w l. cList (bindings (expClient c)) (in_namespace (Namespace svc)) (env s) = (Inr bs, w) \<and>
    calls s' = calls s @ Listed BindingKind (in_namespace (Namespace svc)) None # l \<and>
    policy_ensured svc (scheduled (expDeps c) svc bs) l"
proof -
  let ?k = "(Namespace svc, policyName (Name svc))"
  obtain r w where list: "cList (bindings (expClient c)) (in_namespace (Namespace svc)) (env s) = (r, w)"
    by (metis surj_pair)
  with run obtain bs where bs: "r = Inr bs"
    by (cases r) (auto simp: ensure_policy_def getBindingClusterResults_def run_api)
  let ?names = "getClusterResults (expDeps c) (target_spec (Name svc) bs)"
  obtain g w1 where get: "cGet (policies (expClient c)) ?k w = (g, w1)" by (metis surj_pair)
  let ?new = "createPropagationPolicyTemplate (expDeps c) (policyName (Name svc)) svc ?names"
  obtain e x w2 where create: "cCreate (policies (expClient c)) ?new w1 = ((e, x), w2)" by (rule out2)
  have "\<exists>l. calls s' = calls s @ Listed BindingKind (in_namespace (Namespace svc)) None # l \<and>
      policy_ensured svc (elems ?names) l"
  proof (cases "elems ?names = []")
    case True
    then show ?thesis using run list bs
      by (auto simp: ensure_policy_def getBindingClusterResults_def run_api policy_ensured_def)
  next
    case False
    note eqs = ensure_policy_def getBindingClusterResults_def run_api Let_def list bs get create
    show ?thesis
    proof (cases g)
      case (Inl e1)
      then have "calls s' = calls s @ Listed BindingKind (in_namespace (Namespace svc)) None #
          [Got PolicyKind ?k (Inl NotFound), Wrote CreateVerb (PolicyObj ?new) None]"
        using run False by (auto simp: eqs split: if_splits)
      moreover have "placed_on ?new = elems ?names" by simp
      ultimately show ?thesis unfolding policy_ensured_def by blast
    next
      case (Inr p)
      with run False obtain a where a: "PlacementAffinity (SpecPlacement (policySpec p)) = Some a"
        by (auto simp: eqs split: option.splits)
      let ?p = "place_on ?names a p"
      obtain e x w2 where upd: "cUpdate (policies (expClient c)) ?p w1 = ((e, x), w2)" by (rule out2)
      show ?thesis
      proof (cases "elems (ClusterNames a) = elems ?names")
        case True
        then have "calls s' = calls s @ Listed BindingKind (in_namespace (Namespace svc)) None #
            [Got PolicyKind ?k (Inr (PolicyObj p))]" and "placed_on p = elems ?names"
          using run False Inr a by (auto simp: eqs semantic_okD [OF sem] placed_on_def)
        then show ?thesis unfolding policy_ensured_def by blast
      next
        case unlike: False
        then have "calls s' = calls s @ Listed BindingKind (in_namespace (Namespace svc)) None #
            [Got PolicyKind ?k (Inr (PolicyObj p)), Wrote UpdateVerb (PolicyObj ?p) None]"
          using run False Inr a upd by (auto simp: eqs semantic_okD [OF sem])
        moreover have "placed_on ?p = elems ?names" by simp
        ultimately show ?thesis unfolding policy_ensured_def by blast
      qed
    qed
  qed
  then show ?thesis using list bs by (auto simp: scheduled_def)
qed

lemma ensureServiceExport_run:
  assumes run: "run_state (ensureServiceExport c svc) s = (None, s')"
  obtains (found) x s1 where "calls s1 = calls s @ [Got ExportKind (Namespace svc, Name svc) (Inr (ExportObj x))]"
      and "run_state (ensure_policy c svc) s1 = (None, s')"
    | (created) s1 where "calls s1 = calls s @ [Got ExportKind (Namespace svc, Name svc) (Inl NotFound),
        Wrote CreateVerb (ExportObj (createServiceExportTemplate (expDeps c) svc)) None]"
      and "run_state (ensure_policy c svc) s1 = (None, s')"
proof -
  let ?k = "(Namespace svc, Name svc)"
  let ?x = "createServiceExportTemplate (expDeps c) svc"
  obtain r w where g: "cGet (exports (expClient c)) ?k (env s) = (r, w)" by (metis surj_pair)
  obtain e x w2 where cr: "cCreate (exports (expClient c)) ?x w = ((e, x), w2)" by (rule out2)
  show thesis
  proof (cases r)
    case (Inl e1)
    then show thesis using run g cr
      by (intro created [of "s\<lparr>env := w2, calls := calls s @ [Got ExportKind ?k (Inl NotFound), Wrote CreateVerb (ExportObj ?x) None]\<rparr>"])
        (auto simp: ensureServiceExport_def run_api split: if_splits)
  next
    case (Inr y)
    then show thesis using run g
      by (intro found [of "s\<lparr>env := w, calls := calls s @ [Got ExportKind ?k (Inr (ExportObj y))]\<rparr>" y])
        (auto simp: ensureServiceExport_def run_api)
  qed
qed

text \<open>A run of the two deletions that returns nil: each object was missing, or deleted.\<close>

definition removed :: "kind \<Rightarrow> ('o \<Rightarrow> obj) \<Rightarrow> key \<Rightarrow> call list \<Rightarrow> bool" where
  "removed kd mk k l \<longleftrightarrow> l = [Got kd k (Inl NotFound)] \<or>
     (\<exists>x e. l = [Got kd k (Inr (mk x)), Wrote DeleteVerb (mk x) e] \<and> (e = None \<or> e = Some NotFound))"

lemma deleteServiceExport_run:
  "run_state (deleteServiceExport c svc) s = (None, s') \<Longrightarrow>
     \<exists>l. calls s' = calls s @ l \<and> removed ExportKind ExportObj (Namespace svc, Name svc) l"
  by (auto simp: deleteServiceExport_def run_api removed_def split: prod.splits sum.splits if_splits)

lemma deletePropagationPolicy_run:
  "run_state (deletePropagationPolicy c svc) s = (None, s') \<Longrightarrow>
     \<exists>l. calls s' = calls s @ l \<and> removed PolicyKind PolicyObj (Namespace svc, policyName (Name svc)) l"
  by (auto simp: deletePropagationPolicy_def run_api removed_def split: prod.splits sum.splits if_splits)

lemma removeServiceExport_run:
  assumes "run_state (removeServiceExport c svc) s = (None, s')"
  shows "\<exists>l1 l2. calls s' = calls s @ l1 @ l2 \<and>
    removed ExportKind ExportObj (Namespace svc, Name svc) l1 \<and>
    removed PolicyKind PolicyObj (Namespace svc, policyName (Name svc)) l2"
proof -
  obtain e1 s1 where d: "run_state (deleteServiceExport c svc) s = (e1, s1)" by (metis surj_pair)
  then have "e1 = None" and "run_state (deletePropagationPolicy c svc) s1 = (None, s')"
    using assms by (auto simp: removeServiceExport_def split: prod.splits if_splits)
  then show ?thesis
    using deleteServiceExport_run [of c svc s s1] deletePropagationPolicy_run [of c svc s1 s'] d
    by (metis append_assoc)
qed

section \<open>When a service is exported\<close>

definition mcss_in_cache :: "'w client \<Rightarrow> MultiClusterService list \<Rightarrow> 'w \<Rightarrow> bool" where
  "mcss_in_cache c xs w \<longleftrightarrow> (\<forall>ns n. cGet (mcss c) (ns, n) w =
     (case find (\<lambda>x. key_of x = (ns, n)) xs of None \<Rightarrow> Inl NotFound | Some x \<Rightarrow> Inr x, w))"

text \<open>Some ingress of the namespace refers to the service, or its MultiClusterService wants a balancer.\<close>

definition exposed ::
  "deps \<Rightarrow> MultiClusterIngress list \<Rightarrow> MultiClusterService list \<Rightarrow> string \<Rightarrow> string \<Rightarrow> bool" where
  "exposed d ms xs ns n \<longleftrightarrow>
     (\<exists>m \<in> set ms. Namespace m = ns \<and> only_services m \<and> refers_to_service m n) \<or>
     (\<exists>mcs. find (\<lambda>x. key_of x = (ns, n)) xs = Some mcs \<and>
        ExposureTypeLoadBalancer d \<in> set (elems (Types (mcsSpec mcs))))"

fun is_read :: "call \<Rightarrow> bool" where
  "is_read (Got _ _ _) = True"
| "is_read (Listed _ _ _) = True"
| "is_read _ = False"

lemma run_needEnsureServiceExport:
  assumes sets: "sets_ok (expDeps c)" and "mcis_in_cache (expDeps c) (expClient c) ms (env s)"
    and "mcss_in_cache (expClient c) xs (env s)"
  shows "\<exists>qs. run_state (needEnsureServiceExport c ns n) s =
    (Inr (exposed (expDeps c) ms xs ns n), s\<lparr>calls := calls s @ qs\<rparr>) \<and> list_all is_read qs"
proof -
  let ?ms = "filter (\<lambda>m. Namespace m = ns \<and> (\<exists>is. BuildServiceRefIndexes (expDeps c) m = Some is \<and> n \<in> set is)) ms"
  have refers: "(\<exists>is. BuildServiceRefIndexes (expDeps c) m = Some is \<and> n \<in> set is) \<longleftrightarrow>
      only_services m \<and> refers_to_service m n" for m
    using BuildServiceRefIndexes_None [of "expDeps c" m] BuildServiceRefIndexes_set [OF sets, of m]
    by (cases "BuildServiceRefIndexes (expDeps c) m") auto
  have list: "cList (mcis (expClient c)) (in_namespace_with ns IndexKeyServiceRefName n) (env s) = (Inr ?ms, env s)"
    using assms(2) by (simp add: mcis_in_cache_def)
  have get: "cGet (mcss (expClient c)) (ns, n) (env s) =
      (case find (\<lambda>x. key_of x = (ns, n)) xs of None \<Rightarrow> Inl NotFound | Some x \<Rightarrow> Inr x, env s)"
    using assms(3) by (simp add: mcss_in_cache_def)
  show ?thesis
  proof (cases "?ms = []")
    case False
    then have "exposed (expDeps c) ms xs ns n"
      by (auto simp: exposed_def filter_empty_conv refers)
    then show ?thesis using False list
      by (intro exI [of _ "[Listed MCIKind (in_namespace_with ns IndexKeyServiceRefName n) None]"])
        (simp add: needEnsureServiceExport_def run_api)
  next
    case True
    then have "exposed (expDeps c) ms xs ns n \<longleftrightarrow> (\<exists>mcs. find (\<lambda>x. key_of x = (ns, n)) xs = Some mcs \<and>
        ExposureTypeLoadBalancer (expDeps c) \<in> set (elems (Types (mcsSpec mcs))))"
      by (auto simp: exposed_def filter_empty_conv refers)
    then show ?thesis using True list get
      by (intro exI [of _ "[Listed MCIKind (in_namespace_with ns IndexKeyServiceRefName n) None,
          Got MCSKind (ns, n) (map_sum id MCSObj (fst (cGet (mcss (expClient c)) (ns, n) (env s))))]"])
        (auto simp: needEnsureServiceExport_def run_api MCSContainLoadBalanceType_iff split: option.splits)
  qed
qed

lemma ensureServiceExport_calls:
  assumes sem: "semantic_ok (expDeps c)" and run: "run_state (ensureServiceExport c svc) s = (None, s')"
  obtains l0 w bs w' l where "cList (bindings (expClient c)) (in_namespace (Namespace svc)) w = (Inr bs, w')"
    and "calls s' = calls s @ l0 @ Listed BindingKind (in_namespace (Namespace svc)) None # l"
    and "policy_ensured svc (scheduled (expDeps c) svc bs) l"
    and "(\<exists>x. l0 = [Got ExportKind (Namespace svc, Name svc) (Inr (ExportObj x))]) \<or>
      l0 = [Got ExportKind (Namespace svc, Name svc) (Inl NotFound),
        Wrote CreateVerb (ExportObj (createServiceExportTemplate (expDeps c) svc)) None]"
  using run
proof (cases rule: ensureServiceExport_run)
  case (found x s1)
  from ensure_policy_run [OF sem found(2)] obtain bs w l where
    "cList (bindings (expClient c)) (in_namespace (Namespace svc)) (env s1) = (Inr bs, w)"
    and "calls s' = calls s1 @ Listed BindingKind (in_namespace (Namespace svc)) None # l"
    and "policy_ensured svc (scheduled (expDeps c) svc bs) l" by blast
  then show thesis using found(1) by (intro that) auto
next
  case (created s1)
  from ensure_policy_run [OF sem created(2)] obtain bs w l where
    "cList (bindings (expClient c)) (in_namespace (Namespace svc)) (env s1) = (Inr bs, w)"
    and "calls s' = calls s1 @ Listed BindingKind (in_namespace (Namespace svc)) None # l"
    and "policy_ensured svc (scheduled (expDeps c) svc bs) l" by blast
  then show thesis using created(1) by (intro that) auto
qed

text \<open>A run of \<open>ReconcileExport\<close> for a live service, from the caches' answer on.\<close>

lemma ReconcileExport_run:
  assumes "sets_ok (expDeps c)" and read: "cGet (services (expClient c)) req (env s) = (Inr svc, w)"
    and live: "DeletionTimestamp svc = None"
    and "mcis_in_cache (expDeps c) (expClient c) ms w" and "mcss_in_cache (expClient c) xs w"
  obtains qs where "list_all is_read qs" and "run_state (ReconcileExport c req) s =
    run_state (if exposed (expDeps c) ms xs (Namespace svc) (Name svc)
        then ensureServiceExport c svc else removeServiceExport c svc)
      (s\<lparr>env := w, calls := calls s @ Reconciling ServiceKind req # qs\<rparr>)"
proof -
  let ?got = "Got ServiceKind req (Inr (ServiceObj svc))"
  let ?s = "s\<lparr>env := w, calls := calls s @ [Reconciling ServiceKind req, ?got]\<rparr>"
  obtain qs where need: "run_state (needEnsureServiceExport c (Namespace svc) (Name svc)) ?s =
      (Inr (exposed (expDeps c) ms xs (Namespace svc) (Name svc)), ?s\<lparr>calls := calls ?s @ qs\<rparr>)"
    and qs: "list_all is_read qs"
    using run_needEnsureServiceExport [of c ms ?s xs "Namespace svc" "Name svc"] assms by auto
  show thesis
    by (rule that [of "?got # qs"])
      (use read live need qs in \<open>simp_all add: ReconcileExport_def run_api IsZero_def\<close>)
qed

section \<open>The controller on the test server\<close>

definition test_export_controller :: "Testbed ExportController" where
  "test_export_controller = \<lparr>expDeps = std_deps, expClient = mem_server std_deps, expProviderClassName = ''fake''\<rparr>"

lemma test_export_controller_simps [simp]:
  "expDeps test_export_controller = std_deps" "expClient test_export_controller = mem_server std_deps"
  "expProviderClassName test_export_controller = ''fake''"
  by (simp_all add: test_export_controller_def)

definition front_service :: Service where
  "front_service = ObjectMeta.extend (meta_literal ''shop'' ''front'') \<lparr>svcSpec = ''''\<rparr>"

lemma front_service_fields [simp]:
  "Namespace front_service = ''shop''" "Name front_service = ''front''"
  "key_of front_service = (''shop'', ''front'')" "DeletionTimestamp front_service = None"
  by (simp_all add: front_service_def meta_literal_def ObjectMeta.defs key_of_def)

definition export_world :: "MultiClusterIngress list \<Rightarrow> (Testbed, call) world" where
  "export_world ms = \<lparr>env = empty_testbed\<lparr>apiServices := [front_service], apiMCIs := ms,
     apiBindings := [front_binding]\<rparr>, calls = []\<rparr>"

lemma export_world_read:
  "cGet (services (expClient test_export_controller)) (''shop'', ''front'') (env (export_world ms)) =
     (Inr front_service, env (export_world ms))"
  by (simp add: export_world_def)

lemma mem_server_mcss:
  "mcss_in_cache (mem_server d) (apiMCSs w) w"
  by (simp add: mcss_in_cache_def find_key_find)

lemma export_world_caches:
  "mcis_in_cache (expDeps test_export_controller) (expClient test_export_controller) ms (env (export_world ms))"
  "mcss_in_cache (expClient test_export_controller) [] (env (export_world ms))"
  using mem_server_cached [of std_deps "env (export_world ms)"] mem_server_mcss [of std_deps "env (export_world ms)"]
  by (simp_all add: export_world_def empty_testbed_def cached_def)

lemmas run_export_test = export_defs run_api export_world_def empty_testbed_def mem_write_def mem_list_def
  front_binding_def front_service_def IsZero_def next_version_def in_namespace_def in_namespace_with_def
  IndexKeyServiceRefName_def policyName_def propagationPolicyPrefix_def getClusterResults_def
  meta_literal_def ObjectMeta.defs key_of_def Let_def

section \<open>Properties\<close>

text \<open>
  C28: when a reconcile of a live service that is exposed (an ingress of its namespace refers to it,
  or the MultiClusterService of its name has the LoadBalancer type) returns nil, a ServiceExport
  of the service exists or was just created, and if the bindings schedule the service anywhere, a
  PropagationPolicy places it on exactly the scheduled clusters; nothing was deleted.
\<close>

theorem export_of_exposed_service:
  assumes "sets_ok (expDeps c)" and "semantic_ok (expDeps c)"
    and "cGet (services (expClient c)) req (env s) = (Inr svc, w)" and "DeletionTimestamp svc = None"
    and "mcis_in_cache (expDeps c) (expClient c) ms w" and "mcss_in_cache (expClient c) xs w"
    and "exposed (expDeps c) ms xs (Namespace svc) (Name svc)"
    and "run_state (ReconcileExport c req) s = (None, s')"
  shows "\<exists>qs l0 w1 bs w2 l. calls s' = calls s @ Reconciling ServiceKind req # qs @ l0 @
      Listed BindingKind (in_namespace (Namespace svc)) None # l \<and> list_all is_read qs \<and>
    ((\<exists>x. l0 = [Got ExportKind (Namespace svc, Name svc) (Inr (ExportObj x))]) \<or>
     l0 = [Got ExportKind (Namespace svc, Name svc) (Inl NotFound),
       Wrote CreateVerb (ExportObj (createServiceExportTemplate (expDeps c) svc)) None]) \<and>
    cList (bindings (expClient c)) (in_namespace (Namespace svc)) w1 = (Inr bs, w2) \<and>
    policy_ensured svc (scheduled (expDeps c) svc bs) l"
proof -
  from assms(1,3,4,5,6) obtain qs where qs: "list_all is_read qs" and "run_state (ReconcileExport c req) s =
    run_state (if exposed (expDeps c) ms xs (Namespace svc) (Name svc)
        then ensureServiceExport c svc else removeServiceExport c svc)
      (s\<lparr>env := w, calls := calls s @ Reconciling ServiceKind req # qs\<rparr>)"
    by (rule ReconcileExport_run)
  then have "run_state (ensureServiceExport c svc)
      (s\<lparr>env := w, calls := calls s @ Reconciling ServiceKind req # qs\<rparr>) = (None, s')"
    using assms(7,8) by simp
  from ensureServiceExport_calls [OF assms(2) this] obtain l0 w1 bs w2 l where
    "cList (bindings (expClient c)) (in_namespace (Namespace svc)) w1 = (Inr bs, w2)"
    and "calls s' = (calls s @ Reconciling ServiceKind req # qs) @ l0 @
      Listed BindingKind (in_namespace (Namespace svc)) None # l"
    and "policy_ensured svc (scheduled (expDeps c) svc bs) l"
    and "(\<exists>x. l0 = [Got ExportKind (Namespace svc, Name svc) (Inr (ExportObj x))]) \<or>
      l0 = [Got ExportKind (Namespace svc, Name svc) (Inl NotFound),
        Wrote CreateVerb (ExportObj (createServiceExportTemplate (expDeps c) svc)) None]"
    by simp metis
  with qs show ?thesis by (metis append_Cons append_assoc)
qed

lemma export_of_exposed_service_witness:
  "\<exists>l0 l. calls (snd (run_state (ReconcileExport test_export_controller (''shop'', ''front''))
     (export_world [sample_mci]))) = l0 @ Listed BindingKind (in_namespace ''shop'') None # l"
proof -
  let ?r = "run_state (ReconcileExport test_export_controller (''shop'', ''front'')) (export_world [sample_mci])"
  have sets: "sets_ok (expDeps test_export_controller)" and sem: "semantic_ok (expDeps test_export_controller)"
    by (simp_all add: std_sets_ok std_semantic_ok)
  have "exposed (expDeps test_export_controller) [sample_mci] [] (Namespace front_service) (Name front_service)"
    using sample_mci_refers by (simp add: exposed_def)
  moreover have "fst ?r = None"
    by (simp add: run_export_test BuildServiceRefIndexes_def spec_backends_def sample_mci_def
        createServiceExportTemplate_def createPropagationPolicyTemplate_def)
  then have "?r = (None, snd ?r)" by (simp add: prod_eq_iff)
  ultimately obtain qs l0 l where "calls (snd ?r) = calls (export_world [sample_mci]) @
      Reconciling ServiceKind (''shop'', ''front'') # qs @ l0 @
      Listed BindingKind (in_namespace (Namespace front_service)) None # l"
    using export_of_exposed_service [OF sets sem export_world_read front_service_fields(4)
        export_world_caches [of "[sample_mci]"]] by blast
  then have "calls (snd ?r) = (Reconciling ServiceKind (''shop'', ''front'') # qs @ l0) @
      Listed BindingKind (in_namespace ''shop'') None # l"
    by (simp add: export_world_def)
  then show ?thesis by blast
qed

text \<open>
  C29: when a reconcile of a live service that is not exposed returns nil, its ServiceExport and its
  PropagationPolicy are missing or were just deleted, and nothing else was written.
\<close>

theorem export_removed_when_not_exposed:
  assumes "sets_ok (expDeps c)"
    and "cGet (services (expClient c)) req (env s) = (Inr svc, w)" and "DeletionTimestamp svc = None"
    and "mcis_in_cache (expDeps c) (expClient c) ms w" and "mcss_in_cache (expClient c) xs w"
    and "\<not> exposed (expDeps c) ms xs (Namespace svc) (Name svc)"
    and "run_state (ReconcileExport c req) s = (None, s')"
  shows "\<exists>qs l1 l2. calls s' = calls s @ Reconciling ServiceKind req # qs @ l1 @ l2 \<and> list_all is_read qs \<and>
    removed ExportKind ExportObj (Namespace svc, Name svc) l1 \<and>
    removed PolicyKind PolicyObj (Namespace svc, ''propagate-service-'' @ Name svc) l2"
proof -
  from assms(1-5) obtain qs where qs: "list_all is_read qs" and "run_state (ReconcileExport c req) s =
    run_state (if exposed (expDeps c) ms xs (Namespace svc) (Name svc)
        then ensureServiceExport c svc else removeServiceExport c svc)
      (s\<lparr>env := w, calls := calls s @ Reconciling ServiceKind req # qs\<rparr>)"
    by (rule ReconcileExport_run)
  then have "run_state (removeServiceExport c svc)
      (s\<lparr>env := w, calls := calls s @ Reconciling ServiceKind req # qs\<rparr>) = (None, s')"
    using assms(6,7) by simp
  from removeServiceExport_run [OF this] qs show ?thesis
    by (auto simp: policyName_def propagationPolicyPrefix_def)
qed

lemma export_removed_when_not_exposed_witness:
  "\<exists>qs l1 l2. calls (snd (run_state (ReconcileExport test_export_controller (''shop'', ''front'')) (export_world []))) =
     Reconciling ServiceKind (''shop'', ''front'') # qs @ l1 @ l2 \<and>
     removed PolicyKind PolicyObj (''shop'', ''propagate-service-front'') l2"
proof -
  let ?r = "run_state (ReconcileExport test_export_controller (''shop'', ''front'')) (export_world [])"
  have sets: "sets_ok (expDeps test_export_controller)" by (simp add: std_sets_ok)
  have "\<not> exposed (expDeps test_export_controller) [] [] (Namespace front_service) (Name front_service)"
    by (simp add: exposed_def)
  moreover have "fst ?r = None" by (simp add: run_export_test)
  then have "?r = (None, snd ?r)" by (simp add: prod_eq_iff)
  ultimately obtain qs l1 l2 where "calls (snd ?r) = calls (export_world []) @
      Reconciling ServiceKind (''shop'', ''front'') # qs @ l1 @ l2"
    and "removed PolicyKind PolicyObj (Namespace front_service, ''propagate-service-'' @ Name front_service) l2"
    using export_removed_when_not_exposed [OF sets export_world_read front_service_fields(4)
        export_world_caches [of "[]"]] by blast
  moreover have "calls (export_world []) = []" by (simp add: export_world_def)
  ultimately show ?thesis by fastforce
qed

text \<open>
  The names a service is scheduled to are the clusters of the first binding of the list that
  binds a service of its name, those it is scheduled to and those of the bindings that require
  it, in order and each once; without such a binding there are none.
\<close>

lemma export_scheduled_names:
  assumes "sets_ok d"
  shows "sorted_wrt (<) (scheduled d svc bs) \<and>
    set (scheduled d svc bs) = (case find (\<lambda>rb. RefKind (Resource (rbSpec rb)) = ''Service'' \<and>
        RefName (Resource (rbSpec rb)) = Name svc) bs of
      None \<Rightarrow> {} | Some rb \<Rightarrow> {n. located_in rb n})"
proof -
  have "target_spec n bs = (case find (\<lambda>rb. RefKind (Resource (rbSpec rb)) = ''Service'' \<and>
      RefName (Resource (rbSpec rb)) = n) bs of None \<Rightarrow> zero_binding_spec | Some rb \<Rightarrow> rbSpec rb)" for n
    by (induction bs) auto
  moreover have "set (elems (getClusterResults d (rbSpec rb))) = {n. located_in rb n}" for rb
    using obtainBindingClusters_iff [OF assms, of _ rb]
    by (auto simp: getClusterResults_def obtainBindingClusters_def)
  moreover have "set (elems (getClusterResults d zero_binding_spec)) = {}"
    by (simp add: getClusterResults_def zero_binding_spec_def sets_okD [OF assms])
  moreover have "sorted_wrt (<) (scheduled d svc bs)"
    by (simp add: scheduled_def getClusterResults_def sets_okD [OF assms])
  ultimately show ?thesis by (simp add: scheduled_def split: option.splits)
qed

end
