(* ===== verification/ExportHandlers.thy ===== *)
theory ExportHandlers
  imports ServiceExport
begin

text \<open>
  pkg/controllers/serviceexportpropagation/eventhandlers.go and \<open>setupWatches\<close> of its controller:
  how events of services, ingresses, MultiClusterServices and bindings become requests of the
  service export controller. A handler adds keys to the queue or sends services on \<open>svcEventChan\<close>,
  before which nothing is sent when computing the references panics.
\<close>

section \<open>Handlers\<close>

fun exp_serviceEventHandler :: "'w ExportController \<Rightarrow> Service event \<Rightarrow> ('w, key list) io" where
  "exp_serviceEventHandler h (CreateEvent svc) = do {
     r \<leftarrow> api_list MCIKind (mcis (expClient h)) (in_namespace_with (Namespace svc) IndexKeyServiceRefName (Name svc));
     case r of
       Inl e \<Rightarrow> ret []
     | Inr mciList \<Rightarrow>
         if length mciList > 0 then ret [(Namespace svc, Name svc)]
         else do {
           r \<leftarrow> api_get MCSKind MCSObj (mcss (expClient h)) (Namespace svc, Name svc);
           case r of
             Inl e \<Rightarrow> ret []
           | Inr mcs \<Rightarrow> ret [(Namespace svc, Name svc)]
         }
   }"
| "exp_serviceEventHandler h (UpdateEvent svcOld svcNew) = ret []"
| "exp_serviceEventHandler h (DeleteEvent svc) = ret []"
| "exp_serviceEventHandler h (GenericEvent svc) = ret [(Namespace svc, Name svc)]"

definition exp_enqueueImpactedService :: "deps \<Rightarrow> MultiClusterIngress \<Rightarrow> error + Service list" where
  "exp_enqueueImpactedService d mci =
     (case BuildServiceRefIndexes d mci of
        None \<Rightarrow> Inl Panic
      | Some svcRefs \<Rightarrow> Inr (map (service_literal (Namespace mci)) svcRefs))"

fun exp_multiClusterIngressEventHandler ::
  "'w ExportController \<Rightarrow> MultiClusterIngress event \<Rightarrow> ('w, error + Service list) io" where
  "exp_multiClusterIngressEventHandler h (CreateEvent mci) = do {
     matched \<leftarrow> CheckIngressClassMatched (expDeps h) (expClient h) mci (expProviderClassName h);
     if \<not> matched then ret (Inr []) else ret (exp_enqueueImpactedService (expDeps h) mci)
   }"
| "exp_multiClusterIngressEventHandler h (UpdateEvent mciOld mciNew) = do {
     matched \<leftarrow> CheckIngressClassMatched (expDeps h) (expClient h) mciNew (expProviderClassName h);
     if \<not> matched then ret (Inr [])
     else case (BuildServiceRefIndexes (expDeps h) mciOld, BuildServiceRefIndexes (expDeps h) mciNew) of
         (Some oldSvcRefs, Some newSvcRefs) \<Rightarrow>
           if SemanticStrings (expDeps h) (Some oldSvcRefs) (Some newSvcRefs) then ret (Inr [])
           else (let targetRefs = filter (\<lambda>svc. svc \<notin> set newSvcRefs) oldSvcRefs @
                     filter (\<lambda>svc. svc \<notin> set oldSvcRefs) newSvcRefs
                 in ret (Inr (map (service_literal (Namespace mciNew)) targetRefs)))
       | _ \<Rightarrow> ret (Inl Panic)
   }"
| "exp_multiClusterIngressEventHandler h (DeleteEvent mci) = do {
     matched \<leftarrow> CheckIngressClassMatched (expDeps h) (expClient h) mci (expProviderClassName h);
     if \<not> matched then ret (Inr []) else ret (exp_enqueueImpactedService (expDeps h) mci)
   }"
| "exp_multiClusterIngressEventHandler h (GenericEvent mci) = ret (Inr [])"

fun exp_multiClusterServiceEventHandler :: "deps \<Rightarrow> MultiClusterService event \<Rightarrow> Service list" where
  "exp_multiClusterServiceEventHandler d (CreateEvent mcs) = [service_literal (Namespace mcs) (Name mcs)]"
| "exp_multiClusterServiceEventHandler d (UpdateEvent mcsOld mcsNew) =
     (if SemanticMap d (Annotations mcsOld) (Annotations mcsNew) \<and>
         SemanticStrings d (Types (mcsSpec mcsOld)) (Types (mcsSpec mcsNew)) \<and>
         SemanticRests d (Ports (mcsSpec mcsOld)) (Ports (mcsSpec mcsNew))
      then []
      else [service_literal (Namespace mcsNew) (Name mcsNew)])"
| "exp_multiClusterServiceEventHandler d (DeleteEvent mcs) = [service_literal (Namespace mcs) (Name mcs)]"
| "exp_multiClusterServiceEventHandler d (GenericEvent mcs) = []"

definition resource_service :: "ResourceBinding \<Rightarrow> Service" where
  "resource_service rb = service_literal (RefNamespace (Resource (rbSpec rb))) (RefName (Resource (rbSpec rb)))"

fun exp_resourceBindingEventHandler :: "deps \<Rightarrow> ResourceBinding event \<Rightarrow> Service list" where
  "exp_resourceBindingEventHandler d (CreateEvent rb) =
     (if RefKind (Resource (rbSpec rb)) \<noteq> ''Service'' then [] else [resource_service rb])"
| "exp_resourceBindingEventHandler d (UpdateEvent rbOld rbNew) =
     (if RefKind (Resource (rbSpec rbNew)) \<noteq> ''Service'' then []
      else if SemanticStrings d (getClusterResults d (rbSpec rbOld)) (getClusterResults d (rbSpec rbNew)) then []
      else [resource_service rbNew])"
| "exp_resourceBindingEventHandler d (DeleteEvent rb) = []"
| "exp_resourceBindingEventHandler d (GenericEvent rb) = []"

section \<open>The watches\<close>

datatype exp_watched =
    ExpWatchService "Service event"
  | ExpWatchMCI "MultiClusterIngress event"
  | ExpWatchMCS "MultiClusterService event"
  | ExpWatchBinding "ResourceBinding event"

definition exp_on_svcEventChan :: "'w ExportController \<Rightarrow> Service list \<Rightarrow> ('w, key list) io" where
  "exp_on_svcEventChan h = each (\<lambda>svc. exp_serviceEventHandler h (GenericEvent svc))"

fun exp_setupWatches :: "'w ExportController \<Rightarrow> exp_watched \<Rightarrow> ('w, error + key list) io" where
  "exp_setupWatches h (ExpWatchService e) = do {
     ks \<leftarrow> exp_serviceEventHandler h e;
     ret (Inr ks)
   }"
| "exp_setupWatches h (ExpWatchMCI e) = do {
     r \<leftarrow> exp_multiClusterIngressEventHandler h e;
     case r of
       Inl err \<Rightarrow> ret (Inl err)
     | Inr sent \<Rightarrow> do {
         ks \<leftarrow> exp_on_svcEventChan h sent;
         ret (Inr ks)
       }
   }"
| "exp_setupWatches h (ExpWatchMCS e) = do {
     ks \<leftarrow> exp_on_svcEventChan h (exp_multiClusterServiceEventHandler (expDeps h) e);
     ret (Inr ks)
   }"
| "exp_setupWatches h (ExpWatchBinding e) = do {
     ks \<leftarrow> exp_on_svcEventChan h (exp_resourceBindingEventHandler (expDeps h) e);
     ret (Inr ks)
   }"

lemma run_exp_on_svcEventChan:
  "run_state (exp_on_svcEventChan h xs) s = (map (\<lambda>svc. (Namespace svc, Name svc)) xs, s)"
  by (induction xs arbitrary: s) (simp_all add: exp_on_svcEventChan_def)

section \<open>The references of an ingress\<close>

lemma run_exp_update:
  assumes "cached (expDeps h) (expClient h) ms cs (env s)" and "ours (expDeps h) cs (expProviderClassName h) new"
    and sets: "sets_ok (expDeps h)" and sem: "semantic_ok (expDeps h)"
    and "only_services old" and "only_services new"
  shows "\<exists>names s'. run_state (exp_setupWatches h (ExpWatchMCI (UpdateEvent old new))) s =
      (Inr (map (Pair (Namespace new)) names), s') \<and> distinct names \<and>
      set names = {n. refers_to_service old n \<noteq> refers_to_service new n}"
proof -
  obtain olds news where refs: "BuildServiceRefIndexes (expDeps h) old = Some olds"
    "BuildServiceRefIndexes (expDeps h) new = Some news"
    using assms(5,6) BuildServiceRefIndexes_None [of "expDeps h"] by blast
  have sets_of: "set olds = {n. refers_to_service old n}" "set news = {n. refers_to_service new n}"
    using BuildServiceRefIndexes_set [OF sets refs(1)] BuildServiceRefIndexes_set [OF sets refs(2)] by blast+
  have "distinct olds" "distinct news"
    using BuildServiceRefIndexes_sorted [OF sets refs(1)] BuildServiceRefIndexes_sorted [OF sets refs(2)]
    by (auto simp: strict_sorted_iff)
  define names where "names = (if olds = news then [] else filter (\<lambda>n. n \<notin> set news) olds @ filter (\<lambda>n. n \<notin> set olds) news)"
  have "distinct names" using \<open>distinct olds\<close> \<open>distinct news\<close> by (auto simp: names_def)
  moreover have "set names = {n. refers_to_service old n \<noteq> refers_to_service new n}"
  proof (cases "olds = news")
    case True
    then have "{n. refers_to_service old n} = {n. refers_to_service new n}" using sets_of by simp
    then have "{n. refers_to_service old n \<noteq> refers_to_service new n} = {}" by blast
    then show ?thesis using True by (simp add: names_def)
  next
    case False
    then show ?thesis using sets_of by (auto simp: names_def)
  qed
  moreover obtain l where "run_state (CheckIngressClassMatched (expDeps h) (expClient h) new (expProviderClassName h)) s =
      (True, s\<lparr>calls := l\<rparr>)"
    using run_CheckIngressClassMatched_cached [OF assms(1), of new "expProviderClassName h"] assms(2) by auto
  then have "run_state (exp_setupWatches h (ExpWatchMCI (UpdateEvent old new))) s =
      (Inr (map (Pair (Namespace new)) names), s\<lparr>calls := l\<rparr>)"
    by (simp add: refs semantic_okD [OF sem] names_def Let_def run_exp_on_svcEventChan)
  ultimately show ?thesis by blast
qed

section \<open>Properties\<close>

definition moved_mci :: MultiClusterIngress where
  "moved_mci = sample_mci\<lparr>mciSpec := (mciSpec sample_mci)\<lparr>DefaultBackend :=
     Some \<lparr>BackendService = Some \<lparr>ServiceName = ''back'', ServicePort = ''80''\<rparr>, BackendResource = None\<rparr>\<rparr>\<rparr>"

lemma moved_mci_facts:
  "ours std_deps [sample_class] ''fake'' moved_mci" "only_services moved_mci"
  "refers_to_service moved_mci n \<longleftrightarrow> n = ''back''" "refers_to_service sample_mci n \<longleftrightarrow> n = ''front''"
proof -
  have names: "BuildServiceRefIndexes std_deps moved_mci = Some [''back'']"
    by (simp add: BuildServiceRefIndexes_def spec_backends_def moved_mci_def sample_mci_def meta_literal_def ObjectMeta.defs)
  then show "only_services moved_mci" using BuildServiceRefIndexes_None [of std_deps moved_mci] by simp
  show "refers_to_service moved_mci n \<longleftrightarrow> n = ''back''"
    using BuildServiceRefIndexes_set [OF std_sets_ok names, of n] by simp
  show "refers_to_service sample_mci n \<longleftrightarrow> n = ''front''"
    using BuildServiceRefIndexes_set [OF std_sets_ok sample_mci_services, of n] by simp
  show "ours std_deps [sample_class] ''fake'' moved_mci"
    using sample_mci_ours by (simp add: ours_def governed_by_def governing_class_def moved_mci_def)
qed

lemma watch_world_export_cached:
  "cached (expDeps test_export_controller) (expClient test_export_controller) [sample_mci] [sample_class] (env watch_world)"
  using mem_server_cached [of std_deps "env watch_world"] by (simp add: watch_world_def)



text \<open>
  An update of a binding of a service puts the service in the queue exactly when the set of
  clusters it is scheduled to changed, by its own schedule or by those that require it.
\<close>

lemma export_binding_update_reaches_service:
  assumes "sets_ok (expDeps h)" and "semantic_ok (expDeps h)"
    and "RefKind (Resource (rbSpec new)) = ''Service''"
  shows "fst (run_state (exp_setupWatches h (ExpWatchBinding (UpdateEvent old new))) s) =
    Inr (if {n. located_in old n} = {n. located_in new n} then []
      else [(RefNamespace (Resource (rbSpec new)), RefName (Resource (rbSpec new)))])"
proof -
  have set_of: "set (elems (getClusterResults (expDeps h) (rbSpec rb))) = {n. located_in rb n}" for rb
    using obtainBindingClusters_iff [OF assms(1), of _ rb]
    by (auto simp: getClusterResults_def obtainBindingClusters_def)
  have sorted: "sorted_wrt (<) (elems (getClusterResults (expDeps h) (rbSpec rb)))" for rb
    by (simp add: getClusterResults_def sets_okD [OF assms(1)])
  have "elems (getClusterResults (expDeps h) (rbSpec old)) = elems (getClusterResults (expDeps h) (rbSpec new)) \<longleftrightarrow>
      {n. located_in old n} = {n. located_in new n}"
  proof
    assume "{n. located_in old n} = {n. located_in new n}"
    then show "elems (getClusterResults (expDeps h) (rbSpec old)) = elems (getClusterResults (expDeps h) (rbSpec new))"
      using set_of [of old] set_of [of new] sorted strict_sorted_equal by metis
  qed (metis set_of)
  then show ?thesis
    using assms(3) by (simp add: semantic_okD [OF assms(2)] run_exp_on_svcEventChan resource_service_def)
qed

end
