(* ===== verification/ExportSystem.thy ===== *)
theory ExportSystem
  imports ExportHandlers EventLoop Unreliable
begin

text \<open>
  The controller of ServiceExports as it runs: services, the ingresses and MultiClusterServices that
  expose them, and the bindings that schedule them come, change and go; every change puts an event in
  flight, \<open>setupWatches\<close> turns it into keys, and the reconcile of a key runs to its end on the test
  server, or fails on the way and is tried again.
\<close>

section \<open>The system\<close>

definition exp_handle :: "exp_watched \<Rightarrow> (Testbed, call) world \<Rightarrow> key list" where
  "exp_handle e s = (case fst (run_state (exp_setupWatches test_export_controller e) s) of Inl _ \<Rightarrow> [] | Inr ks \<Rightarrow> ks)"

definition exp_recon :: "key \<Rightarrow> (Testbed, call) world \<Rightarrow> error option \<times> (Testbed, call) world" where
  "exp_recon k = run_state (ReconcileExport test_export_controller k)"

text \<open>A reconcile whose calls fail somewhere, and which returns an error.\<close>

definition unreliable_export_controller :: "(kind \<Rightarrow> Testbed fates) \<Rightarrow> Testbed ExportController" where
  "unreliable_export_controller \<phi> = test_export_controller\<lparr>expClient := unreliable_server \<phi>\<rparr>"

definition exp_hampers :: "key \<Rightarrow> (Testbed, call) world \<Rightarrow> (Testbed, call) world \<Rightarrow> bool" where
  "exp_hampers k s w \<longleftrightarrow> (\<exists>\<phi> e. run_state (ReconcileExport (unreliable_export_controller \<phi>) k) s = (Some e, w))"

lemma unreliable_export_fields [simp]:
  "expClient (unreliable_export_controller \<phi>) = unreliable_server \<phi>" "expDeps (unreliable_export_controller \<phi>) = std_deps"
  by (simp_all add: unreliable_export_controller_def)

definition policy_of :: "key \<Rightarrow> key" where
  "policy_of k = (fst k, policyName (snd k))"

text \<open>A binding of the service \<open>k\<close>, as \<open>getBindingClusterResults\<close> looks for it.\<close>

definition binds :: "key \<Rightarrow> ResourceBinding \<Rightarrow> bool" where
  "binds k rb \<longleftrightarrow> Namespace rb = fst k \<and> RefKind (Resource (rbSpec rb)) = ''Service'' \<and> RefName (Resource (rbSpec rb)) = snd k"

text \<open>
  Ingresses are of this provider and have services as backends. A binding is in the namespace of its
  service, as Karmada makes it.
\<close>

definition our_ingress :: "Testbed \<Rightarrow> MultiClusterIngress \<Rightarrow> bool" where
  "our_ingress w m \<longleftrightarrow> ours std_deps (apiClasses w) ''fake'' m \<and> only_services m"

definition local_binding :: "ResourceBinding \<Rightarrow> bool" where
  "local_binding rb \<longleftrightarrow> (RefKind (Resource (rbSpec rb)) = ''Service'' \<longrightarrow> RefNamespace (Resource (rbSpec rb)) = Namespace rb)"

text \<open>
  What others do. A deletion that has begun is not taken back. With a service its ServiceExport and
  its policy go, as both name it as their owner; nobody else touches these two. A service has one
  binding at most, and a binding stays with its service.
\<close>

inductive exp_others :: "(Testbed, call) world \<Rightarrow> exp_watched list \<Rightarrow> (Testbed, call) world \<Rightarrow> bool" where
  svc_created: "find_key (key_of svc) (apiServices (env s)) = None \<Longrightarrow>
    exp_others s [ExpWatchService (CreateEvent svc)] (s\<lparr>env := (env s)\<lparr>apiServices := apiServices (env s) @ [svc]\<rparr>\<rparr>)"
| svc_changed: "find_key (key_of svc') (apiServices (env s)) = Some svc \<Longrightarrow>
    (DeletionTimestamp svc \<noteq> None \<longrightarrow> DeletionTimestamp svc' \<noteq> None) \<Longrightarrow>
    exp_others s [ExpWatchService (UpdateEvent svc svc')] (s\<lparr>env := (env s)\<lparr>apiServices := put_key svc' (apiServices (env s))\<rparr>\<rparr>)"
| svc_removed: "find_key k (apiServices (env s)) = Some svc \<Longrightarrow>
    exp_others s [ExpWatchService (DeleteEvent svc)] (s\<lparr>env := (env s)\<lparr>
      apiServices := filter (\<lambda>x. key_of x \<noteq> k) (apiServices (env s)),
      apiExports := filter (\<lambda>x. key_of x \<noteq> k) (apiExports (env s)),
      apiPolicies := filter (\<lambda>x. key_of x \<noteq> policy_of k) (apiPolicies (env s))\<rparr>\<rparr>)"
| mci_created: "find_key (key_of m) (apiMCIs (env s)) = None \<Longrightarrow> our_ingress (env s) m \<Longrightarrow>
    exp_others s [ExpWatchMCI (CreateEvent m)] (s\<lparr>env := (env s)\<lparr>apiMCIs := apiMCIs (env s) @ [m]\<rparr>\<rparr>)"
| mci_changed: "find_key (key_of m') (apiMCIs (env s)) = Some m \<Longrightarrow> our_ingress (env s) m' \<Longrightarrow>
    exp_others s [ExpWatchMCI (UpdateEvent m m')] (s\<lparr>env := (env s)\<lparr>apiMCIs := put_key m' (apiMCIs (env s))\<rparr>\<rparr>)"
| mci_removed: "find_key k (apiMCIs (env s)) = Some m \<Longrightarrow>
    exp_others s [ExpWatchMCI (DeleteEvent m)] (s\<lparr>env := (env s)\<lparr>apiMCIs := filter (\<lambda>x. key_of x \<noteq> k) (apiMCIs (env s))\<rparr>\<rparr>)"
| mcs_created: "find_key (key_of x) (apiMCSs (env s)) = None \<Longrightarrow>
    exp_others s [ExpWatchMCS (CreateEvent x)] (s\<lparr>env := (env s)\<lparr>apiMCSs := apiMCSs (env s) @ [x]\<rparr>\<rparr>)"
| mcs_changed: "find_key (key_of x') (apiMCSs (env s)) = Some x \<Longrightarrow>
    exp_others s [ExpWatchMCS (UpdateEvent x x')] (s\<lparr>env := (env s)\<lparr>apiMCSs := put_key x' (apiMCSs (env s))\<rparr>\<rparr>)"
| mcs_removed: "find_key k (apiMCSs (env s)) = Some x \<Longrightarrow>
    exp_others s [ExpWatchMCS (DeleteEvent x)] (s\<lparr>env := (env s)\<lparr>apiMCSs := filter (\<lambda>x. key_of x \<noteq> k) (apiMCSs (env s))\<rparr>\<rparr>)"
| bound: "find_key (key_of rb) (apiBindings (env s)) = None \<Longrightarrow> local_binding rb \<Longrightarrow>
    (\<And>k. binds k rb \<Longrightarrow> filter (binds k) (apiBindings (env s)) = []) \<Longrightarrow>
    exp_others s [ExpWatchBinding (CreateEvent rb)] (s\<lparr>env := (env s)\<lparr>apiBindings := apiBindings (env s) @ [rb]\<rparr>\<rparr>)"
| rebound: "find_key (key_of rb') (apiBindings (env s)) = Some rb \<Longrightarrow> Resource (rbSpec rb') = Resource (rbSpec rb) \<Longrightarrow>
    exp_others s [ExpWatchBinding (UpdateEvent rb rb')] (s\<lparr>env := (env s)\<lparr>apiBindings := put_key rb' (apiBindings (env s))\<rparr>\<rparr>)"
| unbound: "find_key k (apiBindings (env s)) = Some rb \<Longrightarrow>
    exp_others s [ExpWatchBinding (DeleteEvent rb)] (s\<lparr>env := (env s)\<lparr>apiBindings := filter (\<lambda>x. key_of x \<noteq> k) (apiBindings (env s))\<rparr>\<rparr>)"

definition exp_init :: "(Testbed, call) world \<Rightarrow> bool" where
  "exp_init s \<longleftrightarrow> apiServices (env s) = [] \<and> apiMCIs (env s) = [] \<and> apiMCSs (env s) = [] \<and>
     apiBindings (env s) = [] \<and> apiExports (env s) = [] \<and> apiPolicies (env s) = []"

abbreviation exp_runs :: "((Testbed, call) world, exp_watched, key) loop \<Rightarrow> bool" where
  "exp_runs \<equiv> loop_runs exp_init exp_others exp_hampers exp_handle exp_recon"

section \<open>What is settled\<close>

abbreviation exposed_at :: "Testbed \<Rightarrow> key \<Rightarrow> bool" where
  "exposed_at w k \<equiv> exposed std_deps (apiMCIs w) (apiMCSs w) (fst k) (snd k)"

definition schedule :: "ResourceBinding list \<Rightarrow> key \<Rightarrow> string list" where
  "schedule bs k = (case map (\<lambda>rb. getClusterResults std_deps (rbSpec rb)) (filter (binds k) bs) of
     [] \<Rightarrow> [] | names # _ \<Rightarrow> elems names)"

text \<open>
  An exposed service has its ServiceExport and, if it is scheduled anywhere, a policy that places it
  on the scheduled clusters; another service has neither.
\<close>

definition rightly_exported :: "Testbed \<Rightarrow> key \<Rightarrow> bool" where
  "rightly_exported w k \<longleftrightarrow>
     (if exposed_at w k
      then find_key k (apiExports w) \<noteq> None \<and> (schedule (apiBindings w) k \<noteq> [] \<longrightarrow>
        map_option placed_on (find_key (policy_of k) (apiPolicies w)) = Some (schedule (apiBindings w) k))
      else find_key k (apiExports w) = None \<and> find_key (policy_of k) (apiPolicies w) = None)"

definition live_service :: "Testbed \<Rightarrow> key \<Rightarrow> bool" where
  "live_service w k \<longleftrightarrow> (case find_key k (apiServices w) of None \<Rightarrow> False | Some svc \<Rightarrow> DeletionTimestamp svc = None)"

definition exp_settled :: "(Testbed, call) world \<Rightarrow> key \<Rightarrow> bool" where
  "exp_settled s k \<longleftrightarrow> (live_service (env s) k \<longrightarrow> rightly_exported (env s) k)"

definition exp_covers :: "(Testbed, call) world \<Rightarrow> exp_watched \<Rightarrow> key \<Rightarrow> bool" where
  "exp_covers s e k \<longleftrightarrow> k \<in> set (exp_handle e s)"

text \<open>ServiceExports and policies belong to stored services, and a policy can be updated.\<close>

definition placeable :: "Policy \<Rightarrow> bool" where
  "placeable p \<longleftrightarrow> DeletionTimestamp p = None \<and> PlacementAffinity (SpecPlacement (policySpec p)) \<noteq> None"

definition exports_kept :: "Testbed \<Rightarrow> bool" where
  "exports_kept w \<longleftrightarrow> (\<forall>k. find_key k (apiServices w) = None \<longrightarrow>
     find_key k (apiExports w) = None \<and> find_key (policy_of k) (apiPolicies w) = None)"

definition policies_placeable :: "Testbed \<Rightarrow> bool" where
  "policies_placeable w \<longleftrightarrow> (\<forall>k p. find_key (policy_of k) (apiPolicies w) = Some p \<longrightarrow> placeable p)"

definition exp_ok :: "(Testbed, call) world \<Rightarrow> bool" where
  "exp_ok s \<longleftrightarrow> exports_kept (env s) \<and> policies_placeable (env s) \<and>
     distinct (map key_of (apiMCIs (env s))) \<and> (\<forall>m \<in> set (apiMCIs (env s)). our_ingress (env s) m) \<and>
     (\<forall>rb \<in> set (apiBindings (env s)). local_binding rb) \<and> (\<forall>k. length (filter (binds k) (apiBindings (env s))) \<le> 1)"

abbreviation exp_keeps_up where
  "exp_keeps_up \<equiv> keeps_up exp_ok exp_settled exp_covers (\<lambda>_. (=))"

lemma policy_of_inj [simp]: "policy_of j = policy_of k \<longleftrightarrow> j = k"
  by (simp add: policy_of_def policyName_def prod_eq_iff)

text \<open>
  An ingress of the namespace refers to the service; or, besides, a MultiClusterService of its name
  exists, of whatever type.
\<close>

definition referred :: "Testbed \<Rightarrow> key \<Rightarrow> bool" where
  "referred w k \<longleftrightarrow> (\<exists>m \<in> set (apiMCIs w). Namespace m = fst k \<and> only_services m \<and> refers_to_service m (snd k))"

definition sought :: "Testbed \<Rightarrow> key \<Rightarrow> bool" where
  "sought w k \<longleftrightarrow> referred w k \<or> find_key k (apiMCSs w) \<noteq> None"

lemma exposed_iff:
  "exposed_at w k \<longleftrightarrow> referred w k \<or>
    (\<exists>x. find_key k (apiMCSs w) = Some x \<and> ''LoadBalancer'' \<in> set (elems (Types (mcsSpec x))))"
  by (simp add: exposed_def referred_def find_key_find)

section \<open>What the handlers put into the queue\<close>

lemma export_cached:
  "cached (expDeps test_export_controller) (expClient test_export_controller) (apiMCIs (env s)) (apiClasses (env s)) (env s)"
  using mem_server_cached [of std_deps "env s"] by simp

lemma class_checked:
  "\<exists>l. run_state (CheckIngressClassMatched std_deps (mem_server std_deps) m ''fake'') s =
    (ours std_deps (apiClasses (env s)) ''fake'' m, s\<lparr>calls := l\<rparr>)"
  by (rule run_CheckIngressClassMatched_cached, rule mem_server_cached)

lemma handle_service:
  "exp_handle (ExpWatchService (CreateEvent svc)) s = (if sought (env s) (key_of svc) then [key_of svc] else [])"
  "exp_handle (ExpWatchService (UpdateEvent old new)) s = []"
  "exp_handle (ExpWatchService (DeleteEvent svc)) s = []"
proof -
  let ?ms = "filter (\<lambda>m. Namespace m = Namespace svc \<and> (\<exists>xs. BuildServiceRefIndexes std_deps m = Some xs \<and> Name svc \<in> set xs)) (apiMCIs (env s))"
  have refers: "(\<exists>xs. BuildServiceRefIndexes std_deps m = Some xs \<and> n \<in> set xs) \<longleftrightarrow> only_services m \<and> refers_to_service m n" for m n
    using BuildServiceRefIndexes_None [of std_deps m] BuildServiceRefIndexes_set [OF std_sets_ok, of m]
    by (cases "BuildServiceRefIndexes std_deps m") auto
  have "mcis_in_cache std_deps (mem_server std_deps) (apiMCIs (env s)) (env s)"
    using mem_server_cached [of std_deps "env s"] by (simp add: cached_def)
  then have list: "cList (mcis (mem_server std_deps)) (in_namespace_with (Namespace svc) IndexKeyServiceRefName (Name svc)) (env s) = (Inr ?ms, env s)"
    unfolding mcis_in_cache_def by blast
  show "exp_handle (ExpWatchService (CreateEvent svc)) s = (if sought (env s) (key_of svc) then [key_of svc] else [])"
  proof (cases "?ms = []")
    case True
    then have "sought (env s) (key_of svc) \<longleftrightarrow> find_key (key_of svc) (apiMCSs (env s)) \<noteq> None"
      by (auto simp: sought_def referred_def key_of_def filter_empty_conv refers)
    then show ?thesis using True list
      by (cases "find_key (key_of svc) (apiMCSs (env s))") (simp_all add: exp_handle_def run_api key_of_def)
  next
    case False
    then have "sought (env s) (key_of svc)" by (auto simp: sought_def referred_def key_of_def filter_empty_conv refers)
    then show ?thesis using False list by (simp add: exp_handle_def run_api key_of_def)
  qed
qed (simp_all add: exp_handle_def)

lemma handle_ingress:
  assumes "our_ingress (env s) m"
  shows "set (exp_handle (ExpWatchMCI (CreateEvent m)) s) = Pair (Namespace m) ` {n. refers_to_service m n}"
    and "set (exp_handle (ExpWatchMCI (DeleteEvent m)) s) = Pair (Namespace m) ` {n. refers_to_service m n}"
    and "our_ingress (env s) old \<Longrightarrow> set (exp_handle (ExpWatchMCI (UpdateEvent old m)) s) =
      Pair (Namespace m) ` {n. refers_to_service old n \<noteq> refers_to_service m n}"
proof -
  obtain l where checked: "run_state (CheckIngressClassMatched std_deps (mem_server std_deps) m ''fake'') s = (True, s\<lparr>calls := l\<rparr>)"
    using class_checked [of m s] assms by (auto simp: our_ingress_def)
  obtain names where names: "BuildServiceRefIndexes std_deps m = Some names"
    using assms BuildServiceRefIndexes_None [of std_deps m] by (auto simp: our_ingress_def)
  have "set names = {n. refers_to_service m n}" using BuildServiceRefIndexes_set [OF std_sets_ok names] by blast
  then show "set (exp_handle (ExpWatchMCI (CreateEvent m)) s) = Pair (Namespace m) ` {n. refers_to_service m n}"
    "set (exp_handle (ExpWatchMCI (DeleteEvent m)) s) = Pair (Namespace m) ` {n. refers_to_service m n}"
    by (simp_all add: exp_handle_def checked exp_enqueueImpactedService_def names run_exp_on_svcEventChan image_image)
  assume "our_ingress (env s) old"
  then have "ours (expDeps test_export_controller) (apiClasses (env s)) (expProviderClassName test_export_controller) m"
    "sets_ok (expDeps test_export_controller)" "semantic_ok (expDeps test_export_controller)" "only_services old" "only_services m"
    using assms by (simp_all add: our_ingress_def std_sets_ok std_semantic_ok)
  from run_exp_update [OF export_cached this] obtain names s' where
    "run_state (exp_setupWatches test_export_controller (ExpWatchMCI (UpdateEvent old m))) s = (Inr (map (Pair (Namespace m)) names), s')"
    and "set names = {n. refers_to_service old n \<noteq> refers_to_service m n}" by blast
  then show "set (exp_handle (ExpWatchMCI (UpdateEvent old m)) s) =
      Pair (Namespace m) ` {n. refers_to_service old n \<noteq> refers_to_service m n}"
    by (simp add: exp_handle_def del: exp_setupWatches.simps)
qed

lemma handle_mcs:
  "exp_handle (ExpWatchMCS (CreateEvent x)) s = [key_of x]" "exp_handle (ExpWatchMCS (DeleteEvent x)) s = [key_of x]"
  "elems (Types (mcsSpec y)) \<noteq> elems (Types (mcsSpec x)) \<Longrightarrow> exp_handle (ExpWatchMCS (UpdateEvent y x)) s = [key_of x]"
  by (auto simp: exp_handle_def run_exp_on_svcEventChan key_of_def)

lemma handle_binding:
  assumes "local_binding rb" and "binds k rb"
  shows "exp_handle (ExpWatchBinding (CreateEvent rb)) s = [k]"
    and "elems (getClusterResults std_deps (rbSpec old)) \<noteq> elems (getClusterResults std_deps (rbSpec rb)) \<Longrightarrow>
      exp_handle (ExpWatchBinding (UpdateEvent old rb)) s = [k]"
  using assms by (simp_all add: exp_handle_def run_exp_on_svcEventChan local_binding_def binds_def resource_service_def)

text \<open>A handler reads at most the classes, unless a service was created.\<close>

lemma handle_cong:
  assumes "apiClasses (env s') = apiClasses (env s)" and "\<And>svc. e = ExpWatchService (CreateEvent svc) \<Longrightarrow> sought (env s') (key_of svc) = sought (env s) (key_of svc)"
  shows "exp_handle e s' = exp_handle e s"
proof (cases e)
  case (ExpWatchService x)
  then show ?thesis using assms by (cases x) (simp_all add: handle_service, simp add: exp_handle_def)
next
  case (ExpWatchMCI x)
  obtain l l' where checked: "run_state (CheckIngressClassMatched std_deps (mem_server std_deps) (event_object x) ''fake'') s =
      (ours std_deps (apiClasses (env s)) ''fake'' (event_object x), s\<lparr>calls := l\<rparr>)"
    "run_state (CheckIngressClassMatched std_deps (mem_server std_deps) (event_object x) ''fake'') s' =
      (ours std_deps (apiClasses (env s)) ''fake'' (event_object x), s'\<lparr>calls := l'\<rparr>)"
    using class_checked [of "event_object x" s] class_checked [of "event_object x" s'] assms(1) by auto
  then show ?thesis using ExpWatchMCI
    by (cases x) (simp_all add: exp_handle_def run_exp_on_svcEventChan Let_def split: sum.split option.split)
next
  case (ExpWatchMCS x)
  then show ?thesis by (simp add: exp_handle_def run_exp_on_svcEventChan)
next
  case (ExpWatchBinding x)
  then show ?thesis by (simp add: exp_handle_def run_exp_on_svcEventChan)
qed

section \<open>What others do is kept up with\<close>

lemma exp_okD:
  assumes "exp_ok s"
  shows "exports_kept (env s)" and "find_key (policy_of k) (apiPolicies (env s)) = Some p \<Longrightarrow> placeable p"
    and "distinct (map key_of (apiMCIs (env s)))" and "m \<in> set (apiMCIs (env s)) \<Longrightarrow> our_ingress (env s) m"
    and "rb \<in> set (apiBindings (env s)) \<Longrightarrow> local_binding rb" and "length (filter (binds k) (apiBindings (env s))) \<le> 1"
  using assms unfolding exp_ok_def policies_placeable_def by blast+

lemma exp_settled_cong:
  assumes "exp_settled s k" and "live_service (env s') k \<Longrightarrow> live_service (env s) k"
    and "exposed_at (env s') k = exposed_at (env s) k"
    and "find_key k (apiExports (env s')) = find_key k (apiExports (env s))"
    and "find_key (policy_of k) (apiPolicies (env s')) = find_key (policy_of k) (apiPolicies (env s))"
    and "schedule (apiBindings (env s')) k \<in> {schedule (apiBindings (env s)) k, []}"
  shows "exp_settled s' k"
  using assms unfolding exp_settled_def rightly_exported_def by (auto split: if_splits)

text \<open>
  A service that was just created is passed over if nothing seeks it when its event arrives. So a
  change after which nothing seeks it any more has to bring its key into the queue.
\<close>

lemma exp_keeps_upI:
  assumes "exp_ok s'" and classes: "apiClasses (env s') = apiClasses (env s)"
    and settled: "\<And>k. exp_settled s k \<Longrightarrow> \<not> exp_covers s' e k \<Longrightarrow> exp_settled s' k"
    and sought: "\<And>k. sought (env s) k \<Longrightarrow> \<not> exp_covers s' e k \<Longrightarrow> sought (env s') k"
  shows "exp_keeps_up s [e] s'"
proof -
  have "exp_covers s' e' k \<or> exp_covers s' e k" if cov: "exp_covers s e' k" for e' k
  proof (cases "\<exists>svc. e' = ExpWatchService (CreateEvent svc)")
    case True
    then show ?thesis using cov sought [of k] by (auto simp: exp_covers_def handle_service split: if_splits)
  next
    case False
    then have "exp_handle e' s' = exp_handle e' s" using classes by (intro handle_cong) blast+
    then show ?thesis using cov by (simp add: exp_covers_def)
  qed
  then show ?thesis using assms(1) settled by (intro keeps_up_oneI) blast+
qed

lemma exists_put:
  "find_key (key_of y) xs = Some x \<Longrightarrow> P y = P x \<Longrightarrow> (\<exists>z \<in> set (put_key y xs). P z) \<longleftrightarrow> (\<exists>z \<in> set xs. P z)"
  by (induction xs) (auto split: if_splits)

lemma live_service_cong:
  "find_key k (apiServices w') = find_key k (apiServices w) \<Longrightarrow> live_service w' k = live_service w k"
  by (simp add: live_service_def)

text \<open>Changes of services.\<close>

lemma service_kept_up:
  assumes ok: "exp_ok s" and "exp_others s es s'" and "es = [ExpWatchService e]"
  shows "exp_keeps_up s es s'"
  using assms(2)
proof (cases rule: exp_others.cases)
  case (svc_created svc)
  have none: "find_key (key_of svc) (apiExports (env s)) = None" "find_key (policy_of (key_of svc)) (apiPolicies (env s)) = None"
    using exp_okD(1) [OF ok] svc_created(3) unfolding exports_kept_def by blast+
  show ?thesis unfolding svc_created(1)
  proof (rule exp_keeps_upI)
    show "exp_ok s'" using ok unfolding exp_ok_def svc_created(2)
      by (auto simp: exports_kept_def policies_placeable_def our_ingress_def find_append split: option.splits)
    fix k assume old: "exp_settled s k" and free: "\<not> exp_covers s' (ExpWatchService (CreateEvent svc)) k"
    have "exposed_at (env s') k = exposed_at (env s) k" by (simp add: svc_created(2))
    show "exp_settled s' k"
    proof (cases "k = key_of svc")
      case True
      then have "\<not> sought (env s') k" using free by (auto simp: exp_covers_def handle_service split: if_splits)
      then have "\<not> exposed_at (env s') k" unfolding sought_def exposed_iff by auto
      then show ?thesis using none True by (simp add: exp_settled_def rightly_exported_def svc_created(2))
    next
      case False
      then show ?thesis using old
        by (intro exp_settled_cong [OF old]) (simp_all add: svc_created(2) live_service_def find_append split: option.splits)
    qed
  qed (simp_all add: svc_created(2) sought_def referred_def)
next
  case (svc_changed svc' svc)
  show ?thesis unfolding svc_changed(1)
  proof (rule exp_keeps_upI)
    show "exp_ok s'" using ok unfolding exp_ok_def svc_changed(2)
      by (auto simp: exports_kept_def policies_placeable_def our_ingress_def find_put_key split: if_splits)
    fix k assume old: "exp_settled s k"
    show "exp_settled s' k" using svc_changed(3,4)
      by (intro exp_settled_cong [OF old]) (auto simp: svc_changed(2) live_service_def find_put_key split: if_splits)
  qed (simp_all add: svc_changed(2) sought_def referred_def)
next
  case (svc_removed k svc)
  show ?thesis unfolding svc_removed(1)
  proof (rule exp_keeps_upI)
    have "exports_kept (env s')" "policies_placeable (env s')"
      using ok unfolding exp_ok_def exports_kept_def policies_placeable_def by (simp_all add: svc_removed(2) find_filter del: split_paired_All)
    then show "exp_ok s'" using ok by (simp add: exp_ok_def svc_removed(2) our_ingress_def)
    fix j assume old: "exp_settled s j"
    show "exp_settled s' j"
    proof (cases "j = k")
      case True
      then show ?thesis by (simp add: exp_settled_def live_service_def svc_removed(2) find_filter)
    next
      case False
      then show ?thesis by (intro exp_settled_cong [OF old]) (simp_all add: svc_removed(2) live_service_def find_filter)
    qed
  qed (simp_all add: svc_removed(2) sought_def referred_def)
qed (use assms(3) in simp_all)

text \<open>Changes of ingresses and of MultiClusterServices: the rest of the world stays.\<close>

lemma exposure_kept_up:
  assumes ok: "exp_ok s" and good: "exp_ok s'"
    and same: "apiClasses (env s') = apiClasses (env s)" "apiServices (env s') = apiServices (env s)"
      "apiExports (env s') = apiExports (env s)" "apiPolicies (env s') = apiPolicies (env s)" "apiBindings (env s') = apiBindings (env s)"
    and exposed: "\<And>k. \<not> exp_covers s' e k \<Longrightarrow> exposed_at (env s') k = exposed_at (env s) k \<and> sought (env s') k = sought (env s) k"
  shows "exp_keeps_up s [e] s'"
proof (rule exp_keeps_upI)
  fix k assume old: "exp_settled s k" and free: "\<not> exp_covers s' e k"
  show "exp_settled s' k"
    using exposed [OF free] by (intro exp_settled_cong [OF old]) (simp_all add: same live_service_def)
qed (use good same exposed in auto)

lemma referred_exposure:
  "referred w' k = referred w k \<Longrightarrow> apiMCSs w' = apiMCSs w \<Longrightarrow> exposed_at w' k = exposed_at w k \<and> sought w' k = sought w k"
  unfolding exposed_iff sought_def by simp

lemma ingress_kept_up:
  assumes ok: "exp_ok s" and "exp_others s es s'" and "es = [ExpWatchMCI e]"
  shows "exp_keeps_up s es s'"
  using assms(2)
proof (cases rule: exp_others.cases)
  case (mci_created m)
  have good: "exp_ok s'" using ok mci_created(3,4)
    by (auto simp: exp_ok_def mci_created(2) exports_kept_def policies_placeable_def our_ingress_def find_none_keys)
  have "referred (env s') k = referred (env s) k" if free: "\<not> exp_covers s' (ExpWatchMCI (CreateEvent m)) k" for k
  proof -
    have "our_ingress (env s') m" using mci_created(2,4) by (simp add: our_ingress_def)
    then have "\<not> (Namespace m = fst k \<and> refers_to_service m (snd k))"
      using free handle_ingress(1) [of s' m] by (cases k) (auto simp: exp_covers_def)
    then show ?thesis by (auto simp: referred_def mci_created(2))
  qed
  then show ?thesis unfolding mci_created(1)
    by (intro exposure_kept_up [OF ok good] referred_exposure) (simp_all add: mci_created(2))
next
  case (mci_changed m' m)
  have good: "exp_ok s'" using ok mci_changed(3,4) put_key_subset [of m' "apiMCIs (env s)"]
    by (auto simp: exp_ok_def mci_changed(2) exports_kept_def policies_placeable_def our_ingress_def put_keys)
  have m: "our_ingress (env s) m" "Namespace m' = Namespace m"
    using exp_okD(4) [OF ok] find_keyD [OF mci_changed(3)] by (auto simp: key_of_def)
  have "referred (env s') k = referred (env s) k" if free: "\<not> exp_covers s' (ExpWatchMCI (UpdateEvent m m')) k" for k
  proof -
    have ours: "our_ingress (env s') m" "our_ingress (env s') m'" using mci_changed(2,4) m(1) by (simp_all add: our_ingress_def)
    then have "Namespace m' = fst k \<longrightarrow> refers_to_service m (snd k) = refers_to_service m' (snd k)"
      using free handle_ingress(3) [OF ours(2,1)] by (cases k) (auto simp: exp_covers_def)
    then have same: "(Namespace m' = fst k \<and> only_services m' \<and> refers_to_service m' (snd k)) =
        (Namespace m = fst k \<and> only_services m \<and> refers_to_service m (snd k))"
      using m(2) ours by (auto simp: our_ingress_def)
    show ?thesis unfolding referred_def mci_changed(2) using exists_put [OF mci_changed(3) same] by simp
  qed
  then show ?thesis unfolding mci_changed(1)
    by (intro exposure_kept_up [OF ok good] referred_exposure) (simp_all add: mci_changed(2))
next
  case (mci_removed j m)
  have good: "exp_ok s'" using ok
    by (auto simp: exp_ok_def mci_removed(2) exports_kept_def policies_placeable_def our_ingress_def distinct_map_filter)
  have m: "our_ingress (env s) m" "m \<in> set (apiMCIs (env s))" "key_of m = j"
    using exp_okD(4) [OF ok] find_keyD [OF mci_removed(3)] by auto
  have "referred (env s') k = referred (env s) k" if free: "\<not> exp_covers s' (ExpWatchMCI (DeleteEvent m)) k" for k
  proof -
    have "our_ingress (env s') m" using mci_removed(2) m(1) by (simp add: our_ingress_def)
    then have "\<not> (Namespace m = fst k \<and> refers_to_service m (snd k))"
      using free handle_ingress(2) [of s' m] by (cases k) (auto simp: exp_covers_def)
    moreover have "x = m" if "x \<in> set (apiMCIs (env s))" "key_of x = j" for x
      using find_distinct [OF exp_okD(3) [OF ok] that(1)] that(2) mci_removed(3) by simp
    ultimately show ?thesis unfolding referred_def mci_removed(2) by auto
  qed
  then show ?thesis unfolding mci_removed(1)
    by (intro exposure_kept_up [OF ok good] referred_exposure) (simp_all add: mci_removed(2))
qed (use assms(3) in simp_all)

lemma mcs_kept_up:
  assumes ok: "exp_ok s" and "exp_others s es s'" and "es = [ExpWatchMCS e]"
  shows "exp_keeps_up s es s'"
proof -
  have good: "exp_ok s'" if "env s' = (env s)\<lparr>apiMCSs := xs\<rparr>" for xs
    using ok that by (simp add: exp_ok_def exports_kept_def policies_placeable_def our_ingress_def)
  have up: "exp_keeps_up s [ExpWatchMCS e] s'" if env: "env s' = (env s)\<lparr>apiMCSs := xs\<rparr>"
    and same: "\<And>k. \<not> exp_covers s' (ExpWatchMCS e) k \<Longrightarrow> map_option (\<lambda>x. elems (Types (mcsSpec x))) (find_key k xs) =
      map_option (\<lambda>x. elems (Types (mcsSpec x))) (find_key k (apiMCSs (env s)))" for xs
  proof (rule exposure_kept_up [OF ok good [OF env]])
    fix k assume "\<not> exp_covers s' (ExpWatchMCS e) k"
    then show "exposed_at (env s') k = exposed_at (env s) k \<and> sought (env s') k = sought (env s) k"
      using same [of k] unfolding exposed_iff sought_def
      by (cases "find_key k xs"; cases "find_key k (apiMCSs (env s))") (auto simp: env referred_def)
  qed (simp_all add: env)
  show ?thesis unfolding assms(3) using assms(2)
  proof (cases rule: exp_others.cases)
    case (mcs_created x)
    then show "exp_keeps_up s [ExpWatchMCS e] s'" using assms(3)
      by (intro up [of "apiMCSs (env s) @ [x]"]) (auto simp: exp_covers_def handle_mcs find_append split: option.splits)
  next
    case (mcs_changed x' x)
    then have e: "e = UpdateEvent x x'" and key: "key_of x = key_of x'" using assms(3) find_keyD [OF mcs_changed(3)] by auto
    show "exp_keeps_up s [ExpWatchMCS e] s'"
    proof (rule up [of "put_key x' (apiMCSs (env s))"])
      fix k assume "\<not> exp_covers s' (ExpWatchMCS e) k"
      then have "k = key_of x' \<longrightarrow> elems (Types (mcsSpec x')) = elems (Types (mcsSpec x))"
        unfolding e exp_covers_def using handle_mcs(3) [of x x' s'] by (metis list.set_intros(1))
      then show "map_option (\<lambda>x. elems (Types (mcsSpec x))) (find_key k (put_key x' (apiMCSs (env s)))) =
          map_option (\<lambda>x. elems (Types (mcsSpec x))) (find_key k (apiMCSs (env s)))"
        using mcs_changed(3) by (simp add: find_put_key)
    qed (simp add: mcs_changed(2))
  next
    case (mcs_removed k x)
    then show "exp_keeps_up s [ExpWatchMCS e] s'" using assms(3) find_keyD [OF mcs_removed(3)]
      by (intro up [of "filter (\<lambda>x. key_of x \<noteq> k) (apiMCSs (env s))"]) (auto simp: exp_covers_def handle_mcs find_filter)
  qed (use assms(3) in simp_all)
qed

text \<open>Changes of bindings: the schedule of a service stays, or ends with its binding.\<close>

lemma schedule_cong:
  "map (\<lambda>rb. getClusterResults std_deps (rbSpec rb)) (filter (binds k) bs') = map (\<lambda>rb. getClusterResults std_deps (rbSpec rb)) (filter (binds k) bs) \<Longrightarrow>
    schedule bs' k = schedule bs k"
  by (simp add: schedule_def)

lemma same_results:
  "getClusterResults d a = getClusterResults d b \<longleftrightarrow> elems (getClusterResults d a) = elems (getClusterResults d b)"
  by (simp add: getClusterResults_def)

lemma filter_put_same:
  "find_key (key_of y) xs = Some x \<Longrightarrow> P y = P x \<Longrightarrow> (P x \<Longrightarrow> f y = f x) \<Longrightarrow>
    map f (filter P (put_key y xs)) = map f (filter P xs)"
  by (induction xs) (auto split: if_splits)

lemma schedule_filter:
  assumes "length (filter (binds k) bs) \<le> 1"
  shows "schedule (filter P bs) k \<in> {schedule bs k, []}"
proof -
  have swap: "filter (binds k) (filter P bs) = filter P (filter (binds k) bs)" by (simp add: conj_commute)
  have "filter P xs \<in> {xs, []}" if "length xs \<le> 1" for xs :: "ResourceBinding list"
    using that by (cases xs) auto
  then have "filter (binds k) (filter P bs) \<in> {filter (binds k) bs, []}" unfolding swap using assms .
  then show ?thesis by (auto simp: schedule_def)
qed

lemma bindings_change_kept_up:
  assumes ok: "exp_ok s" and env: "env s' = (env s)\<lparr>apiBindings := bs\<rparr>"
    and good: "\<forall>rb \<in> set bs. local_binding rb" "\<And>k. length (filter (binds k) bs) \<le> 1"
    and same: "\<And>k. \<not> exp_covers s' e k \<Longrightarrow> schedule bs k \<in> {schedule (apiBindings (env s)) k, []}"
  shows "exp_keeps_up s [e] s'"
proof (rule exp_keeps_upI)
  show "exp_ok s'"
    using ok good by (simp add: exp_ok_def env exports_kept_def policies_placeable_def our_ingress_def)
  fix k assume old: "exp_settled s k" and free: "\<not> exp_covers s' e k"
  show "exp_settled s' k"
    by (rule exp_settled_cong [OF old]) (use same [OF free] in \<open>simp_all add: env live_service_def\<close>)
qed (simp_all add: env sought_def referred_def)

lemma binding_kept_up:
  assumes ok: "exp_ok s" and "exp_others s es s'" and "es = [ExpWatchBinding e]"
  shows "exp_keeps_up s es s'"
  using assms(2)
proof (cases rule: exp_others.cases)
  case (bound rb)
  show ?thesis unfolding bound(1)
  proof (rule bindings_change_kept_up [OF ok])
    show "env s' = (env s)\<lparr>apiBindings := apiBindings (env s) @ [rb]\<rparr>" by (simp add: bound(2))
    show "\<forall>rb \<in> set (apiBindings (env s) @ [rb]). local_binding rb" using exp_okD(5) [OF ok] bound(4) by auto
    show "length (filter (binds k) (apiBindings (env s) @ [rb])) \<le> 1" for k
      using exp_okD(6) [OF ok, of k] bound(5) [of k] by simp
    fix k assume "\<not> exp_covers s' (ExpWatchBinding (CreateEvent rb)) k"
    then have "\<not> binds k rb" using handle_binding(1) [OF bound(4), of k s'] by (auto simp: exp_covers_def)
    then show "schedule (apiBindings (env s) @ [rb]) k \<in> {schedule (apiBindings (env s)) k, []}"
      by (simp add: schedule_def)
  qed
next
  case (rebound rb' rb)
  have old: "rb \<in> set (apiBindings (env s))" "key_of rb = key_of rb'" using find_keyD [OF rebound(3)] by auto
  then have same: "binds k rb' = binds k rb" "local_binding rb'" for k
    using rebound(4) exp_okD(5) [OF ok old(1)] by (auto simp: binds_def local_binding_def key_of_def)
  show ?thesis unfolding rebound(1)
  proof (rule bindings_change_kept_up [OF ok])
    show "env s' = (env s)\<lparr>apiBindings := put_key rb' (apiBindings (env s))\<rparr>" by (simp add: rebound(2))
    show "\<forall>rb \<in> set (put_key rb' (apiBindings (env s))). local_binding rb"
      using exp_okD(5) [OF ok] same(2) put_key_subset [of rb' "apiBindings (env s)"] by auto
    have "map (\<lambda>_. ()) (filter (binds k) (put_key rb' (apiBindings (env s)))) = map (\<lambda>_. ()) (filter (binds k) (apiBindings (env s)))" for k
      using rebound(3) same(1) by (rule filter_put_same) simp
    then have "length (filter (binds k) (put_key rb' (apiBindings (env s)))) = length (filter (binds k) (apiBindings (env s)))" for k
      by (rule map_eq_imp_length_eq)
    then show "length (filter (binds k) (put_key rb' (apiBindings (env s)))) \<le> 1" for k
      using exp_okD(6) [OF ok, of k] by simp
    fix k assume free: "\<not> exp_covers s' (ExpWatchBinding (UpdateEvent rb rb')) k"
    have "getClusterResults std_deps (rbSpec rb') = getClusterResults std_deps (rbSpec rb)" if "binds k rb"
      using handle_binding(2) [OF same(2), of k rb s'] same(1) [of k] that free
      unfolding exp_covers_def same_results by (metis list.set_intros(1))
    then show "schedule (put_key rb' (apiBindings (env s))) k \<in> {schedule (apiBindings (env s)) k, []}"
      using schedule_cong [OF filter_put_same [OF rebound(3) same(1)]] by blast
  qed
next
  case (unbound j rb)
  show ?thesis unfolding unbound(1)
  proof (rule bindings_change_kept_up [OF ok])
    show "env s' = (env s)\<lparr>apiBindings := filter (\<lambda>x. key_of x \<noteq> j) (apiBindings (env s))\<rparr>" by (simp add: unbound(2))
    show "\<forall>rb \<in> set (filter (\<lambda>x. key_of x \<noteq> j) (apiBindings (env s))). local_binding rb" using exp_okD(5) [OF ok] by simp
    show "length (filter (binds k) (filter (\<lambda>x. key_of x \<noteq> j) (apiBindings (env s)))) \<le> 1" for k
    proof -
      have "filter (binds k) (filter (\<lambda>x. key_of x \<noteq> j) (apiBindings (env s))) = filter (\<lambda>x. key_of x \<noteq> j) (filter (binds k) (apiBindings (env s)))"
        by (simp add: conj_commute)
      then show ?thesis using exp_okD(6) [OF ok, of k] length_filter_le le_trans by metis
    qed
  qed (rule schedule_filter [OF exp_okD(6) [OF ok]])
qed (use assms(3) in simp_all)

lemma exp_others_kept_up:
  assumes "exp_others s es s'" and "exp_ok s"
  shows "exp_keeps_up s es s'"
proof -
  obtain e where e: "es = [e]" using assms(1) by cases auto
  show ?thesis
    by (cases e) (use e assms service_kept_up ingress_kept_up mcs_kept_up binding_kept_up in blast)+
qed

section \<open>A reconcile that runs to its end\<close>

lemma getBindingClusterResults_schedule:
  "elems (getClusterResults std_deps (target_spec n (filter (\<lambda>b. Namespace b = ns) bs))) = schedule bs (ns, n)"
proof (induction bs)
  case Nil
  then show ?case by (simp add: schedule_def getClusterResults_def zero_binding_spec_def)
next
  case (Cons b bs)
  then show ?case by (cases "binds (ns, n) b") (auto simp: schedule_def binds_def)
qed

lemma next_version_placeable [simp]:
  "placed_on (next_version p) = placed_on p" "placeable (next_version p) = placeable p"
  by (simp_all add: placed_on_def placeable_def next_version_def)

lemma some_calls [simp]: "\<exists>l. s\<lparr>calls := x\<rparr> = s\<lparr>calls := l\<rparr>"
  by blast

text \<open>The policies after \<open>ensureServiceExport\<close>: the one of the service is right, the others are untouched.\<close>

definition policies_ensured :: "key \<Rightarrow> string list \<Rightarrow> Policy list \<Rightarrow> Policy list \<Rightarrow> bool" where
  "policies_ensured k names ps ps' \<longleftrightarrow> (\<forall>j. j \<noteq> policy_of k \<longrightarrow> find_key j ps' = find_key j ps) \<and>
     (\<forall>p. find_key (policy_of k) ps' = Some p \<longrightarrow> placeable p) \<and>
     (names \<noteq> [] \<longrightarrow> map_option placed_on (find_key (policy_of k) ps') = Some names)"

lemma policies_ensuredI:
  assumes "key_of p = policy_of k" and "placeable p" and "placed_on p = names"
  shows "find_key (policy_of k) ps = None \<Longrightarrow> policies_ensured k names ps (ps @ [p])"
    and "find_key (policy_of k) ps \<noteq> None \<Longrightarrow> policies_ensured k names ps (put_key p ps)"
  using assms by (auto simp: policies_ensured_def find_append find_put_key split: option.splits)

lemma ensured_policy:
  assumes "\<And>p. find_key (policy_of (key_of svc)) (apiPolicies (env s)) = Some p \<Longrightarrow> placeable p"
  shows "\<exists>ps l. run_state (ensure_policy test_export_controller svc) s =
      (None, s\<lparr>env := (env s)\<lparr>apiPolicies := ps\<rparr>, calls := l\<rparr>) \<and>
    policies_ensured (key_of svc) (schedule (apiBindings (env s)) (key_of svc)) (apiPolicies (env s)) ps"
proof -
  let ?names = "getClusterResults std_deps (target_spec (Name svc) (filter (\<lambda>b. Namespace b = Namespace svc) (apiBindings (env s))))"
  let ?k = "policy_of (key_of svc)"
  let ?l = "calls s @ [Listed BindingKind (in_namespace (Namespace svc)) None]"
  have names: "elems ?names = schedule (apiBindings (env s)) (key_of svc)"
    by (simp add: getBindingClusterResults_schedule key_of_def)
  have key: "(Namespace svc, policyName (Name svc)) = ?k" by (simp add: policy_of_def key_of_def)
  have results: "run_state (getBindingClusterResults test_export_controller svc) s = (Inr ?names, s\<lparr>calls := ?l\<rparr>)"
    by (simp add: getBindingClusterResults_def run_api mem_list_def in_namespace_def)
  show ?thesis
  proof (cases "elems ?names = []")
    case True
    then have "run_state (ensure_policy test_export_controller svc) s = (None, s\<lparr>calls := ?l\<rparr>)"
      by (simp add: ensure_policy_def results)
    then show ?thesis using assms names True
      by (intro exI [of _ "apiPolicies (env s)"] exI [of _ ?l]) (simp add: policies_ensured_def)
  next
    case some: False
    show ?thesis
    proof (cases "find_key ?k (apiPolicies (env s))")
      case None
      let ?p = "createPropagationPolicyTemplate std_deps (policyName (Name svc)) svc ?names"
      have p: "key_of ?p = ?k" "placeable ?p"
        by (simp_all add: createPropagationPolicyTemplate_def placeable_def key_of_def policy_of_def meta_literal_def ObjectMeta.defs)
      have "\<exists>l. run_state (ensure_policy test_export_controller svc) s =
          (None, s\<lparr>env := (env s)\<lparr>apiPolicies := apiPolicies (env s) @ [next_version ?p]\<rparr>, calls := l\<rparr>)"
        using some None p(1) by (simp add: ensure_policy_def results run_api Let_def key)
      moreover have "policies_ensured (key_of svc) (elems ?names) (apiPolicies (env s)) (apiPolicies (env s) @ [next_version ?p])"
        using None p by (intro policies_ensuredI(1)) simp_all
      ultimately show ?thesis unfolding names by blast
    next
      case (Some p)
      then obtain a where a: "PlacementAffinity (SpecPlacement (policySpec p)) = Some a" and live: "DeletionTimestamp p = None"
        using assms by (auto simp: placeable_def)
      have placed: "placed_on p = elems (ClusterNames a)" by (simp add: placed_on_def a)
      show ?thesis
      proof (cases "elems (ClusterNames a) = elems ?names")
        case True
        then have "\<exists>l. run_state (ensure_policy test_export_controller svc) s = (None, s\<lparr>calls := l\<rparr>)"
          using some Some a by (simp add: ensure_policy_def results run_api Let_def key)
        moreover have "policies_ensured (key_of svc) (elems ?names) (apiPolicies (env s)) (apiPolicies (env s))"
          using True Some placed assms by (simp add: policies_ensured_def)
        ultimately show ?thesis unfolding names by (auto intro!: exI [of _ "apiPolicies (env s)"])
      next
        case False
        let ?p = "place_on ?names a p"
        have p: "key_of ?p = ?k" "placeable ?p" "ResourceVersion ?p = ResourceVersion p" "DeletionTimestamp ?p = None"
          using find_keyD [OF Some] live by (simp_all add: place_on_def placeable_def key_of_def)
        have "mem_write apiPolicies (\<lambda>xs w. w\<lparr>apiPolicies := xs\<rparr>) ?p (env s) =
            ((None, next_version ?p), (env s)\<lparr>apiPolicies := put_key (next_version ?p) (apiPolicies (env s))\<rparr>)"
          using Some p by (intro write_stored) simp_all
        then have "\<exists>l. run_state (ensure_policy test_export_controller svc) s =
            (None, s\<lparr>env := (env s)\<lparr>apiPolicies := put_key (next_version ?p) (apiPolicies (env s))\<rparr>, calls := l\<rparr>)"
          using some Some a False by (simp add: ensure_policy_def results run_api Let_def key)
        moreover have "policies_ensured (key_of svc) (elems ?names) (apiPolicies (env s)) (put_key (next_version ?p) (apiPolicies (env s)))"
          using Some p by (intro policies_ensuredI(2)) simp_all
        ultimately show ?thesis unfolding names by blast
      qed
    qed
  qed
qed

lemma ensured_export:
  assumes "\<And>p. find_key (policy_of (key_of svc)) (apiPolicies (env s)) = Some p \<Longrightarrow> placeable p"
  shows "\<exists>xs ps l. run_state (ensureServiceExport test_export_controller svc) s =
      (None, s\<lparr>env := (env s)\<lparr>apiExports := xs, apiPolicies := ps\<rparr>, calls := l\<rparr>) \<and>
    (\<forall>j. find_key j xs = None \<longleftrightarrow> find_key j (apiExports (env s)) = None \<and> j \<noteq> key_of svc) \<and>
    policies_ensured (key_of svc) (schedule (apiBindings (env s)) (key_of svc)) (apiPolicies (env s)) ps"
proof -
  have key: "(Namespace svc, Name svc) = key_of svc" by (simp add: key_of_def)
  show ?thesis
  proof (cases "find_key (key_of svc) (apiExports (env s))")
    case None
    let ?x = "createServiceExportTemplate std_deps svc"
    have x: "key_of ?x = key_of svc" by (simp add: createServiceExportTemplate_def meta_literal_def key_of_def)
    let ?s = "s\<lparr>env := (env s)\<lparr>apiExports := apiExports (env s) @ [next_version ?x]\<rparr>,
      calls := calls s @ [Got ExportKind (key_of svc) (Inl NotFound), Wrote CreateVerb (ExportObj ?x) None]\<rparr>"
    obtain ps l where policy: "run_state (ensure_policy test_export_controller svc) ?s = (None, ?s\<lparr>env := (env ?s)\<lparr>apiPolicies := ps\<rparr>, calls := l\<rparr>)"
      and ps: "policies_ensured (key_of svc) (schedule (apiBindings (env s)) (key_of svc)) (apiPolicies (env s)) ps"
      using ensured_policy [of svc ?s] assms by auto
    have "run_state (ensureServiceExport test_export_controller svc) s = run_state (ensure_policy test_export_controller svc) ?s"
      using None x by (simp add: ensureServiceExport_def run_api key)
    then have "run_state (ensureServiceExport test_export_controller svc) s =
        (None, s\<lparr>env := (env s)\<lparr>apiExports := apiExports (env s) @ [next_version ?x], apiPolicies := ps\<rparr>, calls := l\<rparr>)"
      using policy by simp
    moreover have "find_key j (apiExports (env s) @ [next_version ?x]) = None \<longleftrightarrow> find_key j (apiExports (env s)) = None \<and> j \<noteq> key_of svc" for j
      using x by (auto simp: find_append split: option.splits)
    ultimately show ?thesis using ps by blast
  next
    case (Some x)
    let ?s = "s\<lparr>calls := calls s @ [Got ExportKind (key_of svc) (Inr (ExportObj x))]\<rparr>"
    obtain ps l where policy: "run_state (ensure_policy test_export_controller svc) ?s = (None, ?s\<lparr>env := (env ?s)\<lparr>apiPolicies := ps\<rparr>, calls := l\<rparr>)"
      and ps: "policies_ensured (key_of svc) (schedule (apiBindings (env s)) (key_of svc)) (apiPolicies (env s)) ps"
      using ensured_policy [of svc ?s] assms by auto
    have "run_state (ensureServiceExport test_export_controller svc) s =
        (None, s\<lparr>env := (env s)\<lparr>apiExports := apiExports (env s), apiPolicies := ps\<rparr>, calls := l\<rparr>)"
      using Some policy by (simp add: ensureServiceExport_def run_api key)
    then show ?thesis using ps Some by (intro exI [of _ "apiExports (env s)"] exI [of _ ps] exI [of _ l]) auto
  qed
qed

lemma removed_export:
  "\<exists>l. run_state (removeServiceExport test_export_controller svc) s = (None, s\<lparr>env := (env s)\<lparr>
      apiExports := filter (\<lambda>x. key_of x \<noteq> key_of svc) (apiExports (env s)),
      apiPolicies := filter (\<lambda>x. key_of x \<noteq> policy_of (key_of svc)) (apiPolicies (env s))\<rparr>, calls := l\<rparr>)"
proof -
  have key: "(Namespace svc, Name svc) = key_of svc" "(Namespace svc, policyName (Name svc)) = policy_of (key_of svc)"
    by (simp_all add: key_of_def policy_of_def)
  have gone: "filter (\<lambda>x. key_of x \<noteq> k) xs = xs" if "find_key k xs = None" for k and xs :: "'a ObjectMeta_scheme list"
    using find_key_NoneD [OF that] by (simp add: filter_id_conv)
  have "\<exists>l. run_state (deleteServiceExport test_export_controller svc) s = (None, s\<lparr>env := (env s)\<lparr>
      apiExports := filter (\<lambda>x. key_of x \<noteq> key_of svc) (apiExports (env s))\<rparr>, calls := l\<rparr>)"
    using find_keyD [of "key_of svc" "apiExports (env s)"] gone [of "key_of svc" "apiExports (env s)"]
    by (cases "find_key (key_of svc) (apiExports (env s))") (simp_all add: deleteServiceExport_def run_api key)
  then obtain l where first: "run_state (deleteServiceExport test_export_controller svc) s = (None, s\<lparr>env := (env s)\<lparr>
      apiExports := filter (\<lambda>x. key_of x \<noteq> key_of svc) (apiExports (env s))\<rparr>, calls := l\<rparr>)" by blast
  have "\<exists>l. run_state (deletePropagationPolicy test_export_controller svc) s = (None, s\<lparr>env := (env s)\<lparr>
      apiPolicies := filter (\<lambda>x. key_of x \<noteq> policy_of (key_of svc)) (apiPolicies (env s))\<rparr>, calls := l\<rparr>)" for s
    using find_keyD [of "policy_of (key_of svc)" "apiPolicies (env s)"] gone [of "policy_of (key_of svc)" "apiPolicies (env s)"]
    by (cases "find_key (policy_of (key_of svc)) (apiPolicies (env s))") (simp_all add: deletePropagationPolicy_def run_api key)
  from this [of "s\<lparr>env := (env s)\<lparr>apiExports := filter (\<lambda>x. key_of x \<noteq> key_of svc) (apiExports (env s))\<rparr>, calls := l\<rparr>"]
  show ?thesis by (auto simp: removeServiceExport_def first)
qed

text \<open>What one reconcile leaves: nothing but the ServiceExport and the policy of its service is touched.\<close>

definition touched :: "Testbed \<Rightarrow> key \<Rightarrow> ServiceExport list \<Rightarrow> Policy list \<Rightarrow> bool" where
  "touched w k xs ps \<longleftrightarrow>
     (\<forall>j. j \<noteq> k \<longrightarrow> (find_key j xs = None \<longleftrightarrow> find_key j (apiExports w) = None)) \<and>
     (\<forall>j. j \<noteq> policy_of k \<longrightarrow> find_key j ps = find_key j (apiPolicies w)) \<and>
     (\<forall>p. find_key (policy_of k) ps = Some p \<longrightarrow> placeable p) \<and>
     (find_key k (apiServices w) = None \<longrightarrow> xs = apiExports w \<and> ps = apiPolicies w)"

definition reconciled_to :: "Testbed \<Rightarrow> key \<Rightarrow> ServiceExport list \<Rightarrow> Policy list \<Rightarrow> bool" where
  "reconciled_to w k xs ps \<longleftrightarrow> touched w k xs ps \<and>
     (live_service w k \<longrightarrow> rightly_exported (w\<lparr>apiExports := xs, apiPolicies := ps\<rparr>) k)"

lemma exp_reconciled:
  assumes ok: "exp_ok s"
  shows "\<exists>xs ps l. exp_recon k s = (None, s\<lparr>env := (env s)\<lparr>apiExports := xs, apiPolicies := ps\<rparr>, calls := l\<rparr>) \<and>
    reconciled_to (env s) k xs ps"
proof -
  have placeable: "find_key (policy_of k) (apiPolicies (env s)) = Some p \<Longrightarrow> placeable p" for p
    using exp_okD(2) [OF ok] by blast
  consider (none) "find_key k (apiServices (env s)) = None"
    | (leaving) svc where "find_key k (apiServices (env s)) = Some svc" "DeletionTimestamp svc \<noteq> None"
    | (live) svc where "find_key k (apiServices (env s)) = Some svc" "DeletionTimestamp svc = None"
    by (cases "find_key k (apiServices (env s))") auto
  then show ?thesis
  proof cases
    case none
    then have "exp_recon k s = (None, s\<lparr>env := (env s)\<lparr>apiExports := apiExports (env s), apiPolicies := apiPolicies (env s)\<rparr>,
        calls := calls s @ [Reconciling ServiceKind k, Got ServiceKind k (Inl NotFound)]\<rparr>)"
      by (simp add: exp_recon_def ReconcileExport_def run_api)
    moreover have "reconciled_to (env s) k (apiExports (env s)) (apiPolicies (env s))"
      using placeable none by (simp add: reconciled_to_def touched_def live_service_def)
    ultimately show ?thesis by blast
  next
    case leaving
    then have "exp_recon k s = (None, s\<lparr>env := (env s)\<lparr>apiExports := apiExports (env s), apiPolicies := apiPolicies (env s)\<rparr>,
        calls := calls s @ [Reconciling ServiceKind k, Got ServiceKind k (Inr (ServiceObj svc))]\<rparr>)"
      by (simp add: exp_recon_def ReconcileExport_def run_api IsZero_def)
    moreover have "reconciled_to (env s) k (apiExports (env s)) (apiPolicies (env s))"
      using placeable leaving by (auto simp: reconciled_to_def touched_def live_service_def simp del: split_paired_All)
    ultimately show ?thesis by blast
  next
    case live
    have key: "key_of svc = k" using find_keyD [OF live(1)] by simp
    have caches: "mcis_in_cache (expDeps test_export_controller) (expClient test_export_controller) (apiMCIs (env s)) (env s)"
      "mcss_in_cache (expClient test_export_controller) (apiMCSs (env s)) (env s)"
      using mem_server_cached [of std_deps "env s"] mem_server_mcss [of std_deps "env s"] by (simp_all add: cached_def)
    have sets: "sets_ok (expDeps test_export_controller)" by (simp add: std_sets_ok)
    have read: "cGet (services (expClient test_export_controller)) k (env s) = (Inr svc, env s)" by (simp add: live)
    have name: "Namespace svc = fst k" "Name svc = snd k" using key by (auto simp: key_of_def)
    obtain qs where "run_state (ReconcileExport test_export_controller k) s = run_state (if exposed (expDeps test_export_controller)
          (apiMCIs (env s)) (apiMCSs (env s)) (Namespace svc) (Name svc)
        then ensureServiceExport test_export_controller svc else removeServiceExport test_export_controller svc)
        (s\<lparr>env := env s, calls := calls s @ Reconciling ServiceKind k # qs\<rparr>)"
      by (rule ReconcileExport_run [OF sets read live(2) caches])
    then have run: "exp_recon k s = run_state (if exposed_at (env s) k
        then ensureServiceExport test_export_controller svc else removeServiceExport test_export_controller svc)
        (s\<lparr>calls := calls s @ Reconciling ServiceKind k # qs\<rparr>)"
      by (simp add: exp_recon_def name)
    let ?s = "s\<lparr>calls := calls s @ Reconciling ServiceKind k # qs\<rparr>"
    show ?thesis
    proof (cases "exposed_at (env s) k")
      case True
      have "find_key (policy_of (key_of svc)) (apiPolicies (env ?s)) = Some p \<Longrightarrow> placeable p" for p
        using placeable key by simp
      from ensured_export [of svc ?s, OF this] obtain xs ps l where
        result: "exp_recon k s = (None, s\<lparr>env := (env s)\<lparr>apiExports := xs, apiPolicies := ps\<rparr>, calls := l\<rparr>)"
        and xs: "\<forall>j. find_key j xs = None \<longleftrightarrow> find_key j (apiExports (env s)) = None \<and> j \<noteq> k"
        and ps: "policies_ensured k (schedule (apiBindings (env s)) k) (apiPolicies (env s)) ps"
        using run True key by (auto simp del: split_paired_All)
      have "reconciled_to (env s) k xs ps"
        using ps xs live(1) True by (simp add: reconciled_to_def touched_def policies_ensured_def rightly_exported_def del: split_paired_All)
      then show ?thesis using result by blast
    next
      case False
      from removed_export [of svc ?s] obtain l where
        result: "exp_recon k s = (None, s\<lparr>env := (env s)\<lparr>apiExports := filter (\<lambda>x. key_of x \<noteq> k) (apiExports (env s)),
          apiPolicies := filter (\<lambda>x. key_of x \<noteq> policy_of k) (apiPolicies (env s))\<rparr>, calls := l\<rparr>)"
        using run False key by auto
      have "reconciled_to (env s) k (filter (\<lambda>x. key_of x \<noteq> k) (apiExports (env s))) (filter (\<lambda>x. key_of x \<noteq> policy_of k) (apiPolicies (env s)))"
        using live(1) False by (simp add: reconciled_to_def touched_def find_filter rightly_exported_def del: split_paired_All)
      then show ?thesis using result by blast
    qed
  qed
qed

lemma touched_kept:
  assumes ok: "exp_ok s" and w: "env w = (env s)\<lparr>apiExports := xs, apiPolicies := ps\<rparr>" and touched: "touched (env s) k xs ps"
  shows "exp_ok w" and "j \<noteq> k \<Longrightarrow> exp_settled s j \<Longrightarrow> exp_settled w j" and "exp_covers w e j = exp_covers s e j"
proof -
  have xs: "\<And>j. j \<noteq> k \<Longrightarrow> find_key j xs = None \<longleftrightarrow> find_key j (apiExports (env s)) = None"
    and ps: "\<And>j. j \<noteq> policy_of k \<Longrightarrow> find_key j ps = find_key j (apiPolicies (env s))"
    and place: "\<And>p. find_key (policy_of k) ps = Some p \<Longrightarrow> placeable p"
    and none: "find_key k (apiServices (env s)) = None \<Longrightarrow> xs = apiExports (env s) \<and> ps = apiPolicies (env s)"
    using touched unfolding touched_def by blast+
  show "j \<noteq> k \<Longrightarrow> exp_settled s j \<Longrightarrow> exp_settled w j"
    using xs [of j] ps [of "policy_of j"] by (simp add: exp_settled_def live_service_def rightly_exported_def w)
  show "exp_covers w e j = exp_covers s e j"
    unfolding exp_covers_def by (subst handle_cong [of w s]) (simp_all add: sought_def referred_def w)
  have "exports_kept (env w)"
    unfolding exports_kept_def
  proof (intro allI impI)
    fix j assume "find_key j (apiServices (env w)) = None"
    then have j: "find_key j (apiServices (env s)) = None" by (simp add: w)
    then have "find_key j (apiExports (env s)) = None" "find_key (policy_of j) (apiPolicies (env s)) = None"
      using exp_okD(1) [OF ok] unfolding exports_kept_def by blast+
    then show "find_key j (apiExports (env w)) = None \<and> find_key (policy_of j) (apiPolicies (env w)) = None"
      using j xs [of j] ps [of "policy_of j"] none by (cases "j = k") (simp_all add: w)
  qed
  moreover have "policies_placeable (env w)"
    unfolding policies_placeable_def
  proof (intro allI impI)
    fix j p assume "find_key (policy_of j) (apiPolicies (env w)) = Some p"
    then show "placeable p" using exp_okD(2) [OF ok, of j p] place ps [of "policy_of j"] by (cases "j = k") (simp_all add: w)
  qed
  ultimately show "exp_ok w" using ok by (simp add: exp_ok_def our_ingress_def w)
qed

lemma exp_recon_settles:
  assumes ok: "exp_ok s"
  shows "\<exists>w. exp_recon k s = (None, w) \<and> exp_settled w k \<and> exp_keeps_up s [] w"
proof -
  obtain xs ps l where run: "exp_recon k s = (None, s\<lparr>env := (env s)\<lparr>apiExports := xs, apiPolicies := ps\<rparr>, calls := l\<rparr>)"
    and to: "touched (env s) k xs ps"
    and right: "live_service (env s) k \<Longrightarrow> rightly_exported ((env s)\<lparr>apiExports := xs, apiPolicies := ps\<rparr>) k"
    using exp_reconciled [OF ok, of k] unfolding reconciled_to_def by blast
  let ?w = "s\<lparr>env := (env s)\<lparr>apiExports := xs, apiPolicies := ps\<rparr>, calls := l\<rparr>"
  have now: "exp_settled ?w k" using right by (simp add: exp_settled_def live_service_def)
  have env: "env ?w = (env s)\<lparr>apiExports := xs, apiPolicies := ps\<rparr>" by simp
  note kept = touched_kept [OF ok env to]
  have "exp_settled s j \<Longrightarrow> exp_settled ?w j" for j using kept(2) now by (cases "j = k") blast+
  then show ?thesis using run now kept(1,3) unfolding keeps_up_def by blast
qed

section \<open>A reconcile whose calls fail\<close>

definition exp_frame :: "(Testbed, call) world \<Rightarrow> key \<Rightarrow> (Testbed, call) world \<Rightarrow> bool" where
  "exp_frame s0 k s \<longleftrightarrow> (\<exists>xs ps. env s = (env s0)\<lparr>apiExports := xs, apiPolicies := ps\<rparr> \<and> touched (env s0) k xs ps)"

lemma exp_frame_calls [simp]: "exp_frame s0 k (s\<lparr>calls := l\<rparr>) = exp_frame s0 k s"
  by (simp add: exp_frame_def)

lemma exp_frame_start: "exp_ok s \<Longrightarrow> exp_frame s k s"
  unfolding exp_frame_def touched_def
  by (rule exI [of _ "apiExports (env s)"], rule exI [of _ "apiPolicies (env s)"]) (auto dest: exp_okD(2))

lemma exp_frame_exports:
  assumes "exp_frame s0 k s" and "find_key k (apiServices (env s0)) = Some svc"
    and "\<And>j. j \<noteq> k \<Longrightarrow> find_key j xs = None \<longleftrightarrow> find_key j (apiExports (env s)) = None"
  shows "exp_frame s0 k (s\<lparr>env := (env s)\<lparr>apiExports := xs\<rparr>\<rparr>)"
proof -
  obtain ys ps where s: "env s = (env s0)\<lparr>apiExports := ys, apiPolicies := ps\<rparr>" "touched (env s0) k ys ps"
    using assms(1) unfolding exp_frame_def by blast
  then have "touched (env s0) k xs ps" using assms(2,3) by (simp add: touched_def del: split_paired_All)
  then show ?thesis unfolding exp_frame_def using s(1) by (intro exI [of _ xs] exI [of _ ps]) simp
qed

lemma exp_frame_policies:
  assumes "exp_frame s0 k s" and "find_key k (apiServices (env s0)) = Some svc"
    and "\<And>j. j \<noteq> policy_of k \<Longrightarrow> find_key j ps = find_key j (apiPolicies (env s))"
    and "\<And>p. find_key (policy_of k) ps = Some p \<Longrightarrow> placeable p"
  shows "exp_frame s0 k (s\<lparr>env := (env s)\<lparr>apiPolicies := ps\<rparr>\<rparr>)"
proof -
  obtain xs qs where s: "env s = (env s0)\<lparr>apiExports := xs, apiPolicies := qs\<rparr>" "touched (env s0) k xs qs"
    using assms(1) unfolding exp_frame_def by blast
  then have "touched (env s0) k xs ps" using assms(2-4) by (simp add: touched_def del: split_paired_All)
  then show ?thesis unfolding exp_frame_def using s(1) by (intro exI [of _ xs] exI [of _ ps]) simp
qed

lemma exp_frame_placeable:
  assumes "exp_frame s0 k s" and "find_key (policy_of k) (apiPolicies (env s)) = Some p"
  shows "placeable p"
  using assms unfolding exp_frame_def touched_def by auto

lemma ensure_policy_frame:
  assumes svc: "find_key (key_of svc) (apiServices (env s0)) = Some svc"
  shows "leads (exp_frame s0 (key_of svc)) (ensure_policy (unreliable_export_controller \<phi>) svc) (\<lambda>_. exp_frame s0 (key_of svc))"
proof -
  let ?k = "key_of svc" and ?c = "unreliable_export_controller \<phi>"
  let ?I = "exp_frame s0 ?k"
  have key: "(Namespace svc, policyName (Name svc)) = policy_of ?k" by (simp add: policy_of_def key_of_def)
  have results: "leads ?I (getBindingClusterResults ?c svc) (\<lambda>_. ?I)"
    unfolding getBindingClusterResults_def unreliable_export_fields unreliable_server_simps mem_server_simps
    by (rule leads_bind [where R = "\<lambda>_. ?I"]) (auto intro!: leads_list leads_rules)
  have get: "leads ?I (api_get PolicyKind PolicyObj (policies (unreliable_server \<phi>)) (policy_of ?k))
      (\<lambda>r s. ?I s \<and> (\<forall>p. r = Inr p \<longrightarrow> placeable p \<and> key_of p = policy_of ?k))"
    unfolding unreliable_server_simps mem_server_simps
    by (rule leads_get) (auto dest: exp_frame_placeable find_keyD split: option.splits)
  have create: "leads ?I (api_create PolicyObj (policies (unreliable_server \<phi>))
      (createPropagationPolicyTemplate std_deps (policyName (Name svc)) svc names)) (\<lambda>_. ?I)" for names
    unfolding unreliable_server_simps mem_server_simps
  proof (rule leads_create)
    let ?p = "createPropagationPolicyTemplate std_deps (policyName (Name svc)) svc names"
    have p: "key_of ?p = policy_of ?k" "placeable ?p"
      by (simp_all add: createPropagationPolicyTemplate_def placeable_def key_of_def policy_of_def meta_literal_def ObjectMeta.defs)
    fix s :: "(Testbed, call) world" and e y
    assume s: "?I s" and none: "find_key (key_of ?p) (apiPolicies (env s)) = None"
    show "?I (s\<lparr>env := (env s)\<lparr>apiPolicies := apiPolicies (env s) @ [next_version ?p]\<rparr>,
        calls := calls s @ [Wrote CreateVerb (PolicyObj ?p) e]\<rparr>)"
      unfolding exp_frame_calls by (rule exp_frame_policies [OF s svc]) (use svc none p in \<open>auto simp: find_append split: option.splits\<close>)
  qed simp
  have update: "leads ?I (api_update PolicyObj (policies (unreliable_server \<phi>)) (place_on names a p)) (\<lambda>_. ?I)"
    if p: "placeable p \<and> key_of p = policy_of ?k" for names a p
    unfolding unreliable_server_simps mem_server_simps
  proof (rule leads_writes(1) [where v = UpdateVerb])
    let ?p = "place_on names a p"
    have p': "key_of ?p = policy_of ?k" "placeable ?p" "DeletionTimestamp ?p = None"
      using p by (simp_all add: place_on_def placeable_def key_of_def)
    fix s :: "(Testbed, call) world" and e y
    assume s: "?I s" and there: "stored_version ?p (apiPolicies (env s))"
    have "written ?p (apiPolicies (env s)) = put_key (next_version ?p) (apiPolicies (env s))"
      by (simp add: written_def p'(3))
    then show "?I (s\<lparr>env := (env s)\<lparr>apiPolicies := written ?p (apiPolicies (env s))\<rparr>,
        calls := calls s @ [Wrote UpdateVerb (PolicyObj ?p) e]\<rparr>)"
      unfolding exp_frame_calls by (intro exp_frame_policies [OF s svc]) (use there p' in \<open>auto simp: find_put_key stored_version_def split: if_splits\<close>)
  qed simp_all
  show ?thesis
    unfolding ensure_policy_def unreliable_export_fields key Let_def
  proof (rule leads_bind [OF results], rule leads_cases(2), goal_cases)
    case (2 r names)
    show ?case
    proof (rule leads_if, goal_cases)
      case 2
      show ?case
      proof (rule leads_bind [OF get], rule leads_cases(2), goal_cases)
        case (1 r e)
        have "leads ?I (if e \<noteq> NotFound then ret (Some e)
               else do {
                 (err, _) \<leftarrow> api_create PolicyObj (policies (unreliable_server \<phi>))
                   (createPropagationPolicyTemplate std_deps (policyName (Name svc)) svc names);
                 ret err }) (\<lambda>_. ?I)"
          by (auto intro!: leads_rules leads_bind [where R = "\<lambda>_. ?I"] create simp del: unreliable_server_simps)
        then show ?case by (rule leads_consequence) auto
      next
        case (2 r p)
        have "leads ?I (case PlacementAffinity (SpecPlacement (policySpec p)) of
                  None \<Rightarrow> ret (Some Panic)
                | Some affinity \<Rightarrow>
                    if SemanticStrings std_deps (ClusterNames affinity) names then ret None
                    else do {
                      (err, _) \<leftarrow> api_update PolicyObj (policies (unreliable_server \<phi>)) (place_on names affinity p);
                      ret err }) (\<lambda>_. ?I)" if "placeable p \<and> key_of p = policy_of ?k"
          by (auto intro!: leads_rules leads_bind [where R = "\<lambda>_. ?I"] update [OF that] simp del: unreliable_server_simps)
        from leads_consequence [OF this] show ?case
          by (rule leads_known [where c = "placeable p \<and> key_of p = policy_of ?k", rotated]) (simp_all add: 2)
      qed
    qed (auto intro!: leads_rules)
  qed (auto intro!: leads_rules)
qed

lemma ensureServiceExport_frame:
  assumes svc: "find_key (key_of svc) (apiServices (env s0)) = Some svc"
  shows "leads (exp_frame s0 (key_of svc)) (ensureServiceExport (unreliable_export_controller \<phi>) svc) (\<lambda>_. exp_frame s0 (key_of svc))"
proof -
  let ?I = "exp_frame s0 (key_of svc)" and ?x = "createServiceExportTemplate std_deps svc"
  have x: "key_of ?x = key_of svc" by (simp add: createServiceExportTemplate_def meta_literal_def key_of_def)
  have get: "leads ?I (api_get ExportKind ExportObj (exports (unreliable_server \<phi>)) (Namespace svc, Name svc)) (\<lambda>_. ?I)"
    unfolding unreliable_server_simps mem_server_simps by (rule leads_get) simp
  have create: "leads ?I (api_create ExportObj (exports (unreliable_server \<phi>)) ?x) (\<lambda>_. ?I)"
    unfolding unreliable_server_simps mem_server_simps
    by (rule leads_create) (use x in \<open>auto intro!: exp_frame_exports [OF _ svc] simp: find_append split: option.splits\<close>)
  show ?thesis
    unfolding ensureServiceExport_def unreliable_export_fields
    by (rule leads_bind [OF get], rule leads_cases(2), rule leads_if, rule leads_ret, assumption,
        rule leads_bind [OF create]) (auto intro!: leads_rules ensure_policy_frame [OF svc])
qed

lemma removeServiceExport_frame:
  assumes svc: "find_key (key_of svc) (apiServices (env s0)) = Some svc"
  shows "leads (exp_frame s0 (key_of svc)) (removeServiceExport (unreliable_export_controller \<phi>) svc) (\<lambda>_. exp_frame s0 (key_of svc))"
proof -
  let ?k = "key_of svc" and ?c = "unreliable_export_controller \<phi>"
  let ?I = "exp_frame s0 ?k"
  have key: "(Namespace svc, policyName (Name svc)) = policy_of ?k" "(Namespace svc, Name svc) = ?k"
    by (simp_all add: policy_of_def key_of_def)
  have get: "leads ?I (api_get ExportKind ExportObj (exports (unreliable_server \<phi>)) ?k) (\<lambda>r s. ?I s \<and> (\<forall>x. r = Inr x \<longrightarrow> key_of x = ?k))"
    "leads ?I (api_get PolicyKind PolicyObj (policies (unreliable_server \<phi>)) (policy_of ?k)) (\<lambda>r s. ?I s \<and> (\<forall>x. r = Inr x \<longrightarrow> key_of x = policy_of ?k))"
    unfolding unreliable_server_simps mem_server_simps
    by (rule leads_get, auto dest: find_keyD split: option.splits)+
  have delete: "key_of x = ?k \<Longrightarrow> leads ?I (api_delete ExportObj (exports (unreliable_server \<phi>)) x) (\<lambda>_. ?I)"
    "key_of p = policy_of ?k \<Longrightarrow> leads ?I (api_delete PolicyObj (policies (unreliable_server \<phi>)) p) (\<lambda>_. ?I)" for x p
    unfolding unreliable_server_simps mem_server_simps
    by (rule leads_delete, auto intro!: exp_frame_exports [OF _ svc] exp_frame_policies [OF _ svc] simp: find_filter split: if_splits)+
  have export: "leads ?I (deleteServiceExport ?c svc) (\<lambda>_. ?I)"
    unfolding deleteServiceExport_def unreliable_export_fields key
  proof (rule leads_bind [OF get(1)], rule leads_cases(2), goal_cases)
    case (2 r x)
    have "leads ?I (do { err \<leftarrow> api_delete ExportObj (exports (unreliable_server \<phi>)) x;
        if err \<noteq> None \<and> err \<noteq> Some NotFound then ret err else ret None }) (\<lambda>_. ?I)" if "key_of x = ?k"
      by (rule leads_bind [OF delete(1) [OF that]]) (auto intro!: leads_rules)
    from leads_consequence [OF this] show ?case
      by (rule leads_known [where c = "key_of x = ?k", rotated]) (simp_all add: 2)
  qed (auto intro!: leads_rules)
  have policy: "leads ?I (deletePropagationPolicy ?c svc) (\<lambda>_. ?I)"
    unfolding deletePropagationPolicy_def unreliable_export_fields key
  proof (rule leads_bind [OF get(2)], rule leads_cases(2), goal_cases)
    case (2 r x)
    have "leads ?I (do { err \<leftarrow> api_delete PolicyObj (policies (unreliable_server \<phi>)) x;
        if err \<noteq> None \<and> err \<noteq> Some NotFound then ret err else ret None }) (\<lambda>_. ?I)" if "key_of x = policy_of ?k"
      by (rule leads_bind [OF delete(2) [OF that]]) (auto intro!: leads_rules)
    from leads_consequence [OF this] show ?case
      by (rule leads_known [where c = "key_of x = policy_of ?k", rotated]) (simp_all add: 2)
  qed (auto intro!: leads_rules)
  show ?thesis
    unfolding removeServiceExport_def
    by (rule leads_bind [OF export], rule leads_if, rule leads_ret, assumption, rule leads_bind [OF policy]) (auto intro!: leads_rules)
qed

lemma ReconcileExport_frame:
  "leads (exp_frame s0 k) (ReconcileExport (unreliable_export_controller \<phi>) k) (\<lambda>_. exp_frame s0 k)"
proof -
  let ?c = "unreliable_export_controller \<phi>" and ?I = "exp_frame s0 k"
  have get: "leads ?I (api_get ServiceKind ServiceObj (services (unreliable_server \<phi>)) k)
      (\<lambda>r s. ?I s \<and> (\<forall>svc. r = Inr svc \<longrightarrow> find_key k (apiServices (env s0)) = Some svc \<and> key_of svc = k))"
    unfolding unreliable_server_simps mem_server_simps
    by (rule leads_get) (auto simp: exp_frame_def dest: find_keyD split: option.splits)
  have need: "leads ?I (needEnsureServiceExport ?c ns n) (\<lambda>_. ?I)" for ns n
    unfolding needEnsureServiceExport_def unreliable_export_fields unreliable_server_simps mem_server_simps
    by (rule leads_bind [where R = "\<lambda>_. ?I"], rule leads_list, simp, rule leads_cases(2), rule leads_ret, assumption,
        rule leads_if, rule leads_ret, assumption, rule leads_bind [where R = "\<lambda>_. ?I"], rule leads_get)
      (auto intro!: leads_rules)
  show ?thesis
    unfolding ReconcileExport_def unreliable_export_fields
  proof (rule leads_bind [where R = "\<lambda>_. ?I"], rule leads_note, simp, rule leads_bind [OF get], rule leads_cases(2), goal_cases)
    case (2 _ r svc)
    have "leads ?I (if \<not> IsZero (DeletionTimestamp svc) then ret None
         else do {
           r \<leftarrow> needEnsureServiceExport ?c (Namespace svc) (Name svc);
           case r of
             Inl err \<Rightarrow> ret (Some err)
           | Inr needEnsure \<Rightarrow> if needEnsure then ensureServiceExport ?c svc else removeServiceExport ?c svc }) (\<lambda>_. ?I)"
      if k: "find_key k (apiServices (env s0)) = Some svc \<and> key_of svc = k"
    proof -
      have "leads ?I (ensureServiceExport ?c svc) (\<lambda>_. ?I)" "leads ?I (removeServiceExport ?c svc) (\<lambda>_. ?I)"
        using ensureServiceExport_frame [of svc s0 \<phi>] removeServiceExport_frame [of svc s0 \<phi>] k by simp_all
      then show ?thesis by (auto intro!: leads_rules leads_bind [OF need])
    qed
    from leads_consequence [OF this] show ?case
      by (rule leads_known [where c = "find_key k (apiServices (env s0)) = Some svc \<and> key_of svc = k", rotated]) (simp_all add: 2)
  qed (auto intro!: leads_rules)
qed

lemma exp_hampered_harmless:
  assumes ok: "exp_ok s" and run: "exp_hampers k s w"
  shows "harmless exp_ok exp_settled exp_covers (\<lambda>_. (=)) k s w"
proof -
  obtain \<phi> e where "run_state (ReconcileExport (unreliable_export_controller \<phi>) k) s = (Some e, w)"
    using run by (auto simp: exp_hampers_def)
  from leadsD [OF ReconcileExport_frame this exp_frame_start [OF ok]] obtain xs ps
    where w: "env w = (env s)\<lparr>apiExports := xs, apiPolicies := ps\<rparr>" "touched (env s) k xs ps"
    unfolding exp_frame_def by blast
  from touched_kept [OF ok this] show ?thesis by (intro harmless_oneI) blast+
qed

lemma exp_init_good:
  assumes "exp_init s"
  shows "exp_ok s" and "exp_settled s k"
  using assms by (simp_all add: exp_init_def exp_ok_def exports_kept_def policies_placeable_def exp_settled_def live_service_def)

interpretation exp_loop: event_loop exp_init exp_others exp_hampers exp_handle exp_recon exp_ok exp_settled exp_covers "\<lambda>_. (=)"
proof unfold_locales
  show "exp_init w \<Longrightarrow> exp_ok w" "exp_init w \<Longrightarrow> exp_settled w i" for w i by (rule exp_init_good; assumption)+
  show "exp_ok w \<Longrightarrow> exp_others w es w' \<Longrightarrow> exp_keeps_up w es w'" for w es w' by (rule exp_others_kept_up)
  show "exp_ok w \<Longrightarrow> exp_hampers k w w' \<Longrightarrow> harmless exp_ok exp_settled exp_covers (\<lambda>_. (=)) k w w'" for k w w'
    by (rule exp_hampered_harmless)
  show "exp_ok w \<Longrightarrow> exp_covers w e i \<Longrightarrow> exp_settled w i \<or> (\<exists>k \<in> set (exp_handle e w). k = i)" for w e i
    by (simp add: exp_covers_def)
  show "exp_ok w \<Longrightarrow> \<exists>w'. exp_recon k w = (None, w') \<and> (\<forall>i. k = i \<longrightarrow> exp_settled w' i) \<and> exp_keeps_up w [] w'" for w k
    using exp_recon_settles [of w k] by metis
qed

section \<open>A sample run\<close>

text \<open>
  A service is created, bound to clusters and exposed by an ingress; the events arrive and the key is
  reconciled.
\<close>

definition class_world :: "(Testbed, call) world" where
  "class_world = \<lparr>env = empty_testbed\<lparr>apiClasses := [sample_class]\<rparr>, calls = []\<rparr>"

definition exp_events :: "exp_watched list" where
  "exp_events = [ExpWatchService (CreateEvent front_service), ExpWatchBinding (CreateEvent front_binding),
     ExpWatchMCI (CreateEvent sample_mci)]"

definition exp_created :: "((Testbed, call) world, exp_watched, key) loop" where
  "exp_created = \<lparr>loopWorld = class_world\<lparr>env := (env class_world)\<lparr>apiServices := [front_service],
       apiBindings := [front_binding], apiMCIs := [sample_mci]\<rparr>\<rparr>,
     loopEvents = exp_events, loopQueue = []\<rparr>"

definition exp_rested :: "((Testbed, call) world, exp_watched, key) loop" where
  "exp_rested = process exp_recon (''shop'', ''front'')
     (deliver exp_handle (exp_events ! 2) [] (deliver exp_handle (exp_events ! 1) [exp_events ! 2]
       (deliver exp_handle (exp_events ! 0) [exp_events ! 1, exp_events ! 2] exp_created)))"

lemma class_world_empty:
  "exp_init class_world" "apiClasses (env class_world) = [sample_class]"
  "apiServices (env class_world) = []" "apiMCIs (env class_world) = []" "apiBindings (env class_world) = []"
  "apiExports (env class_world) = []" "apiPolicies (env class_world) = []" "apiMCSs (env class_world) = []"
  by (simp_all add: exp_init_def class_world_def empty_testbed_def)

lemma sample_export_objects:
  "local_binding front_binding" "binds k front_binding \<longleftrightarrow> k = (''shop'', ''front'')"
  "apiClasses w = [sample_class] \<Longrightarrow> our_ingress w sample_mci" "refers_to_service sample_mci n \<longleftrightarrow> n = ''front''"
  "elems (getClusterResults std_deps (rbSpec front_binding)) = [''m1'', ''m2'']"
proof -
  show "our_ingress w sample_mci" if "apiClasses w = [sample_class]"
    using sample_mci_ours sample_mci_refers that by (simp add: our_ingress_def)
qed (auto simp: moved_mci_facts local_binding_def binds_def front_binding_def getClusterResults_def meta_literal_def ObjectMeta.defs prod_eq_iff)

lemma exp_created_runs: "exp_runs exp_created"
proof -
  let ?s = "class_world\<lparr>env := (env class_world)\<lparr>apiServices := [front_service]\<rparr>\<rparr>"
  let ?b = "?s\<lparr>env := (env ?s)\<lparr>apiBindings := [front_binding]\<rparr>\<rparr>"
  let ?m = "?b\<lparr>env := (env ?b)\<lparr>apiMCIs := [sample_mci]\<rparr>\<rparr>"
  have "exp_others class_world [exp_events ! 0] ?s"
    using exp_others.svc_created [of front_service class_world] by (simp add: exp_events_def class_world_empty)
  moreover have "exp_others ?s [exp_events ! 1] ?b"
    using exp_others.bound [of front_binding ?s] by (simp add: exp_events_def class_world_empty sample_export_objects)
  moreover have "exp_others ?b [exp_events ! 2] ?m"
    using exp_others.mci_created [of sample_mci ?b] by (simp add: exp_events_def class_world_empty sample_export_objects)
  ultimately have "exp_runs (announce [exp_events ! 2] ?m (announce [exp_events ! 1] ?b (announce [exp_events ! 0] ?s
      \<lparr>loopWorld = class_world, loopEvents = [], loopQueue = []\<rparr>)))"
    by (intro loop_runs.moved loop_runs.start class_world_empty(1)) simp_all
  then show ?thesis by (simp add: announce_def exp_created_def exp_events_def)
qed

lemma exp_rested_runs: "exp_runs exp_rested" "at_rest exp_rested"
  "find_key (''shop'', ''front'') (apiServices (env (loopWorld exp_rested))) = Some front_service"
  "exposed_at (env (loopWorld exp_rested)) (''shop'', ''front'')"
  "apiBindings (env (loopWorld exp_rested)) = [front_binding]"
proof -
  let ?e = "\<lambda>i. exp_events ! i" and ?k = "(''shop'', ''front'')"
  let ?A = "deliver exp_handle (?e 0) [?e 1, ?e 2] exp_created"
  let ?B = "deliver exp_handle (?e 1) [?e 2] ?A"
  let ?C = "deliver exp_handle (?e 2) [] ?B"
  have world: "apiClasses (env (loopWorld exp_created)) = [sample_class]" "loopQueue exp_created = []"
      "loopEvents exp_created = [?e 0, ?e 1, ?e 2]" "apiMCIs (env (loopWorld exp_created)) = [sample_mci]"
      "apiServices (env (loopWorld exp_created)) = [front_service]" "apiBindings (env (loopWorld exp_created)) = [front_binding]"
    by (simp_all add: exp_created_def class_world_empty exp_events_def)
  have ours: "our_ingress (env (loopWorld exp_created)) sample_mci" by (rule sample_export_objects(3) [OF world(1)])
  have handled: "set (exp_handle (?e 0) (loopWorld exp_created)) \<subseteq> {?k}" "exp_handle (?e 1) (loopWorld exp_created) = [?k]"
      "set (exp_handle (?e 2) (loopWorld exp_created)) = {?k}"
    using handle_ingress(1) [OF ours] handle_binding(1) [of front_binding ?k "loopWorld exp_created"]
    by (auto simp: exp_events_def handle_service sample_export_objects)
  have C: "set (loopQueue ?C) = {?k}" "loopWorld ?C = loopWorld exp_created" "loopEvents ?C = []"
    using handled by (auto simp: world(2))
  have "work_step exp_handle exp_recon exp_created ?A"
    using work_step.delivered [of exp_created "[]" "?e 0" "[?e 1, ?e 2]"] world(3) by simp
  moreover have "work_step exp_handle exp_recon ?A ?B"
    using work_step.delivered [of ?A "[]" "?e 1" "[?e 2]"] by simp
  moreover have "work_step exp_handle exp_recon ?B ?C"
    using work_step.delivered [of ?B "[]" "?e 2" "[]"] by simp
  moreover have "work_step exp_handle exp_recon ?C exp_rested"
    unfolding exp_rested_def by (rule work_step.reconciled) (unfold C(1), simp)
  ultimately show "exp_runs exp_rested" using exp_created_runs by (blast intro: loop_runs.work)
  have "exp_ok (loopWorld exp_created)" by (rule exp_loop.runs_ok [OF exp_created_runs])
  from exp_reconciled [OF this, of ?k] obtain xs ps l where
    w: "exp_recon ?k (loopWorld ?C) = (None, (loopWorld exp_created)\<lparr>env := (env (loopWorld exp_created))\<lparr>apiExports := xs, apiPolicies := ps\<rparr>, calls := l\<rparr>)"
    unfolding C(2) by blast
  moreover have "removeAll ?k (loopQueue ?C) = []"
    unfolding removeAll_filter_not_eq filter_empty_conv C(1) by simp
  ultimately have rested: "loopWorld exp_rested = (loopWorld exp_created)\<lparr>env := (env (loopWorld exp_created))\<lparr>apiExports := xs, apiPolicies := ps\<rparr>, calls := l\<rparr>"
      "at_rest exp_rested"
    using C(3) by (simp_all add: exp_rested_def process_def at_rest_def del: loop_fields)
  then show "at_rest exp_rested" by simp
  show "find_key ?k (apiServices (env (loopWorld exp_rested))) = Some front_service"
    "apiBindings (env (loopWorld exp_rested)) = [front_binding]"
    by (simp_all add: rested(1) world)
  show "exposed_at (env (loopWorld exp_rested)) ?k"
    using ours by (simp add: exposed_def rested(1) world our_ingress_def sample_export_objects(4))
qed

section \<open>What holds of the system\<close>



end
