(* ===== verification/ErrorCauses.thy ===== *)
theory ErrorCauses
  imports MciCloud McsCloud CrdInstallation ServiceExport SvcLocations
begin

text \<open>
  Where the errors of a reconcile come from: no controller makes up an error, and none reports an
  error of an earlier reconcile. \<open>explained E get m\<close> says that the error \<open>get\<close> finds in the result of
  \<open>m\<close> is a panic, one of \<open>E\<close>, or the error of a call that \<open>m\<close> made; the rules follow the structure
  of a program.
\<close>

fun call_error :: "call \<Rightarrow> error option" where
  "call_error (Reconciling kd k) = None"
| "call_error (Got kd k r) = error_of r"
| "call_error (Listed kd opts e) = e"
| "call_error (Wrote v x e) = e"
| "call_error (LBGot x ex e) = e"
| "call_error (LBEnsured x e) = e"
| "call_error (LBUpdated x e) = e"
| "call_error (LBDeleted x e) = e"
| "call_error (Recorded x m) = None"

definition explained :: "error set \<Rightarrow> ('r \<Rightarrow> error option) \<Rightarrow> ('w, 'r) io \<Rightarrow> bool" where
  "explained E get m \<longleftrightarrow> (\<forall>s. \<exists>cs. calls (snd (run_state m s)) = calls s @ cs \<and>
     (\<forall>e. get (fst (run_state m s)) = Some e \<longrightarrow> e = Panic \<or> e \<in> E \<or> (\<exists>c \<in> set cs. call_error c = Some e)))"

named_theorems explained_rules \<open>where the errors of a program come from\<close>

lemma explainedD:
  assumes "explained E get m" and "run_state m s = (r, s')"
  shows "\<exists>cs. calls s' = calls s @ cs \<and>
    (\<forall>e. get r = Some e \<longrightarrow> e = Panic \<or> e \<in> E \<or> (\<exists>c \<in> set cs. call_error c = Some e))"
  using spec [OF assms(1) [unfolded explained_def], of s] assms(2) by simp

lemma explainedI:
  assumes "\<And>s r s'. run_state m s = (r, s') \<Longrightarrow> \<exists>cs. calls s' = calls s @ cs \<and>
    (\<forall>e. get r = Some e \<longrightarrow> e = Panic \<or> e \<in> E \<or> (\<exists>c \<in> set cs. call_error c = Some e))"
  shows "explained E get m"
  unfolding explained_def using assms by (metis prod.collapse)

lemma explained_ret [explained_rules]:
  "(\<And>e. get x = Some e \<Longrightarrow> e = Panic \<or> e \<in> E) \<Longrightarrow> explained E get (ret x)"
  by (rule explainedI) auto

lemma explained_bind [explained_rules]:
  assumes "explained E g m" and "\<And>x. explained (E \<union> set_option (g x)) get (n x)"
  shows "explained E get (m \<bind> n)"
proof (rule explainedI)
  fix s r s' assume run: "run_state (m \<bind> n) s = (r, s')"
  obtain x s1 where m: "run_state m s = (x, s1)" by fastforce
  with run have n: "run_state (n x) s1 = (r, s')" by simp
  from explainedD [OF assms(1) m] obtain cs where cs: "calls s1 = calls s @ cs"
    "\<And>e. g x = Some e \<Longrightarrow> e = Panic \<or> e \<in> E \<or> (\<exists>c \<in> set cs. call_error c = Some e)" by blast
  from explainedD [OF assms(2) n] obtain ds where ds: "calls s' = calls s1 @ ds"
    "\<And>e. get r = Some e \<Longrightarrow> e = Panic \<or> e \<in> E \<union> set_option (g x) \<or> (\<exists>c \<in> set ds. call_error c = Some e)"
    by blast
  have "e = Panic \<or> e \<in> E \<or> (\<exists>c \<in> set (cs @ ds). call_error c = Some e)" if "get r = Some e" for e
    using ds(2) [OF that] cs(2) [of e] by auto
  with cs(1) ds(1) show "\<exists>cs. calls s' = calls s @ cs \<and>
      (\<forall>e. get r = Some e \<longrightarrow> e = Panic \<or> e \<in> E \<or> (\<exists>c \<in> set cs. call_error c = Some e))"
    by (intro exI [of _ "cs @ ds"]) simp
qed

lemma explained_if [explained_rules]:
  "(b \<Longrightarrow> explained E get m) \<Longrightarrow> (\<not> b \<Longrightarrow> explained E get n) \<Longrightarrow> explained E get (if b then m else n)"
  by simp

lemma explained_sum [explained_rules]:
  "(\<And>e. r = Inl e \<Longrightarrow> explained E get (m e)) \<Longrightarrow> (\<And>x. r = Inr x \<Longrightarrow> explained E get (n x)) \<Longrightarrow>
    explained E get (case r of Inl e \<Rightarrow> m e | Inr x \<Rightarrow> n x)"
  by (cases r) simp_all

lemma explained_option [explained_rules]:
  "(r = None \<Longrightarrow> explained E get m) \<Longrightarrow> (\<And>x. r = Some x \<Longrightarrow> explained E get (n x)) \<Longrightarrow>
    explained E get (case r of None \<Rightarrow> m | Some x \<Rightarrow> n x)"
  by (cases r) simp_all

lemma explained_prod [explained_rules]:
  "(\<And>a b. r = (a, b) \<Longrightarrow> explained E get (m a b)) \<Longrightarrow> explained E get (case r of (a, b) \<Rightarrow> m a b)"
  by (cases r) simp

lemma explained_Let [explained_rules]: "explained E get (m x) \<Longrightarrow> explained E get (Let x m)"
  by simp

lemma explained_call:
  "(\<And>r e. get r = Some e \<Longrightarrow> call_error (entry r) = Some e) \<Longrightarrow> explained E get (lift_call f entry)"
  by (rule explainedI) (auto simp: run_lift_call split: prod.splits)

lemma explained_api [explained_rules]:
  "explained E error_of (api_get kd mk kc k)" "explained E error_of (api_list kd kc opts)"
  "explained E fst (api_create mk kc x)" "explained E fst (api_update mk kc x)"
  "explained E fst (api_patch mk kc x y)" "explained E fst (api_status_update mk kc x)"
  "explained E id (api_delete mk kc x)"
  "explained E (snd \<circ> snd) (lb_get mk b x)" "explained E snd (lb_ensure mk b x)"
  "explained E snd (lb_update mk b x)" "explained E id (lb_delete mk b x)"
  unfolding api_defs lb_defs by (rule explained_call; auto elim!: error_of.elims)+

lemma explained_note [explained_rules]: "explained E (\<lambda>_. None) (note_call c)"
  by (rule explainedI) (auto simp: run_note_call)

lemma explained_retry:
  assumes "retry_ok retry" and "\<And>v. explained E fst (fn v)"
  shows "explained E fst (retry fn v)"
proof (rule explainedI)
  fix s r s' assume "run_state (retry fn v) s = (r, s')"
  then have "retry_run fn v s (r, s')" using assms(1) by (metis retry_ok_def)
  then show "\<exists>cs. calls s' = calls s @ cs \<and>
      (\<forall>e. fst r = Some e \<longrightarrow> e = Panic \<or> e \<in> E \<or> (\<exists>c \<in> set cs. call_error c = Some e))"
  proof (induction v s "(r, s')" rule: retry_run.induct)
    case (stop v s)
    then show ?case using explainedD [OF assms(2)] by metis
  next
    case (give_up v s)
    then show ?case using explainedD [OF assms(2)] by metis
  next
    case (again v s v' s1)
    from explainedD [OF assms(2) again(1)] obtain cs where "calls s1 = calls s @ cs" by blast
    moreover from again obtain ds where "calls s' = calls s1 @ ds"
      "\<forall>e. fst r = Some e \<longrightarrow> e = Panic \<or> e \<in> E \<or> (\<exists>c \<in> set ds. call_error c = Some e)" by blast
    ultimately show ?case by (intro exI [of _ "cs @ ds"]) auto
  qed
qed

section \<open>The controllers\<close>

lemma explained_ReconcileMCI:
  assumes "mci_contract c"
  shows "explained {} id (ReconcileMCI c req)"
proof -
  have "explained E fst (mci_status_attempt c st v)" for E st v
    unfolding mci_status_attempt_def by (rule explained_rules | (auto) [1])+
  note status_attempt = explained_retry [OF mci_contractD(2) [OF assms] this]
  have "explained E fst (block_attempt c k cs v)" for E k cs v
    unfolding block_attempt_def by (rule explained_rules | (auto) [1])+
  note attempt = explained_retry [OF mci_contractD(3) [OF assms] this]
  have status: "explained E id (updateMCIStatus c mci st)" for E mci st
    unfolding updateMCIStatus_def by (rule explained_rules status_attempt | (auto) [1])+
  have block: "explained E fst (updateMCITrafficBlockClusters c mci)" for E mci
    unfolding updateMCITrafficBlockClusters_def by (rule explained_rules attempt | (auto) [1])+
  have sync: "explained E id (sync_balancer c mci)" for E mci
    unfolding sync_balancer_def handleMCIUpdate_def handleMCICreate_def
    by (rule explained_rules block status | (auto) [1])+
  show ?thesis
    unfolding ReconcileMCI_def handleMCIDelete_def handleMCICreateOrUpdate_def
    by (rule explained_rules sync | (auto) [1])+
qed

lemma explained_ReconcileMCS:
  assumes "mcs_contract c"
  shows "explained {} id (ReconcileMCS c req)"
proof -
  have "explained E fst (mcs_status_attempt c st v)" for E st v
    unfolding mcs_status_attempt_def by (rule explained_rules | (auto) [1])+
  note attempt = explained_retry [OF mcs_contractD(2) [OF assms] this]
  have status: "explained E id (updateMCSStatus c mcs st)" for E mcs st
    unfolding updateMCSStatus_def by (rule explained_rules attempt | (auto) [1])+
  have sync: "explained E id (sync_mcs_balancer c mcs)" for E mcs
    unfolding sync_mcs_balancer_def handleMCSUpdate_def handleMCSCreate_def
    by (rule explained_rules status | (auto) [1])+
  have delete: "explained E id (delete_mcs_balancer c mcs)" for E mcs
    unfolding delete_mcs_balancer_def by (rule explained_rules | (auto) [1])+
  have delete: "explained E id (handleMCSDelete c mcs)" for E mcs
    unfolding handleMCSDelete_def release_mcs_def
    by (rule explained_rules delete | (auto) [1])+
  show ?thesis
    unfolding ReconcileMCS_def handleMCSCreateOrUpdate_def
    by (rule explained_rules sync delete | (auto) [1])+
qed

lemma explained_ReconcileLocations:
  assumes "retry_ok (locRetry c)"
  shows "explained {} id (ReconcileLocations c req)"
proof -
  have "explained E fst (location_attempt c k locs v)" for E k locs v
    unfolding location_attempt_def by (rule explained_rules | (auto) [1])+
  note attempt = explained_retry [OF assms this]
  have locate: "explained E error_of (locate_services c ns names locs)" for E ns names locs
  proof (induction names arbitrary: E locs)
    case (Cons n names)
    show ?case unfolding locate_services.simps by (rule explained_rules Cons.IH | (auto) [1])+
  qed (auto intro: explained_ret)
  have calculate: "explained E error_of (calculateServiceLocations c mci)" for E mci
    unfolding calculateServiceLocations_def by (rule explained_rules locate | (auto) [1])+
  show ?thesis
    unfolding ReconcileLocations_def by (rule explained_rules attempt calculate | (auto) [1])+
qed

lemma explained_ReconcileCrd: "explained {} id (ReconcileCrd c req)"
proof -
  have sync: "explained E id (syncClusterPropagationPolicy c n t)" for E n t
    unfolding syncClusterPropagationPolicy_def createClusterPropagationPolicy_def store_names_def Let_def
    by (cases t; simp only: eventType.case; (rule explained_rules | (auto) [1])+)
  show ?thesis
    unfolding ReconcileCrd_def by (rule explained_rules sync | (auto) [1])+
qed

lemma explained_ReconcileExport: "explained {} id (ReconcileExport c req)"
proof -
  have clusters: "explained E error_of (getBindingClusterResults c svc)" for E svc
    unfolding getBindingClusterResults_def by (rule explained_rules | (auto) [1])+
  have policy: "explained E id (ensure_policy c svc)" for E svc
    unfolding ensure_policy_def by (rule explained_rules clusters | (auto) [1])+
  have ensure: "explained E id (ensureServiceExport c svc)" for E svc
    unfolding ensureServiceExport_def by (rule explained_rules policy | (auto) [1])+
  have need: "explained E error_of (needEnsureServiceExport c ns n)" for E ns n
    unfolding needEnsureServiceExport_def by (rule explained_rules | (auto) [1])+
  have deletes: "explained E id (deleteServiceExport c svc)" "explained E id (deletePropagationPolicy c svc)" for E svc
    unfolding deleteServiceExport_def deletePropagationPolicy_def
    by (rule explained_rules | (auto) [1])+
  have remove: "explained E id (removeServiceExport c svc)" for E svc
    unfolding removeServiceExport_def by (rule explained_rules deletes | (auto) [1])+
  show ?thesis
    unfolding ReconcileExport_def by (rule explained_rules ensure need remove | (auto) [1])+
qed

section \<open>Properties\<close>

text \<open>
  C22: the five reconciles make up no error and swallow none they end with: an error that a reconcile
  returns, unless it is a panic, is the error of a call that this reconcile made.
\<close>

theorem reconcile_errors_come_from_calls:
  assumes "mci_contract c1" and "mcs_contract c2" and "retry_ok (locRetry c3)"
    and "m \<in> {ReconcileMCI c1 req, ReconcileMCS c2 req, ReconcileLocations c3 req, ReconcileCrd c4 req,
      ReconcileExport c5 req}"
    and "run_state m s = (Some e, s')" and "e \<noteq> Panic"
  shows "\<exists>cs x. calls s' = calls s @ cs \<and> x \<in> set cs \<and> call_error x = Some e"
proof -
  have "explained {} id m"
    using assms(4) explained_ReconcileMCI [OF assms(1), of req] explained_ReconcileMCS [OF assms(2), of req]
      explained_ReconcileLocations [OF assms(3), of req] explained_ReconcileCrd [of c4 req]
      explained_ReconcileExport [of c5 req] by auto
  from explainedD [OF this assms(5)] show ?thesis using assms(6) by auto
qed

definition failing_crd_controller :: "Testbed CrdController" where
  "failing_crd_controller = test_crd_controller\<lparr>crdClient := (mem_server std_deps)\<lparr>clusters :=
     (clusters (mem_server std_deps))\<lparr>cGet := \<lambda>k w. (Inl (APIError ''timeout''), w)\<rparr>\<rparr>\<rparr>"

lemma reconcile_errors_come_from_calls_witness:
  "\<exists>cs x. calls (snd (run_state (ReconcileCrd failing_crd_controller ('''', ''m1'')) \<lparr>env = empty_testbed, calls = []\<rparr>)) = cs \<and>
     x \<in> set cs \<and> call_error x = Some (APIError ''timeout'')"
proof -
  let ?s = "\<lparr>env = empty_testbed, calls = []\<rparr>"
  let ?m = "ReconcileCrd failing_crd_controller ('''', ''m1'')"
  have "run_state ?m ?s = (Some (APIError ''timeout''), snd (run_state ?m ?s))"
    by (simp add: ReconcileCrd_def failing_crd_controller_def run_api)
  moreover have "?m \<in> {ReconcileMCI test_mci_controller ('''', ''m1''), ReconcileMCS test_mcs_controller ('''', ''m1''),
      ReconcileLocations test_loc_controller ('''', ''m1''), ?m, ReconcileExport test_export_controller ('''', ''m1'')}"
    by simp
  moreover have "retry_ok (locRetry test_loc_controller)" by (simp add: test_loc_controller_def retry_upto_ok)
  ultimately show ?thesis
    using reconcile_errors_come_from_calls [OF test_mci_contract test_mcs_contract, of test_loc_controller ?m
        "('''', ''m1'')" failing_crd_controller test_export_controller ?s] by auto
qed

end
