(* ===== verification/CallBounds.thy ===== *)
theory CallBounds
  imports ErrorCauses
begin

text \<open>
  How many calls a reconcile makes: every controller's reconcile ends after a bounded number of
  calls, whatever they answer. \<open>costs n m\<close> says that \<open>m\<close> makes at most \<open>n\<close> calls; the rules follow
  the structure of a program.
\<close>

definition costs :: "nat \<Rightarrow> ('w, 'r) io \<Rightarrow> bool" where
  "costs n m \<longleftrightarrow> (\<forall>s. \<exists>cs. calls (snd (run_state m s)) = calls s @ cs \<and> length cs \<le> n)"

text \<open>A retry that gives its function at most \<open>n\<close> attempts.\<close>

definition retries_at_most :: "nat \<Rightarrow> ('v, ('w, call) world) retrier \<Rightarrow> bool" where
  "retries_at_most n retry \<longleftrightarrow> (\<forall>fn v k. (\<forall>v. costs k (fn v)) \<longrightarrow> costs (n * k) (retry fn v))"

named_theorems cost_rules \<open>how many calls a program makes\<close>

lemma costsD: "costs n m \<Longrightarrow> run_state m s = (r, s') \<Longrightarrow> \<exists>cs. calls s' = calls s @ cs \<and> length cs \<le> n"
  unfolding costs_def by (metis snd_conv)

lemma costsI:
  assumes "\<And>s r s'. run_state m s = (r, s') \<Longrightarrow> \<exists>cs. calls s' = calls s @ cs \<and> length cs \<le> n"
  shows "costs n m"
  unfolding costs_def using assms by (metis prod.collapse)

lemma costs_le: "costs k m \<Longrightarrow> k \<le> n \<Longrightarrow> costs n m"
  unfolding costs_def by (meson le_trans)

lemma costs_ret [cost_rules]: "costs n (ret x)"
  by (rule costsI) auto

lemma costs_bind [cost_rules]:
  assumes "costs k m" and "\<And>x. costs (n - k) (f x)" and "k \<le> n"
  shows "costs n (m \<bind> f)"
proof (rule costsI)
  fix s r s' assume run: "run_state (m \<bind> f) s = (r, s')"
  obtain x s1 where m: "run_state m s = (x, s1)" by fastforce
  with run have f: "run_state (f x) s1 = (r, s')" by simp
  from costsD [OF assms(1) m] obtain cs where "calls s1 = calls s @ cs" "length cs \<le> k" by blast
  moreover from costsD [OF assms(2) f] obtain ds where "calls s' = calls s1 @ ds" "length ds \<le> n - k" by blast
  ultimately show "\<exists>cs. calls s' = calls s @ cs \<and> length cs \<le> n"
    using assms(3) by (intro exI [of _ "cs @ ds"]) simp
qed

lemma costs_cases [cost_rules]:
  "(b \<Longrightarrow> costs n m1) \<Longrightarrow> (\<not> b \<Longrightarrow> costs n m2) \<Longrightarrow> costs n (if b then m1 else m2)"
  "(\<And>e. r = Inl e \<Longrightarrow> costs n (f e)) \<Longrightarrow> (\<And>x. r = Inr x \<Longrightarrow> costs n (g x)) \<Longrightarrow>
    costs n (case r of Inl e \<Rightarrow> f e | Inr x \<Rightarrow> g x)"
  "(o1 = None \<Longrightarrow> costs n m1) \<Longrightarrow> (\<And>x. o1 = Some x \<Longrightarrow> costs n (h x)) \<Longrightarrow>
    costs n (case o1 of None \<Rightarrow> m1 | Some x \<Rightarrow> h x)"
  "(\<And>a b. p = (a, b) \<Longrightarrow> costs n (k a b)) \<Longrightarrow> costs n (case p of (a, b) \<Rightarrow> k a b)"
  "costs n (l y) \<Longrightarrow> costs n (Let y l)"
  by (simp_all split: sum.split option.split prod.split)

lemma costs_call: "costs 1 (lift_call f entry)"
  by (rule costsI) (auto simp: run_lift_call split: prod.splits)

lemma costs_api [cost_rules]:
  "costs 1 (api_get kd mk kc k)" "costs 1 (api_list kd kc opts)" "costs 1 (api_create mk kc x)"
  "costs 1 (api_update mk kc x)" "costs 1 (api_patch mk kc x y)" "costs 1 (api_status_update mk kc x)"
  "costs 1 (api_delete mk kc x)" "costs 1 (lb_get mk b x)" "costs 1 (lb_ensure mk b x)"
  "costs 1 (lb_update mk b x)" "costs 1 (lb_delete mk b x)"
  unfolding api_defs lb_defs by (rule costs_call)+

lemma costs_note [cost_rules]: "costs 1 (note_call c)"
  by (rule costsI) (auto simp: run_note_call)

lemma retry_upto_at_most: "retries_at_most (Suc n) (retry_upto n)"
  unfolding retries_at_most_def
proof (intro allI impI)
  fix fn :: "'a \<Rightarrow> ('b, error option \<times> 'a) io" and v k
  assume fn: "\<forall>v. costs k (fn v)"
  show "costs (Suc n * k) (retry_upto n fn v)"
  proof (induction n arbitrary: v)
    case (Suc n)
    have "costs (Suc (Suc n) * k - k) (retry_upto n fn v)" for v
      by (rule costs_le [OF Suc.IH]) simp
    then show ?case unfolding retry_upto.simps
      by (auto intro!: costs_bind [OF spec [OF fn]] costs_ret split: prod.split)
  qed (use fn in simp)
qed

section \<open>The controllers\<close>

lemma costs_ReconcileMCI:
  assumes "retries_at_most n (mciRetry c)" and "retries_at_most n (mciBlockRetry c)"
  shows "costs (6 + 4 * n) (ReconcileMCI c req)"
proof -
  have "costs 2 (mci_status_attempt c st v)" for st v
    unfolding mci_status_attempt_def by (rule cost_rules | (simp) [1])+
  then have a: "costs (n * 2) (mciRetry c (mci_status_attempt c st) v)" for st v
    using assms(1) unfolding retries_at_most_def by blast
  have "costs 2 (block_attempt c k cs v)" for k cs v
    unfolding block_attempt_def by (rule cost_rules | (simp) [1])+
  then have b: "costs (n * 2) (mciBlockRetry c (block_attempt c k cs) v)" for k cs v
    using assms(2) unfolding retries_at_most_def by blast
  have status: "costs (2 * n) (updateMCIStatus c mci st)" for mci st
    unfolding updateMCIStatus_def by (rule cost_rules a | (simp) [1])+
  have block: "costs (1 + 2 * n) (updateMCITrafficBlockClusters c mci)" for mci
    unfolding updateMCITrafficBlockClusters_def by (rule cost_rules b | (simp) [1])+
  have sync: "costs (3 + 4 * n) (sync_balancer c mci)" for mci
    unfolding sync_balancer_def handleMCIUpdate_def handleMCICreate_def
    by (rule cost_rules block costs_le [OF status] | (simp) [1])+
  show ?thesis
    unfolding ReconcileMCI_def handleMCIDelete_def handleMCICreateOrUpdate_def
    by (rule cost_rules costs_le [OF sync] | (simp) [1])+
qed

lemma costs_ReconcileMCS:
  assumes "retries_at_most n (mcsRetry c)"
  shows "costs (6 + 2 * n) (ReconcileMCS c req)"
proof -
  have "costs 2 (mcs_status_attempt c st v)" for st v
    unfolding mcs_status_attempt_def by (rule cost_rules | (simp) [1])+
  then have a: "costs (n * 2) (mcsRetry c (mcs_status_attempt c st) v)" for st v
    using assms(1) unfolding retries_at_most_def by blast
  have status: "costs (2 * n) (updateMCSStatus c mcs st)" for mcs st
    unfolding updateMCSStatus_def by (rule cost_rules a | (simp) [1])+
  have sync: "costs (2 + 2 * n) (sync_mcs_balancer c mcs)" for mcs
    unfolding sync_mcs_balancer_def handleMCSUpdate_def handleMCSCreate_def
    by (rule cost_rules costs_le [OF status] | (simp) [1])+
  have delete: "costs 2 (delete_mcs_balancer c mcs)" and release: "costs 1 (release_mcs c mcs)" for mcs
    unfolding delete_mcs_balancer_def release_mcs_def by (rule cost_rules | (simp) [1])+
  have handle: "costs 4 (handleMCSDelete c mcs)" for mcs
    unfolding handleMCSDelete_def by (rule cost_rules delete costs_le [OF release] | (simp) [1])+
  show ?thesis
    unfolding ReconcileMCS_def handleMCSCreateOrUpdate_def
    by (rule cost_rules costs_le [OF sync] costs_le [OF handle] | (simp) [1])+
qed

lemma costs_ReconcileCrd: "costs 5 (ReconcileCrd c req)"
proof -
  have store: "costs 1 (store_names c p)" for p
    unfolding store_names_def by (rule cost_rules | (simp) [1])+
  have create: "costs 2 (createClusterPropagationPolicy c)"
    unfolding createClusterPropagationPolicy_def by (rule cost_rules | (simp) [1])+
  have sync: "costs 3 (syncClusterPropagationPolicy c n t)" for n t
    unfolding syncClusterPropagationPolicy_def Let_def
    by (cases t; simp only: eventType.case; (rule cost_rules costs_le [OF store] costs_le [OF create] | (simp) [1])+)
  show ?thesis
    unfolding ReconcileCrd_def by (rule cost_rules costs_le [OF sync] | (simp) [1])+
qed

lemma costs_ReconcileExport: "costs 9 (ReconcileExport c req)"
proof -
  have clusters: "costs 1 (getBindingClusterResults c svc)" for svc
    unfolding getBindingClusterResults_def by (rule cost_rules | (simp) [1])+
  have policy: "costs 3 (ensure_policy c svc)" for svc
    unfolding ensure_policy_def by (rule cost_rules clusters | (simp) [1])+
  have ensure: "costs 5 (ensureServiceExport c svc)" for svc
    unfolding ensureServiceExport_def by (rule cost_rules costs_le [OF policy] | (simp) [1])+
  have need: "costs 2 (needEnsureServiceExport c ns n)" for ns n
    unfolding needEnsureServiceExport_def by (rule cost_rules | (simp) [1])+
  have deletes: "costs 2 (deleteServiceExport c svc)" "costs 2 (deletePropagationPolicy c svc)" for svc
    unfolding deleteServiceExport_def deletePropagationPolicy_def by (rule cost_rules | (simp) [1])+
  have remove: "costs 4 (removeServiceExport c svc)" for svc
    unfolding removeServiceExport_def by (rule cost_rules deletes | (simp) [1])+
  show ?thesis
    unfolding ReconcileExport_def
    by (rule cost_rules need costs_le [OF ensure] costs_le [OF remove] | (simp) [1])+
qed

text \<open>The location controller reads one binding per service of the ingress.\<close>

lemma costs_ReconcileLocations:
  assumes "retries_at_most n (locRetry c)" and "run_state (ReconcileLocations c req) s = (e, s')"
    and "cGet (mcis (locClient c)) req (env s) = (Inr mci, w)"
  shows "\<exists>cs. calls s' = calls s @ cs \<and>
    length cs \<le> 2 + (case BuildServiceRefIndexes (locDeps c) mci of None \<Rightarrow> 0 | Some names \<Rightarrow> length names) + 2 * n"
proof -
  let ?names = "case BuildServiceRefIndexes (locDeps c) mci of None \<Rightarrow> 0 | Some names \<Rightarrow> length names"
  have "costs 2 (location_attempt c k locs v)" for k locs v
    unfolding location_attempt_def by (rule cost_rules | (simp) [1])+
  then have a: "costs (n * 2) (locRetry c (location_attempt c k locs) v)" for k locs v
    using assms(1) unfolding retries_at_most_def by blast
  have locate: "costs (length names) (locate_services c ns names locs)" for ns names locs
  proof (induction names arbitrary: locs)
    case (Cons n names)
    show ?case unfolding locate_services.simps by (rule cost_rules costs_le [OF Cons.IH] | (simp) [1])+
  qed (auto intro: costs_ret)
  have "costs ?names (calculateServiceLocations c mci)"
    unfolding calculateServiceLocations_def using locate [of "sort names" for names, simplified]
    by (auto intro: costs_ret split: option.split)
  note calculate = this
  let ?rest = "do {
    r \<leftarrow> calculateServiceLocations c mci;
    case r of
      Inl err \<Rightarrow> ret (Some err)
    | Inr svcLocations \<Rightarrow> do {
        (err, _) \<leftarrow> locRetry c (location_attempt c req svcLocations) mci;
        ret err
      }
  }"
  have rest: "costs (?names + 2 * n) ?rest" by (rule cost_rules calculate a | (simp) [1])+
  have "run_state ?rest (s\<lparr>env := w, calls := calls s @ [Reconciling MCIKind req, Got MCIKind req (Inr (MCIObj mci))]\<rparr>) = (e, s')"
    using assms(2,3) by (simp add: ReconcileLocations_def run_api)
  from costsD [OF rest this] show ?thesis by auto
qed

section \<open>Property\<close>

text \<open>
  C23: every reconcile ends after a bounded number of calls, whatever they answer and however often
  writes conflict: with retries of at most n attempts, at most 6 + 4n calls for an ingress,
  6 + 2n for a MultiClusterService, 5 for the CRD policy, 9 for an export, and for the locations of
  an ingress 2 + 2n and one for each of its services (the note of the request is counted in).
\<close>

theorem reconcile_call_bounds:
  assumes "retries_at_most n (mciRetry c1)" and "retries_at_most n (mciBlockRetry c1)"
    and "retries_at_most n (mcsRetry c2)" and "retries_at_most n (locRetry c5)"
  shows "(run_state (ReconcileMCI c1 req) s = (e, s') \<longrightarrow> length (calls s') \<le> length (calls s) + 6 + 4 * n) \<and>
    (run_state (ReconcileMCS c2 req) s = (e, s') \<longrightarrow> length (calls s') \<le> length (calls s) + 6 + 2 * n) \<and>
    (run_state (ReconcileCrd c3 req) s = (e, s') \<longrightarrow> length (calls s') \<le> length (calls s) + 5) \<and>
    (run_state (ReconcileExport c4 req) s = (e, s') \<longrightarrow> length (calls s') \<le> length (calls s) + 9) \<and>
    (run_state (ReconcileLocations c5 req) s = (e, s') \<and> cGet (mcis (locClient c5)) req (env s) = (Inr mci, w) \<and>
      BuildServiceRefIndexes (locDeps c5) mci = Some names \<longrightarrow>
      length (calls s') \<le> length (calls s) + 2 + length names + 2 * n)"
proof (intro conjI impI)
  have longer: "length (calls s') \<le> length (calls s) + k" if "\<exists>cs. calls s' = calls s @ cs \<and> length cs \<le> k" for k
    using that by auto
  show "length (calls s') \<le> length (calls s) + 6 + 4 * n" if "run_state (ReconcileMCI c1 req) s = (e, s')"
    using longer [OF costsD [OF costs_ReconcileMCI [OF assms(1,2)] that]] by simp
  show "length (calls s') \<le> length (calls s) + 6 + 2 * n" if "run_state (ReconcileMCS c2 req) s = (e, s')"
    using longer [OF costsD [OF costs_ReconcileMCS [OF assms(3)] that]] by simp
  show "length (calls s') \<le> length (calls s) + 5" if "run_state (ReconcileCrd c3 req) s = (e, s')"
    using longer [OF costsD [OF costs_ReconcileCrd that]] by simp
  show "length (calls s') \<le> length (calls s) + 9" if "run_state (ReconcileExport c4 req) s = (e, s')"
    using longer [OF costsD [OF costs_ReconcileExport that]] by simp
  show "length (calls s') \<le> length (calls s) + 2 + length names + 2 * n"
    if "run_state (ReconcileLocations c5 req) s = (e, s') \<and> cGet (mcis (locClient c5)) req (env s) = (Inr mci, w) \<and>
      BuildServiceRefIndexes (locDeps c5) mci = Some names"
    using longer [OF costs_ReconcileLocations [OF assms(4) that [THEN conjunct1] that [THEN conjunct2, THEN conjunct1]]] that
    by simp
qed

lemma reconcile_call_bounds_witness:
  "length (calls (snd first_run)) \<le> 26 \<and> length (calls (snd mcs_first_run)) \<le> 16"
proof -
  have five: "retries_at_most 5 (retry_upto 4 :: ('v, ('w, call) world) retrier)"
    using retry_upto_at_most [of 4] by simp
  have retries: "retries_at_most 5 (mciRetry test_mci_controller)" "retries_at_most 5 (mciBlockRetry test_mci_controller)"
    "retries_at_most 5 (mcsRetry test_mcs_controller)" "retries_at_most 5 (locRetry test_loc_controller)"
    unfolding test_mci_controller_simps test_mcs_controller_simps test_loc_controller_simps by (rule five)+
  show ?thesis
    using reconcile_call_bounds [OF retries, THEN conjunct1, rule_format, OF first_run_eq]
      reconcile_call_bounds [OF retries, THEN conjunct2, THEN conjunct1, rule_format, OF mcs_first_run_eq]
    by (simp add: mci_world_def mcs_world_def)
qed

end
