(* ===== verification/CommandOptions.thy ===== *)
theory CommandOptions
  imports Complex_Main Prelude
begin

text \<open>
  options/options.go and options/validation.go: the options of the command, their defaults, the flags
  that set them and their validation. The flag library is pflag: declaring a flag stores its
  default in the variable, and a flag of the command line stores its value there. Durations are in
  nanoseconds; the options of other packages are carried in serialised form.
\<close>

section \<open>The options\<close>

definition defaultBindAddress :: string where
  "defaultBindAddress = ''0.0.0.0''"

definition defaultPort :: int where
  "defaultPort = 10368"

definition NamespaceKarmadaSystem :: string where
  "NamespaceKarmadaSystem = ''karmada-system''"

definition seconds :: "int \<Rightarrow> int" where
  "seconds n = n * 1000000000"

definition defaultElectionLeaseDuration :: int where
  "defaultElectionLeaseDuration = seconds 15"

definition defaultElectionRenewDeadline :: int where
  "defaultElectionRenewDeadline = seconds 10"

definition defaultElectionRetryPeriod :: int where
  "defaultElectionRetryPeriod = seconds 2"

record LeaderElectionConfiguration =
  LeaderElect :: bool
  LeaseDuration :: int
  RenewDeadline :: int
  RetryPeriod :: int
  ResourceLock :: string
  ResourceName :: string
  ResourceNamespace :: string

record ManagerCommandOptions =
  OptName :: string
  CloudConfigFile :: string
  OptProviderClassName :: string
  LeaderElection :: LeaderElectionConfiguration
  BindAddress :: string
  SecurePort :: int
  KubeAPIQPS :: rat
  KubeAPIBurst :: int
  ResyncPeriod :: int
  MetricsBindAddress :: string
  RateLimiterOpts :: rest
  ProfileOpts :: rest
  Logging :: rest
  FeatureGate :: "rest option"

text \<open>
  Fields that the literal leaves out have the zero value of their type. \<open>LeasesResourceLock\<close> and
  \<open>NewLoggingConfiguration\<close> come from other packages.
\<close>

definition NewClusterControllerManagerOptions :: "string \<Rightarrow> rest \<Rightarrow> ManagerCommandOptions" where
  "NewClusterControllerManagerOptions leasesResourceLock newLogging =
     \<lparr>OptName = '''', CloudConfigFile = '''', OptProviderClassName = '''',
      LeaderElection = \<lparr>LeaderElect = True, LeaseDuration = 0, RenewDeadline = 0, RetryPeriod = 0,
        ResourceLock = leasesResourceLock, ResourceName = ''multicluster-controller-manager'',
        ResourceNamespace = NamespaceKarmadaSystem\<rparr>,
      BindAddress = '''', SecurePort = 0, KubeAPIQPS = 0, KubeAPIBurst = 0, ResyncPeriod = 0,
      MetricsBindAddress = '''', RateLimiterOpts = '''', ProfileOpts = '''', Logging = newLogging,
      FeatureGate = None\<rparr>"

section \<open>Flags\<close>

datatype flag_value = StringValue string | BoolValue bool | IntValue int | DurationValue int
  | Float32Value rat

type_synonym 'o setter = "flag_value \<Rightarrow> 'o \<Rightarrow> 'o"
type_synonym 'o flags = "(string \<times> 'o setter) list"

text \<open>A value of the wrong type never reaches the variable.\<close>

definition string_setter :: "((string \<Rightarrow> string) \<Rightarrow> 'o \<Rightarrow> 'o) \<Rightarrow> 'o setter" where
  "string_setter upd v = (case v of StringValue x \<Rightarrow> upd (\<lambda>_. x) | _ \<Rightarrow> id)"

definition bool_setter :: "((bool \<Rightarrow> bool) \<Rightarrow> 'o \<Rightarrow> 'o) \<Rightarrow> 'o setter" where
  "bool_setter upd v = (case v of BoolValue x \<Rightarrow> upd (\<lambda>_. x) | _ \<Rightarrow> id)"

definition int_setter :: "((int \<Rightarrow> int) \<Rightarrow> 'o \<Rightarrow> 'o) \<Rightarrow> 'o setter" where
  "int_setter upd v = (case v of IntValue x \<Rightarrow> upd (\<lambda>_. x) | _ \<Rightarrow> id)"

definition duration_setter :: "((int \<Rightarrow> int) \<Rightarrow> 'o \<Rightarrow> 'o) \<Rightarrow> 'o setter" where
  "duration_setter upd v = (case v of DurationValue x \<Rightarrow> upd (\<lambda>_. x) | _ \<Rightarrow> id)"

definition float_setter :: "((rat \<Rightarrow> rat) \<Rightarrow> 'o \<Rightarrow> 'o) \<Rightarrow> 'o setter" where
  "float_setter upd v = (case v of Float32Value x \<Rightarrow> upd (\<lambda>_. x) | _ \<Rightarrow> id)"

lemmas setter_defs = string_setter_def bool_setter_def int_setter_def duration_setter_def float_setter_def

text \<open>\<open>flags.XVar(p, name, value, usage)\<close>.\<close>

definition add_flag :: "string \<Rightarrow> 'o setter \<Rightarrow> ('o \<Rightarrow> flag_value) \<Rightarrow> 'o \<times> 'o flags \<Rightarrow> 'o \<times> 'o flags" where
  "add_flag name set_to value s = (set_to (value (fst s)) (fst s), snd s @ [(name, set_to)])"

text \<open>The flags of another package, which set a field of the options.\<close>

type_synonym add_flags = "rest \<Rightarrow> rest \<times> rest flags"

definition add_field_flags ::
  "('o \<Rightarrow> rest) \<Rightarrow> ((rest \<Rightarrow> rest) \<Rightarrow> 'o \<Rightarrow> 'o) \<Rightarrow> add_flags \<Rightarrow> 'o \<times> 'o flags \<Rightarrow> 'o \<times> 'o flags" where
  "add_field_flags field upd add s = (case add (field (fst s)) of (x, fs) \<Rightarrow>
     (upd (\<lambda>_. x) (fst s), snd s @ map (map_prod id (\<lambda>set_to v. upd (set_to v))) fs))"

definition leader_upd ::
  "(LeaderElectionConfiguration \<Rightarrow> LeaderElectionConfiguration) \<Rightarrow> ManagerCommandOptions \<Rightarrow> ManagerCommandOptions" where
  "leader_upd f opts = opts\<lparr>LeaderElection := f (LeaderElection opts)\<rparr>"

definition AddFlags ::
  "add_flags \<Rightarrow> add_flags \<Rightarrow> ManagerCommandOptions \<times> ManagerCommandOptions flags
    \<Rightarrow> ManagerCommandOptions \<times> ManagerCommandOptions flags" where
  "AddFlags rateLimiterFlags profileFlags s0 = (
     let s = add_flag ''multicluster-provider'' (string_setter OptName_update)
           (\<lambda>opts. StringValue (OptName opts)) s0;
         s = add_flag ''cloud-config'' (string_setter CloudConfigFile_update)
           (\<lambda>opts. StringValue (CloudConfigFile opts)) s;
         s = add_flag ''provider-ingress-class'' (string_setter OptProviderClassName_update)
           (\<lambda>opts. StringValue (OptProviderClassName opts)) s;
         s = add_flag ''leader-elect'' (bool_setter (leader_upd \<circ> LeaderElect_update))
           (\<lambda>_. BoolValue True) s;
         s = add_flag ''leader-elect-resource-namespace'' (string_setter (leader_upd \<circ> ResourceNamespace_update))
           (\<lambda>_. StringValue NamespaceKarmadaSystem) s;
         s = add_flag ''leader-elect-lease-duration'' (duration_setter (leader_upd \<circ> LeaseDuration_update))
           (\<lambda>_. DurationValue defaultElectionLeaseDuration) s;
         s = add_flag ''leader-elect-renew-deadline'' (duration_setter (leader_upd \<circ> RenewDeadline_update))
           (\<lambda>_. DurationValue defaultElectionRenewDeadline) s;
         s = add_flag ''leader-elect-retry-period'' (duration_setter (leader_upd \<circ> RetryPeriod_update))
           (\<lambda>_. DurationValue defaultElectionRetryPeriod) s;
         s = add_flag ''bind-address'' (string_setter BindAddress_update)
           (\<lambda>_. StringValue defaultBindAddress) s;
         s = add_flag ''secure-port'' (int_setter SecurePort_update) (\<lambda>_. IntValue defaultPort) s;
         s = add_flag ''kube-api-qps'' (float_setter KubeAPIQPS_update) (\<lambda>_. Float32Value 40) s;
         s = add_flag ''kube-api-burst'' (int_setter KubeAPIBurst_update) (\<lambda>_. IntValue 60) s;
         s = add_flag ''resync-period'' (duration_setter ResyncPeriod_update) (\<lambda>_. DurationValue 0) s;
         s = add_flag ''metrics-bind-address'' (string_setter MetricsBindAddress_update)
           (\<lambda>_. StringValue '':8080'') s;
         s = add_field_flags RateLimiterOpts RateLimiterOpts_update rateLimiterFlags s
     in add_field_flags ProfileOpts ProfileOpts_update profileFlags s)"

text \<open>
  What pflag does with the flags of a command line, in their order; one that was not declared is
  an error, and is no flag here.
\<close>

definition set_flag :: "'o flags \<Rightarrow> string \<times> flag_value \<Rightarrow> 'o \<Rightarrow> 'o" where
  "set_flag fs arg opts = (case map_of fs (fst arg) of None \<Rightarrow> opts | Some set_to \<Rightarrow> set_to (snd arg) opts)"

section \<open>Validation\<close>

record field_error =
  ErrorField :: string
  BadValue :: string
  Detail :: string

definition Validate :: "ManagerCommandOptions \<Rightarrow> field_error list" where
  "Validate opts = (
     let errs = [];
         errs = (if length (OptName opts) = 0
           then errs @ [\<lparr>ErrorField = ''Options.Name'', BadValue = OptName opts,
             Detail = ''--multicluster-provider cannot be empty''\<rparr>]
           else errs);
         errs = (if length (OptProviderClassName opts) = 0
           then errs @ [\<lparr>ErrorField = ''Options.ProviderClassName'', BadValue = OptProviderClassName opts,
             Detail = ''--provider-ingress-class cannot be empty''\<rparr>]
           else errs)
     in errs)"

section \<open>Lemmas\<close>

lemma Validate_ok: "Validate opts = [] \<longleftrightarrow> OptName opts \<noteq> '''' \<and> OptProviderClassName opts \<noteq> ''''"
  by (simp add: Validate_def Let_def)

text \<open>The last value of a string flag on a command line.\<close>

fun given :: "string \<Rightarrow> (string \<times> flag_value) list \<Rightarrow> string option" where
  "given name [] = None"
| "given name ((n, v) # args) =
     (case given name args of
        Some x \<Rightarrow> Some x
      | None \<Rightarrow> (case v of StringValue x \<Rightarrow> if n = name then Some x else None | _ \<Rightarrow> None))"

text \<open>A field is only set by its own flag.\<close>

definition only_flag :: "string \<Rightarrow> ('o \<Rightarrow> string) \<Rightarrow> 'o flags \<Rightarrow> bool" where
  "only_flag name field fs \<longleftrightarrow>
     (\<forall>n v opts. field (set_flag fs (n, v) opts) =
       (case v of StringValue x \<Rightarrow> if n = name then x else field opts | _ \<Rightarrow> field opts))"

lemma only_flag_fold:
  assumes "only_flag name field fs"
  shows "field (fold (set_flag fs) args opts) = (case given name args of Some x \<Rightarrow> x | None \<Rightarrow> field opts)"
proof (induction args arbitrary: opts)
  case (Cons arg args)
  obtain n v where arg: "arg = (n, v)" by (cases arg)
  have "field (set_flag fs (n, v) opts) =
      (case v of StringValue x \<Rightarrow> if n = name then x else field opts | _ \<Rightarrow> field opts)"
    using assms by (simp add: only_flag_def)
  then show ?case
    by (simp add: arg Cons.IH split: option.splits flag_value.splits)
qed simp

definition leaves_field :: "('o \<Rightarrow> 'a) \<Rightarrow> 'o setter \<Rightarrow> bool" where
  "leaves_field field set_to \<longleftrightarrow> (\<forall>v opts. field (set_to v opts) = field opts)"

lemma only_flagI:
  assumes "\<And>x opts. field (upd (\<lambda>_. x) opts) = x" and "name \<notin> fst ` set fs1"
    and "\<And>entry. entry \<in> set fs1 \<union> set fs2 \<Longrightarrow> leaves_field field (snd entry)"
  shows "only_flag name field (fs1 @ (name, string_setter upd) # fs2)"
  unfolding only_flag_def
proof (intro allI)
  fix n v opts
  have left: "field (st v opts) = field opts" if "map_of fs n = Some st" "set fs \<subseteq> set fs1 \<union> set fs2" for fs st
    using assms(3) [of "(n, st)"] map_of_SomeD [OF that(1)] that(2) by (auto simp: leaves_field_def)
  show "field (set_flag (fs1 @ (name, string_setter upd) # fs2) (n, v) opts) =
       (case v of StringValue x \<Rightarrow> if n = name then x else field opts | _ \<Rightarrow> field opts)"
  proof (cases "n = name")
    case True
    then have "map_of fs1 n = None" using assms(2) by (simp add: map_of_eq_None_iff)
    then show ?thesis
      using True assms(1) by (simp add: set_flag_def map_add_def string_setter_def split: flag_value.splits)
  next
    case False
    then have "field (set_flag (fs1 @ (name, string_setter upd) # fs2) (n, v) opts) = field opts"
      using left [of fs1] left [of fs2] by (auto simp: set_flag_def map_add_def split: option.splits)
    then show ?thesis using False by (simp split: flag_value.splits)
  qed
qed

lemma leaves_setter:
  "leaves_field field (string_setter upd)" if "\<And>x opts. field (upd (\<lambda>_. x) opts) = field opts"
  for upd :: "(string \<Rightarrow> string) \<Rightarrow> 'o \<Rightarrow> 'o"
  using that by (simp add: leaves_field_def string_setter_def split: flag_value.splits)

lemma leaves_other_setters:
  "(\<And>x opts. field (updb (\<lambda>_. x) opts) = field opts) \<Longrightarrow> leaves_field field (bool_setter updb)"
  "(\<And>x opts. field (updi (\<lambda>_. x) opts) = field opts) \<Longrightarrow> leaves_field field (int_setter updi)"
  "(\<And>x opts. field (updi (\<lambda>_. x) opts) = field opts) \<Longrightarrow> leaves_field field (duration_setter updi)"
  "(\<And>x opts. field (updf (\<lambda>_. x) opts) = field opts) \<Longrightarrow> leaves_field field (float_setter updf)"
  by (simp_all add: leaves_field_def setter_defs split: flag_value.splits)

definition own_flags :: "ManagerCommandOptions flags" where
  "own_flags =
     [(''leader-elect'', bool_setter (leader_upd \<circ> LeaderElect_update)),
      (''leader-elect-resource-namespace'', string_setter (leader_upd \<circ> ResourceNamespace_update)),
      (''leader-elect-lease-duration'', duration_setter (leader_upd \<circ> LeaseDuration_update)),
      (''leader-elect-renew-deadline'', duration_setter (leader_upd \<circ> RenewDeadline_update)),
      (''leader-elect-retry-period'', duration_setter (leader_upd \<circ> RetryPeriod_update)),
      (''bind-address'', string_setter BindAddress_update),
      (''secure-port'', int_setter SecurePort_update),
      (''kube-api-qps'', float_setter KubeAPIQPS_update),
      (''kube-api-burst'', int_setter KubeAPIBurst_update),
      (''resync-period'', duration_setter ResyncPeriod_update),
      (''metrics-bind-address'', string_setter MetricsBindAddress_update)]"

definition other_flags :: "rest flags \<Rightarrow> rest flags \<Rightarrow> ManagerCommandOptions flags" where
  "other_flags rate profile =
     map (map_prod id (\<lambda>set_to v. RateLimiterOpts_update (set_to v))) rate @
     map (map_prod id (\<lambda>set_to v. ProfileOpts_update (set_to v))) profile"

lemma AddFlags_flags:
  "\<exists>rate profile. snd (AddFlags rateLimiterFlags profileFlags (opts, fs0)) = fs0 @
     [(''multicluster-provider'', string_setter OptName_update),
      (''cloud-config'', string_setter CloudConfigFile_update),
      (''provider-ingress-class'', string_setter OptProviderClassName_update)] @
     own_flags @ other_flags rate profile"
  by (simp add: AddFlags_def add_flag_def add_field_flags_def own_flags_def other_flags_def Let_def
      split: prod.splits) blast

text \<open>Flags that leave alone what the validation and the provider depend on.\<close>

definition stays_out :: "ManagerCommandOptions flags \<Rightarrow> bool" where
  "stays_out fs \<longleftrightarrow> (\<forall>entry \<in> set fs. leaves_field OptName (snd entry) \<and>
     leaves_field OptProviderClassName (snd entry) \<and> leaves_field CloudConfigFile (snd entry))"

lemma stays_out_append [simp]: "stays_out (fs @ gs) \<longleftrightarrow> stays_out fs \<and> stays_out gs"
  by (auto simp: stays_out_def)

lemma stays_out_own [simp]: "stays_out own_flags" "stays_out (other_flags rate profile)"
  by (auto simp: stays_out_def own_flags_def leader_upd_def intro!: leaves_setter leaves_other_setters)
    (auto simp: other_flags_def leaves_field_def)

lemma stays_outD:
  assumes "stays_out fs" and "entry \<in> set fs"
  shows "leaves_field OptName (snd entry)" and "leaves_field OptProviderClassName (snd entry)"
    and "leaves_field CloudConfigFile (snd entry)"
  using assms by (auto simp: stays_out_def)

text \<open>Among distinct flags, each of the three options is set by its own flag only.\<close>

lemma required_flags:
  assumes "distinct (map fst fs0 @ [''multicluster-provider'', ''cloud-config'', ''provider-ingress-class''])"
    and "stays_out fs0" and "stays_out fs1"
  defines "fs \<equiv> fs0 @ [(''multicluster-provider'', string_setter OptName_update),
      (''cloud-config'', string_setter CloudConfigFile_update),
      (''provider-ingress-class'', string_setter OptProviderClassName_update)] @ fs1"
  shows "only_flag ''multicluster-provider'' OptName fs"
    and "only_flag ''cloud-config'' CloudConfigFile fs"
    and "only_flag ''provider-ingress-class'' OptProviderClassName fs"
proof -
  let ?p = "(''multicluster-provider'', string_setter OptName_update)"
    and ?c = "(''cloud-config'', string_setter CloudConfigFile_update)"
    and ?i = "(''provider-ingress-class'', string_setter OptProviderClassName_update)"
  have "only_flag ''multicluster-provider'' OptName (fs0 @ ?p # [?c, ?i] @ fs1)"
    by (rule only_flagI)
      (use assms(1) in \<open>auto simp: image_iff intro!: leaves_setter intro: stays_outD [OF assms(2)] stays_outD [OF assms(3)]\<close>)
  moreover have "only_flag ''cloud-config'' CloudConfigFile ((fs0 @ [?p]) @ ?c # [?i] @ fs1)"
    by (rule only_flagI)
      (use assms(1) in \<open>auto simp: image_iff intro!: leaves_setter intro: stays_outD [OF assms(2)] stays_outD [OF assms(3)]\<close>)
  moreover have "only_flag ''provider-ingress-class'' OptProviderClassName ((fs0 @ [?p, ?c]) @ ?i # fs1)"
    by (rule only_flagI)
      (use assms(1) in \<open>auto simp: image_iff intro!: leaves_setter intro: stays_outD [OF assms(2)] stays_outD [OF assms(3)]\<close>)
  ultimately show "only_flag ''multicluster-provider'' OptName fs"
    and "only_flag ''cloud-config'' CloudConfigFile fs"
    and "only_flag ''provider-ingress-class'' OptProviderClassName fs" by (simp_all add: fs_def)
qed

lemma AddFlags_keeps:
  "OptName (fst (AddFlags rateLimiterFlags profileFlags (opts, fs))) = OptName opts"
  "OptProviderClassName (fst (AddFlags rateLimiterFlags profileFlags (opts, fs))) = OptProviderClassName opts"
  "CloudConfigFile (fst (AddFlags rateLimiterFlags profileFlags (opts, fs))) = CloudConfigFile opts"
  "FeatureGate (fst (AddFlags rateLimiterFlags profileFlags (opts, fs))) = FeatureGate opts"
  by (simp_all add: AddFlags_def add_flag_def add_field_flags_def Let_def setter_defs leader_upd_def
      split: prod.splits)

end
