(* ===== verification/Plugins.thy ===== *)
theory Plugins
  imports Testbed
begin

text \<open>
  plugins.go and the interface of a provider in cloud.go: the registry of provider factories and
  how the provider the command line names is made (with \<open>cloudInitializer\<close> of the command).
  Starting up is modelled as the controllers are, by calls to the outside and their log; a
  \<open>klog.Fatalf\<close> ends the process, and nothing deferred runs.
\<close>

section \<open>Providers\<close>

text \<open>\<open>Interface\<close> of cloud.go. A balancer of value nil is \<open>None\<close>; the flag says it is supported.\<close>

record 'w Interface =
  ifLoadBalancer :: "(MultiClusterIngress, 'w) balancer option \<times> bool"
  ifMCSLoadBalancer :: "(MultiClusterService, 'w) balancer option \<times> bool"
  ifProviderName :: "'w \<Rightarrow> string"

type_synonym config_file = string

type_synonym 'w Factory =
  "config_file option \<Rightarrow> 'w \<Rightarrow> ('w Interface option \<times> error option) \<times> 'w"

text \<open>\<open>os.Open\<close> and \<open>Close\<close> on an open file.\<close>

record 'w files =
  OpenFile :: "string \<Rightarrow> 'w \<Rightarrow> (error + config_file) \<times> 'w"
  CloseFile :: "config_file \<Rightarrow> 'w \<Rightarrow> 'w"

datatype exit = Fatal string

datatype plugin_call =
    Opened string "error option"
  | Closed config_file
  | CalledFactory string "config_file option" "error option"

section \<open>The registry\<close>

definition RegisterMultiClusterProvider ::
  "string \<Rightarrow> 'w Factory \<Rightarrow> (string \<rightharpoonup> 'w Factory) \<Rightarrow> exit + (string \<rightharpoonup> 'w Factory)" where
  "RegisterMultiClusterProvider name cloudFactory providers =
     (if providers name \<noteq> None
      then Inl (Fatal ''Multicluster provider was registered twice'')
      else Inr (providers(name \<mapsto> cloudFactory)))"

definition createMultiClusterProvider ::
  "(string \<rightharpoonup> 'w Factory) \<Rightarrow> string \<Rightarrow> config_file option
    \<Rightarrow> (('w, plugin_call) world, 'w Interface option \<times> error option) state" where
  "createMultiClusterProvider providers name config =
     (case providers name of
        None \<Rightarrow> ret (None, None)
      | Some f \<Rightarrow> lift_call (f config) (\<lambda>r. CalledFactory name config (snd r)))"

text \<open>The checks at the end of \<open>InitMultiClusterProvider\<close>.\<close>

definition checked_provider ::
  "'w Interface option \<times> error option \<Rightarrow> 'w Interface option \<times> error option" where
  "checked_provider r = (case r of (provider, err) \<Rightarrow>
     if err \<noteq> None then (None, Some (Errorf ''could not init multicluster provider''))
     else if provider = None then (None, Some (Errorf ''unknown multicluster provider''))
     else (provider, None))"

definition InitMultiClusterProvider ::
  "'w files \<Rightarrow> (string \<rightharpoonup> 'w Factory) \<Rightarrow> string \<Rightarrow> string
    \<Rightarrow> (('w, plugin_call) world, exit + ('w Interface option \<times> error option)) state" where
  "InitMultiClusterProvider os providers name configFilePath =
     (if name = '''' then ret (Inr (None, None))
      else if configFilePath = '''' then do {
        r \<leftarrow> createMultiClusterProvider providers name None;
        ret (Inr (checked_provider r))
      }
      else do {
        r \<leftarrow> lift_call (OpenFile os configFilePath) (\<lambda>r. Opened configFilePath (error_of r));
        case r of
          Inl e \<Rightarrow> ret (Inl (Fatal ''Couldn't open multicluster provider configuration''))
        | Inr config \<Rightarrow> do {
            r \<leftarrow> createMultiClusterProvider providers name (Some config);
            _ \<leftarrow> lift_call (\<lambda>w. ((), CloseFile os config w)) (\<lambda>_. Closed config);
            ret (Inr (checked_provider r))
          }
      })"

text \<open>cmd/controller-manager/controller-manager.go\<close>

definition cloudInitializer ::
  "'w files \<Rightarrow> (string \<rightharpoonup> 'w Factory) \<Rightarrow> string \<Rightarrow> string
    \<Rightarrow> (('w, plugin_call) world, exit + 'w Interface) state" where
  "cloudInitializer os providers name cloudConfigFile = do {
     r \<leftarrow> InitMultiClusterProvider os providers name cloudConfigFile;
     case r of
       Inl x \<Rightarrow> ret (Inl x)
     | Inr (provider, err) \<Rightarrow>
         if err \<noteq> None then ret (Inl (Fatal ''Multicluster provider could not be initialized''))
         else (case provider of
             None \<Rightarrow> ret (Inl (Fatal ''Multicluster provider is nil''))
           | Some p \<Rightarrow> ret (Inr p))
   }"

text \<open>fake/regist.go: the factory of the fake provider. It starts a fresh provider.\<close>

definition fake_provider :: "deps \<Rightarrow> 'x Provider_scheme Interface" where
  "fake_provider d =
     \<lparr>ifLoadBalancer = map_prod Some id (LoadBalancer d),
      ifMCSLoadBalancer = map_prod Some id (MCSLoadBalancer d),
      ifProviderName = ProviderName\<rparr>"

definition fake_factory :: "deps \<Rightarrow> 'x Provider_scheme Factory" where
  "fake_factory d config w =
     ((Some (fake_provider d), None),
      w\<lparr>ProviderNameField := defaultProviderName, Balancers := None, MCSBalancers := None, Calls := None\<rparr>)"

definition fake_regist ::
  "deps \<Rightarrow> (string \<rightharpoonup> 'x Provider_scheme Factory) \<Rightarrow> exit + (string \<rightharpoonup> 'x Provider_scheme Factory)" where
  "fake_regist d = RegisterMultiClusterProvider defaultProviderName (fake_factory d)"

text \<open>Files that can always be opened, to run on.\<close>

definition test_files :: "'w files" where
  "test_files = \<lparr>OpenFile = \<lambda>path w. (Inr path, w), CloseFile = \<lambda>config w. w\<rparr>"

section \<open>Lemmas\<close>

lemma RegisterMultiClusterProvider_ok:
  "RegisterMultiClusterProvider name f providers = Inr providers' \<longleftrightarrow>
     providers name = None \<and> providers' = providers(name \<mapsto> f)"
  by (auto simp: RegisterMultiClusterProvider_def)

lemma checked_provider_ok:
  "checked_provider r = (p, None) \<longleftrightarrow> r = (p, None) \<and> p \<noteq> None"
  by (auto simp: checked_provider_def split: prod.splits)

lemma checked_provider_nil [simp]: "checked_provider (None, None) = (None, Some (Errorf ''unknown multicluster provider''))"
  by (simp add: checked_provider_def)

lemma cloudInitializer_ok:
  "run_state (cloudInitializer os providers name path) s = (Inr p, s') \<longleftrightarrow>
     run_state (InitMultiClusterProvider os providers name path) s = (Inr (Some p, None), s')"
  by (auto simp: cloudInitializer_def split: prod.splits sum.splits option.splits if_splits)

section \<open>Properties\<close>



text \<open>
  The command gets a provider exactly when its name is not empty and registered, the
  configuration file, if one is given, can be opened, and the factory returns a provider without
  an error; it is then that provider. The factory runs once, with the open file, which is closed
  afterwards and before the provider is used. In every other case the process ends.
\<close>

lemma plugin_provider_selected:
  "fst (run_state (cloudInitializer os providers name path) s) = Inr p \<longleftrightarrow>
     name \<noteq> '''' \<and> (\<exists>f config w. providers name = Some f \<and> fst (f config w) = (Some p, None) \<and>
       (if path = ''''
        then config = None \<and> w = env s \<and>
          calls (snd (run_state (cloudInitializer os providers name path) s)) =
            calls s @ [CalledFactory name None None]
        else \<exists>h. config = Some h \<and> OpenFile os path (env s) = (Inr h, w) \<and>
          calls (snd (run_state (cloudInitializer os providers name path) s)) =
            calls s @ [Opened path None, CalledFactory name (Some h) None, Closed h]))"
proof (cases "providers name")
  case None
  then show ?thesis
    by (auto simp: cloudInitializer_def InitMultiClusterProvider_def createMultiClusterProvider_def
        run_lift_call split: prod.splits sum.splits)
next
  case (Some f)
  then show ?thesis
    by (auto simp: cloudInitializer_def InitMultiClusterProvider_def createMultiClusterProvider_def
        run_lift_call checked_provider_def split: prod.splits sum.splits option.splits if_splits)
qed

end
