(* ===== verification/ControllerContext.thy ===== *)
theory ControllerContext
  imports CommandOptions Plugins MciController McsController CrdInstallation ServiceExport SvcLocations
begin

text \<open>
  pkg/controllers/context/context.go: which controllers are enabled and how they are started, and
  the manager of controller-runtime as the controllers use it when they are started. The manager
  is a parameter: its operations are arbitrary functions of the world outside.
\<close>

section \<open>The manager\<close>

text \<open>The reconciler that a controller is made with.\<close>

datatype 'w reconciler =
    ReconcilesMCI "'w MCIController"
  | ReconcilesMCS "'w MCSController"
  | ReconcilesCrd "'w CrdController"
  | ReconcilesExport "'w ExportController"
  | ReconcilesLocations "'w LocController"

text \<open>The types of objects and channels that are watched, and the handlers that see their events.\<close>

datatype watched = OfMCI | OfMCS | OfService | OfEndpointSlice | OfSecret | OfCluster
  | OfResourceBinding | OfClusterPropagationPolicy

datatype event_handler = MCIEventHandler | MCSEventHandler | SvcEventHandler | EpsEventHandler
  | SecEventHandler | ClusterHandler | RBEventHandler

datatype source = Kind watched event_handler | Channel watched event_handler

text \<open>
  \<open>AddHealthzCheck\<close> and \<open>Start\<close> are used by the command, \<open>NewController\<close> stands for
  \<open>controller.New\<close>, \<open>Watch\<close> for the method of the controller it returned, \<open>Complete\<close> for a
  builder: the kind \<open>For\<close> which it is built and those it \<open>Watches\<close>.
\<close>

record 'w Manager =
  GetClient :: "'w client"
  GetFieldIndexer :: "'w field_indexer"
  NewController :: "string \<Rightarrow> 'w reconciler \<Rightarrow> 'w \<Rightarrow> error option \<times> 'w"
  Watch :: "string \<Rightarrow> source \<Rightarrow> 'w \<Rightarrow> error option \<times> 'w"
  Complete :: "watched \<Rightarrow> watched list \<Rightarrow> 'w reconciler \<Rightarrow> 'w \<Rightarrow> error option \<times> 'w"
  AddHealthzCheck :: "string \<Rightarrow> 'w \<Rightarrow> error option \<times> 'w"
  Start :: "'w \<Rightarrow> error option \<times> 'w"

text \<open>The options of controller-runtime's manager that the command sets from its own.\<close>

record manager_options =
  Leader :: LeaderElectionConfiguration
  SyncPeriod :: int
  HealthProbeBindAddress :: string
  LivenessEndpointName :: string
  MetricsAddress :: string

datatype 'w start_call =
    ProviderInitialized string string "exit option"
  | ConfigLoaded "error option"
  | ManagerMade manager_options "error option"
  | HealthzAdded string "error option"
  | FieldIndexed string "error option"
  | ControllerMade string "'w reconciler" "error option"
  | Watched string source "error option"
  | Completed watched "watched list" "'w reconciler" "error option"
  | Started "error option"

fun outcome :: "'w start_call \<Rightarrow> error option" where
  "outcome (ProviderInitialized n f x) = map_option (\<lambda>_. Panic) x"
| "outcome (ConfigLoaded e) = e"
| "outcome (ManagerMade opts e) = e"
| "outcome (HealthzAdded n e) = e"
| "outcome (FieldIndexed k e) = e"
| "outcome (ControllerMade n r e) = e"
| "outcome (Watched n src e) = e"
| "outcome (Completed k ks r e) = e"
| "outcome (Started e) = e"

type_synonym ('w, 'a) start = "(('w, 'w start_call) world, 'a) state"

text \<open>Go's \<open>if err := m; err != nil { return err }\<close> followed by \<open>n\<close>.\<close>

definition unless_err :: "('w, error option) start \<Rightarrow> ('w, error option) start \<Rightarrow> ('w, error option) start" where
  "unless_err m n = do {
     err \<leftarrow> m;
     if err \<noteq> None then ret err else n
   }"

section \<open>The context\<close>

text \<open>
  \<open>Mgr\<close>, \<open>CloudProvider\<close>, the two fields the code reads of \<open>Opts\<close>, and \<open>ProviderClassName\<close>; the
  library functions that the controllers call are carried along in \<open>Libs\<close>.
\<close>

record Options =
  Controllers :: "string list"
  RateLimiterOptions :: rest

record 'w libs =
  libDeps :: deps
  libMCIRetry :: "(MultiClusterIngress, ('w, call) world) retrier"
  libBlockRetry :: "(block_vars, ('w, call) world) retrier"
  libMCSRetry :: "(MultiClusterService, ('w, call) world) retrier"

record 'w Context =
  Mgr :: "'w Manager"
  CloudProvider :: "'w Interface"
  Opts :: Options
  ProviderClassName :: string
  Libs :: "'w libs"

text \<open>The loop of \<open>IsControllerEnabled\<close>, with its variable \<open>hasStar\<close>: an answer, or whether there was a star.\<close>

fun scan_controllers :: "string \<Rightarrow> string list \<Rightarrow> bool \<Rightarrow> bool + bool" where
  "scan_controllers name [] hasStar = Inr hasStar"
| "scan_controllers name (ctrl # ctrls) hasStar =
     (if ctrl = name then Inl True
      else if ctrl = ''-'' @ name then Inl False
      else if ctrl = ''*'' then scan_controllers name ctrls True
      else scan_controllers name ctrls hasStar)"

definition IsControllerEnabled :: "'w Context \<Rightarrow> string \<Rightarrow> string set \<Rightarrow> bool" where
  "IsControllerEnabled c name disabledByDefaultControllers =
     (case scan_controllers name (Controllers (Opts c)) False of
        Inl answer \<Rightarrow> answer
      | Inr hasStar \<Rightarrow> if \<not> hasStar then False else name \<notin> disabledByDefaultControllers)"

text \<open>
  A Go map is ranged over in an order that is not determined: \<open>Initializers\<close> lists its entries in
  the order of this range.
\<close>

type_synonym 'w InitFunc = "'w Context \<Rightarrow> ('w, bool \<times> error option) start"
type_synonym 'w Initializers = "(string \<times> 'w InitFunc) list"

definition ControllerNames :: "deps \<Rightarrow> 'w Initializers \<Rightarrow> string list" where
  "ControllerNames d i = SetsList d (map fst i)"

fun StartControllers :: "'w Initializers \<Rightarrow> 'w Context \<Rightarrow> string set \<Rightarrow> ('w, error option) start" where
  "StartControllers [] ctx controllersDisabledByDefault = ret None"
| "StartControllers ((controllerName, initFn) # i) ctx controllersDisabledByDefault =
     (if \<not> IsControllerEnabled ctx controllerName controllersDisabledByDefault
      then StartControllers i ctx controllersDisabledByDefault
      else do {
        (started, err) \<leftarrow> initFn ctx;
        if err \<noteq> None then ret err
        else StartControllers i ctx controllersDisabledByDefault
      })"

section \<open>Lemmas\<close>

text \<open>An explicit choice of a controller: its name, or its name after a dash.\<close>

definition chooses :: "string \<Rightarrow> string \<Rightarrow> bool" where
  "chooses name ctrl \<longleftrightarrow> ctrl = name \<or> ctrl = ''-'' @ name"

lemma scan_controllers_cases:
  "scan_controllers name ctrls b =
     (case filter (chooses name) ctrls of
        [] \<Rightarrow> Inr (b \<or> ''*'' \<in> set ctrls)
      | ctrl # _ \<Rightarrow> Inl (ctrl = name))"
proof (induction ctrls arbitrary: b)
  case (Cons ctrl ctrls)
  show ?case
  proof (cases "chooses name ctrl")
    case True
    then show ?thesis by (auto simp: chooses_def)
  next
    case False
    then have "ctrl \<noteq> name" and "ctrl \<noteq> ''-'' @ name" by (auto simp: chooses_def)
    then show ?thesis
      using False Cons.IH by (cases "ctrl = ''*''") (auto split: list.splits)
  qed
qed simp

text \<open>
  \<open>m\<close> either makes the calls \<open>cs\<close>, which all succeed, and returns nil, or its last call is the first
  that fails, and it returns that error.
\<close>

named_theorems start_rules \<open>what the parts of the start make\<close>

definition makes :: "('w, error option) start \<Rightarrow> 'w start_call list \<Rightarrow> bool" where
  "makes m cs \<longleftrightarrow> (\<forall>s. \<exists>as. calls (snd (run_state m s)) = calls s @ as \<and>
     (case fst (run_state m s) of
        None \<Rightarrow> as = cs
      | Some e \<Rightarrow> \<exists>bs c. as = bs @ [c] \<and> outcome c = Some e \<and> (\<forall>b \<in> set bs. outcome b = None)))"

lemma makesD_None:
  assumes "makes m cs" and "run_state m s = (None, s')"
  shows "calls s' = calls s @ cs"
  using spec [OF assms(1) [unfolded makes_def], of s] assms(2) by simp

lemma makesD_Some:
  assumes "makes m cs" and "run_state m s = (Some e, s')"
  shows "\<exists>bs c. calls s' = calls s @ bs @ [c] \<and> outcome c = Some e \<and> (\<forall>b \<in> set bs. outcome b = None)"
  using spec [OF assms(1) [unfolded makes_def], of s] assms(2) by auto

lemma makesI:
  assumes "\<And>s s'. run_state m s = (None, s') \<Longrightarrow> calls s' = calls s @ cs"
    and "\<And>s e s'. run_state m s = (Some e, s') \<Longrightarrow>
      \<exists>bs c. calls s' = calls s @ bs @ [c] \<and> outcome c = Some e \<and> (\<forall>b \<in> set bs. outcome b = None)"
  shows "makes m cs"
  unfolding makes_def
proof
  fix s
  show "\<exists>as. calls (snd (run_state m s)) = calls s @ as \<and>
     (case fst (run_state m s) of
        None \<Rightarrow> as = cs
      | Some e \<Rightarrow> \<exists>bs c. as = bs @ [c] \<and> outcome c = Some e \<and> (\<forall>b \<in> set bs. outcome b = None))"
  proof (cases "run_state m s")
    case (Pair r s')
    then show ?thesis using assms(1) [of s s'] assms(2) [of s _ s'] by (cases r) auto
  qed
qed

lemma makes_ret [start_rules]: "makes (ret None) []"
  by (rule makesI) auto

lemma makes_call [start_rules]:
  "(\<And>e. outcome (entry e) = e) \<Longrightarrow> makes (lift_call f entry) [entry None]"
  by (rule makesI) (auto simp: run_lift_call split: prod.splits)

lemma makes_unless [start_rules]:
  assumes "makes m cs" and "\<forall>c \<in> set cs. outcome c = None" and "makes n ds"
  shows "makes (unless_err m n) (cs @ ds)"
proof (rule makesI)
  fix s s' assume "run_state (unless_err m n) s = (None, s')"
  then obtain s1 where "run_state m s = (None, s1)" and "run_state n s1 = (None, s')"
    by (auto simp: unless_err_def split: prod.splits if_splits)
  then show "calls s' = calls s @ cs @ ds"
    using makesD_None [OF assms(1), of s s1] makesD_None [OF assms(3), of s1 s'] by simp
next
  fix s e s' assume run: "run_state (unless_err m n) s = (Some e, s')"
  show "\<exists>bs c. calls s' = calls s @ bs @ [c] \<and> outcome c = Some e \<and> (\<forall>b \<in> set bs. outcome b = None)"
  proof (cases "fst (run_state m s)")
    case None
    then obtain s1 where m: "run_state m s = (None, s1)" by (metis prod.collapse)
    with run have "run_state n s1 = (Some e, s')" by (simp add: unless_err_def)
    with assms(3) obtain bs c where "calls s' = calls s1 @ bs @ [c]" "outcome c = Some e"
      "\<forall>b \<in> set bs. outcome b = None" using makesD_Some by blast
    then have "calls s' = calls s @ (cs @ bs) @ [c]" and "\<forall>b \<in> set (cs @ bs). outcome b = None"
      using makesD_None [OF assms(1) m] assms(2) by auto
    then show ?thesis using \<open>outcome c = Some e\<close> by blast
  next
    case (Some e1)
    then obtain s1 where m: "run_state m s = (Some e1, s1)" by (metis prod.collapse)
    with run have "e1 = e" "s1 = s'" by (simp_all add: unless_err_def)
    then show ?thesis using makesD_Some [OF assms(1) m] by simp
  qed
qed

section \<open>Properties\<close>

text \<open>
  The first entry of the list that names the controller, plainly or after a dash, decides whether it
  is enabled; without one it is enabled exactly if the list has a star and the controller is not
  disabled by default.
\<close>

lemma context_first_choice_decides:
  "IsControllerEnabled c name disabled =
     (case filter (chooses name) (Controllers (Opts c)) of
        [] \<Rightarrow> ''*'' \<in> set (Controllers (Opts c)) \<and> name \<notin> disabled
      | ctrl # _ \<Rightarrow> ctrl = name)"
  by (auto simp: IsControllerEnabled_def scan_controllers_cases split: list.splits)

end
