(* ===== verification/Startup.thy ===== *)
theory Startup
  imports ControllerContext
begin

text \<open>
  app/controllers.go and \<open>setupControllers\<close> of app/manager.go: the five controllers, how each is
  built from the context and handed to the manager (with its \<open>SetupWithManager\<close> and the sources
  that its \<open>setupWatches\<close> watches), and the indexes of the cache.
\<close>

section \<open>The controllers and the manager\<close>

definition new_controller :: "'w Manager \<Rightarrow> string \<Rightarrow> 'w reconciler \<Rightarrow> ('w, error option) start" where
  "new_controller mgr name r = lift_call (NewController mgr name r) (ControllerMade name r)"

definition watch :: "'w Manager \<Rightarrow> string \<Rightarrow> source \<Rightarrow> ('w, error option) start" where
  "watch mgr name src = lift_call (Watch mgr name src) (Watched name src)"

definition complete ::
  "'w Manager \<Rightarrow> watched \<Rightarrow> watched list \<Rightarrow> 'w reconciler \<Rightarrow> ('w, error option) start" where
  "complete mgr forKind ks r = lift_call (Complete mgr forKind ks r) (Completed forKind ks r)"

text \<open>One \<open>Watch\<close> after the other, as long as none fails.\<close>

fun watch_all :: "'w Manager \<Rightarrow> string \<Rightarrow> source list \<Rightarrow> ('w, error option) start" where
  "watch_all mgr name [] = ret None"
| "watch_all mgr name (src # srcs) = unless_err (watch mgr name src) (watch_all mgr name srcs)"

definition mci_ControllerName :: string where
  "mci_ControllerName = ''multiclusteringress-controller''"

definition mcs_ControllerName :: string where
  "mcs_ControllerName = ''multiclusterservice-controller''"

definition exp_ControllerName :: string where
  "exp_ControllerName = ''serviceexport-propagation-controller''"

definition mci_sources :: "source list" where
  "mci_sources = [Kind OfMCI MCIEventHandler, Channel OfMCI MCIEventHandler,
     Kind OfService SvcEventHandler, Channel OfService SvcEventHandler,
     Kind OfEndpointSlice EpsEventHandler, Kind OfSecret SecEventHandler, Kind OfCluster ClusterHandler]"

definition mcs_sources :: "source list" where
  "mcs_sources = [Kind OfMCS MCSEventHandler, Channel OfMCS MCSEventHandler,
     Kind OfService SvcEventHandler, Channel OfService SvcEventHandler,
     Kind OfEndpointSlice EpsEventHandler]"

definition exp_sources :: "source list" where
  "exp_sources = [Kind OfService SvcEventHandler, Channel OfService SvcEventHandler,
     Kind OfMCI MCIEventHandler, Kind OfMCS MCSEventHandler, Kind OfResourceBinding RBEventHandler]"

definition mci_SetupWithManager :: "'w MCIController \<Rightarrow> 'w Manager \<Rightarrow> ('w, error option) start" where
  "mci_SetupWithManager c mgr =
     unless_err (new_controller mgr mci_ControllerName (ReconcilesMCI c))
       (watch_all mgr mci_ControllerName mci_sources)"

definition mcs_SetupWithManager :: "'w MCSController \<Rightarrow> 'w Manager \<Rightarrow> ('w, error option) start" where
  "mcs_SetupWithManager c mgr =
     unless_err (new_controller mgr mcs_ControllerName (ReconcilesMCS c))
       (watch_all mgr mcs_ControllerName mcs_sources)"

definition exp_SetupWithManager :: "'w ExportController \<Rightarrow> 'w Manager \<Rightarrow> ('w, error option) start" where
  "exp_SetupWithManager c mgr =
     unless_err (new_controller mgr exp_ControllerName (ReconcilesExport c))
       (watch_all mgr exp_ControllerName exp_sources)"

definition crd_SetupWithManager :: "'w CrdController \<Rightarrow> 'w Manager \<Rightarrow> ('w, error option) start" where
  "crd_SetupWithManager r mgr = complete mgr OfCluster [OfClusterPropagationPolicy] (ReconcilesCrd r)"

definition loc_SetupWithManager :: "'w LocController \<Rightarrow> 'w Manager \<Rightarrow> ('w, error option) start" where
  "loc_SetupWithManager c mgr = complete mgr OfMCI [OfResourceBinding] (ReconcilesLocations c)"

section \<open>Starting the controllers\<close>

text \<open>How a start function ends: \<open>return false, err\<close> or \<open>return true, nil\<close>.\<close>

definition enabled_unless_err :: "('w, error option) start \<Rightarrow> ('w, bool \<times> error option) start" where
  "enabled_unless_err m = do {
     err \<leftarrow> m;
     if err \<noteq> None then ret (False, err) else ret (True, None)
   }"

definition mci_controller_of :: "'w Context \<Rightarrow> (MultiClusterIngress, 'w) balancer \<Rightarrow> 'w MCIController" where
  "mci_controller_of ctx loadBalancer =
     \<lparr>mciDeps = libDeps (Libs ctx), mciClient = GetClient (Mgr ctx), mciLoadBalancer = loadBalancer,
      mciRetry = libMCIRetry (Libs ctx), mciBlockRetry = libBlockRetry (Libs ctx),
      mciProviderClassName = ProviderClassName ctx\<rparr>"

definition mcs_controller_of :: "'w Context \<Rightarrow> (MultiClusterService, 'w) balancer \<Rightarrow> 'w MCSController" where
  "mcs_controller_of ctx loadBalancer =
     \<lparr>mcsDeps = libDeps (Libs ctx), mcsClient = GetClient (Mgr ctx), mcsBalancer = loadBalancer,
      mcsRetry = libMCSRetry (Libs ctx)\<rparr>"

definition crd_controller_of :: "'w Context \<Rightarrow> 'w CrdController" where
  "crd_controller_of ctx = \<lparr>crdDeps = libDeps (Libs ctx), crdClient = GetClient (Mgr ctx)\<rparr>"

definition exp_controller_of :: "'w Context \<Rightarrow> 'w ExportController" where
  "exp_controller_of ctx = \<lparr>expDeps = libDeps (Libs ctx), expClient = GetClient (Mgr ctx),
     expProviderClassName = ProviderClassName ctx\<rparr>"

definition loc_controller_of :: "'w Context \<Rightarrow> 'w LocController" where
  "loc_controller_of ctx = \<lparr>locDeps = libDeps (Libs ctx), locClient = GetClient (Mgr ctx),
     locRetry = libMCIRetry (Libs ctx)\<rparr>"

definition startMCIController :: "'w InitFunc" where
  "startMCIController ctx =
     (case ifLoadBalancer (CloudProvider ctx) of (loadBalancer, support) \<Rightarrow>
        if \<not> support then ret (False, Some (Errorf
          ''the multicluster controller manager does not support external loadBalancer''))
        else case loadBalancer of
            None \<Rightarrow> ret (False, Some (Errorf ''clouldn't get the target external loadBalancer provider''))
          | Some lb \<Rightarrow> enabled_unless_err (mci_SetupWithManager (mci_controller_of ctx lb) (Mgr ctx)))"

definition startMCSController :: "'w InitFunc" where
  "startMCSController ctx =
     (case ifMCSLoadBalancer (CloudProvider ctx) of (loadBalancer, support) \<Rightarrow>
        if \<not> support then ret (False, Some (Errorf
          ''the multicluster controller manager does not support external loadBalancer''))
        else case loadBalancer of
            None \<Rightarrow> ret (False, Some (Errorf ''clouldn't get the target external loadBalancer provider''))
          | Some lb \<Rightarrow> enabled_unless_err (mcs_SetupWithManager (mcs_controller_of ctx lb) (Mgr ctx)))"

definition startCRDInstallationController :: "'w InitFunc" where
  "startCRDInstallationController ctx =
     enabled_unless_err (crd_SetupWithManager (crd_controller_of ctx) (Mgr ctx))"

definition startServiceExportPropagationController :: "'w InitFunc" where
  "startServiceExportPropagationController ctx =
     enabled_unless_err (exp_SetupWithManager (exp_controller_of ctx) (Mgr ctx))"

definition startMCIServiceLocationsController :: "'w InitFunc" where
  "startMCIServiceLocationsController ctx =
     enabled_unless_err (loc_SetupWithManager (loc_controller_of ctx) (Mgr ctx))"

section \<open>setupControllers\<close>

text \<open>The table that \<open>init\<close> fills.\<close>

definition controllers :: "'w Initializers" where
  "controllers =
     [(''multiclusteringress'', startMCIController),
      (''multiclusterservice'', startMCSController),
      (''crd-installation'', startCRDInstallationController),
      (''serviceexport-propagation'', startServiceExportPropagationController),
      (''mci-service-locations'', startMCIServiceLocationsController)]"

definition setupIndexesForMCI :: "deps \<Rightarrow> 'w field_indexer \<Rightarrow> ('w, exit option) start" where
  "setupIndexesForMCI d fieldIndexer = do {
     err \<leftarrow> lift_call (SetupServiceIndexesForMCI d fieldIndexer) (FieldIndexed IndexKeyServiceRefName);
     if err \<noteq> None
     then ret (Some (Fatal ''failed to setup service indexes for MultiClusterIngress object''))
     else do {
       err \<leftarrow> lift_call (SetupSecretIndexesForMCI d fieldIndexer) (FieldIndexed IndexKeySecretRefName);
       if err \<noteq> None
       then ret (Some (Fatal ''failed to setup secret indexes for MultiClusterIngress object''))
       else ret None
     }
   }"

text \<open>
  \<open>order_of\<close> puts the entries of the table in the order in which Go ranges over them. The list of
  controllers is the names of the table, and none is disabled by default.
\<close>

definition controller_context ::
  "'w libs \<Rightarrow> 'w Manager \<Rightarrow> 'w Interface \<Rightarrow> rest \<Rightarrow> string \<Rightarrow> 'w Context" where
  "controller_context libs mgr cloudProvider rateLimiterOpts providerClassName =
     \<lparr>Mgr = mgr, CloudProvider = cloudProvider,
      Opts = \<lparr>Controllers = ControllerNames (libDeps libs) (controllers :: 'w Initializers),
        RateLimiterOptions = rateLimiterOpts\<rparr>,
      ProviderClassName = providerClassName, Libs = libs\<rparr>"

definition setupControllers ::
  "'w libs \<Rightarrow> ('w Initializers \<Rightarrow> 'w Initializers) \<Rightarrow> 'w Manager \<Rightarrow> 'w Interface \<Rightarrow> rest \<Rightarrow> string
    \<Rightarrow> ('w, exit option) start" where
  "setupControllers libs order_of mgr cloudProvider rateLimiterOpts providerClassName = do {
     fatal \<leftarrow> setupIndexesForMCI (libDeps libs) (GetFieldIndexer mgr);
     if fatal \<noteq> None then ret fatal
     else do {
       let controllerCtx = controller_context libs mgr cloudProvider rateLimiterOpts providerClassName;
       err \<leftarrow> StartControllers (order_of controllers) controllerCtx {};
       if err \<noteq> None then ret (Some (Fatal ''error starting controllers'')) else ret None
     }
   }"

section \<open>Lemmas\<close>

text \<open>What the provider must offer for the controllers to start.\<close>

definition offers :: "'w Interface \<Rightarrow> (MultiClusterIngress, 'w) balancer \<Rightarrow> (MultiClusterService, 'w) balancer \<Rightarrow> bool" where
  "offers p lb mcs_lb \<longleftrightarrow> ifLoadBalancer p = (Some lb, True) \<and> ifMCSLoadBalancer p = (Some mcs_lb, True)"

text \<open>The calls of the manager that start one controller.\<close>

definition watches :: "string \<Rightarrow> 'w reconciler \<Rightarrow> source list \<Rightarrow> 'w start_call list" where
  "watches name r srcs = ControllerMade name r None # map (\<lambda>src. Watched name src None) srcs"

definition starting ::
  "'w Context \<Rightarrow> (MultiClusterIngress, 'w) balancer \<Rightarrow> (MultiClusterService, 'w) balancer \<Rightarrow> string
    \<Rightarrow> 'w start_call list" where
  "starting ctx lb mcs_lb name =
     (if name = ''multiclusteringress''
      then watches mci_ControllerName (ReconcilesMCI (mci_controller_of ctx lb)) mci_sources
      else if name = ''multiclusterservice''
      then watches mcs_ControllerName (ReconcilesMCS (mcs_controller_of ctx mcs_lb)) mcs_sources
      else if name = ''crd-installation''
      then [Completed OfCluster [OfClusterPropagationPolicy] (ReconcilesCrd (crd_controller_of ctx)) None]
      else if name = ''serviceexport-propagation''
      then watches exp_ControllerName (ReconcilesExport (exp_controller_of ctx)) exp_sources
      else [Completed OfMCI [OfResourceBinding] (ReconcilesLocations (loc_controller_of ctx)) None])"

lemma makes_watch_all [start_rules]:
  "makes (watch_all mgr name srcs) (map (\<lambda>src. Watched name src None) srcs)"
proof (induction srcs)
  case (Cons src srcs)
  have "makes (watch mgr name src) [Watched name src None]"
    unfolding watch_def by (rule makes_call) simp
  from makes_unless [OF this _ Cons.IH] show ?case by simp
qed (simp add: makes_ret)

lemma makes_watches:
  "makes (unless_err (new_controller mgr name r) (watch_all mgr name srcs)) (watches name r srcs)"
proof -
  have "makes (new_controller mgr name r) [ControllerMade name r None]"
    unfolding new_controller_def by (rule makes_call) simp
  from makes_unless [OF this _ makes_watch_all] show ?thesis by (simp add: watches_def)
qed

lemma makes_complete [start_rules]: "makes (complete mgr k ks r) [Completed k ks r None]"
  unfolding complete_def by (rule makes_call) simp

lemma outcome_starting: "c \<in> set (starting ctx lb mcs_lb name) \<Longrightarrow> outcome c = None"
  by (auto simp: starting_def watches_def split: if_splits)

lemma run_enabled_unless_err:
  "run_state (enabled_unless_err m) s = (case run_state m s of (err, s') \<Rightarrow> ((err = None, err), s'))"
  by (simp add: enabled_unless_err_def split: prod.splits)

lemma StartControllers_step:
  assumes "IsControllerEnabled ctx n dis" and "f ctx = enabled_unless_err m"
  shows "StartControllers ((n, f) # i) ctx dis = unless_err m (StartControllers i ctx dis)"
  by (rule state.expand, rule ext)
    (use assms in \<open>auto simp: enabled_unless_err_def unless_err_def split: prod.splits\<close>)

lemma start_entry:
  assumes "offers (CloudProvider ctx) lb mcs_lb" and "(n, f) \<in> set controllers"
  shows "\<exists>m. f ctx = enabled_unless_err m \<and> makes m (starting ctx lb mcs_lb n)"
proof -
  have "n = ''multiclusteringress'' \<and> f = startMCIController \<or>
      n = ''multiclusterservice'' \<and> f = startMCSController \<or>
      n = ''crd-installation'' \<and> f = startCRDInstallationController \<or>
      n = ''serviceexport-propagation'' \<and> f = startServiceExportPropagationController \<or>
      n = ''mci-service-locations'' \<and> f = startMCIServiceLocationsController"
    using assms(2) by (simp only: controllers_def list.set insert_iff empty_iff prod.inject simp_thms)
  then show ?thesis
  proof (elim disjE conjE)
    assume "n = ''multiclusteringress''" and "f = startMCIController"
    then have "f ctx = enabled_unless_err (mci_SetupWithManager (mci_controller_of ctx lb) (Mgr ctx))"
      and "starting ctx lb mcs_lb n = watches mci_ControllerName (ReconcilesMCI (mci_controller_of ctx lb)) mci_sources"
      using assms(1) by (simp_all add: startMCIController_def offers_def starting_def)
    then show ?thesis using makes_watches unfolding mci_SetupWithManager_def by metis
  next
    assume "n = ''multiclusterservice''" and "f = startMCSController"
    then have "f ctx = enabled_unless_err (mcs_SetupWithManager (mcs_controller_of ctx mcs_lb) (Mgr ctx))"
      and "starting ctx lb mcs_lb n = watches mcs_ControllerName (ReconcilesMCS (mcs_controller_of ctx mcs_lb)) mcs_sources"
      using assms(1) by (simp_all add: startMCSController_def offers_def starting_def)
    then show ?thesis using makes_watches unfolding mcs_SetupWithManager_def by metis
  next
    assume "n = ''crd-installation''" and "f = startCRDInstallationController"
    then have "f ctx = enabled_unless_err (crd_SetupWithManager (crd_controller_of ctx) (Mgr ctx))"
      and "starting ctx lb mcs_lb n =
        [Completed OfCluster [OfClusterPropagationPolicy] (ReconcilesCrd (crd_controller_of ctx)) None]"
      by (simp_all add: startCRDInstallationController_def starting_def)
    then show ?thesis using makes_complete unfolding crd_SetupWithManager_def by metis
  next
    assume "n = ''serviceexport-propagation''" and "f = startServiceExportPropagationController"
    then have "f ctx = enabled_unless_err (exp_SetupWithManager (exp_controller_of ctx) (Mgr ctx))"
      and "starting ctx lb mcs_lb n = watches exp_ControllerName (ReconcilesExport (exp_controller_of ctx)) exp_sources"
      by (simp_all add: startServiceExportPropagationController_def starting_def)
    then show ?thesis using makes_watches unfolding exp_SetupWithManager_def by metis
  next
    assume "n = ''mci-service-locations''" and "f = startMCIServiceLocationsController"
    then have "f ctx = enabled_unless_err (loc_SetupWithManager (loc_controller_of ctx) (Mgr ctx))"
      and "starting ctx lb mcs_lb n =
        [Completed OfMCI [OfResourceBinding] (ReconcilesLocations (loc_controller_of ctx)) None]"
      by (simp_all add: startMCIServiceLocationsController_def starting_def)
    then show ?thesis using makes_complete unfolding loc_SetupWithManager_def by metis
  qed
qed

lemma makes_StartControllers:
  assumes "offers (CloudProvider ctx) lb mcs_lb" and "set i \<subseteq> set controllers"
    and "\<And>n. n \<in> fst ` set i \<Longrightarrow> IsControllerEnabled ctx n dis"
  shows "makes (StartControllers i ctx dis) (concat (map (\<lambda>entry. starting ctx lb mcs_lb (fst entry)) i))"
  using assms(2,3)
proof (induction i)
  case (Cons entry i)
  obtain n f where entry: "entry = (n, f)" by (cases entry)
  with Cons.prems obtain m where "f ctx = enabled_unless_err m" and "makes m (starting ctx lb mcs_lb n)"
    using start_entry [OF assms(1)] by (metis list.set_intros(1) subsetD)
  moreover have "makes (StartControllers i ctx dis) (concat (map (\<lambda>entry. starting ctx lb mcs_lb (fst entry)) i))"
    using Cons by auto
  moreover have "IsControllerEnabled ctx n dis" using Cons.prems(2) entry by simp
  ultimately show ?case
    using makes_unless [of m "starting ctx lb mcs_lb n" "StartControllers i ctx dis"]
      outcome_starting [of _ ctx lb mcs_lb n]
    by (simp add: entry StartControllers_step del: StartControllers.simps)
qed (simp add: makes_ret)

lemma StartControllers_fails:
  assumes "(n, f) \<in> set i" and "IsControllerEnabled ctx n dis"
    and "\<And>s. snd (fst (run_state (f ctx) s)) \<noteq> None"
  shows "fst (run_state (StartControllers i ctx dis) s) \<noteq> None"
  using assms(1)
proof (induction i arbitrary: s)
  case (Cons entry i)
  obtain n1 f1 where entry: "entry = (n1, f1)" by (cases entry)
  show ?case
  proof (cases "(n1, f1) = (n, f)")
    case True
    then show ?thesis using assms(2) assms(3) [of s] by (auto simp: entry split: prod.splits)
  next
    case False
    then show ?thesis using Cons by (auto simp: entry split: prod.splits)
  qed
qed simp

lemma scan_controllers_listed:
  "name \<in> set ctrls \<Longrightarrow> ''-'' @ name \<notin> set ctrls \<Longrightarrow> scan_controllers name ctrls b = Inl True"
  by (induction ctrls arbitrary: b) auto

lemma all_enabled:
  fixes libs :: "'w libs"
  assumes "sets_ok (libDeps libs)" and "n \<in> fst ` set (controllers :: 'w Initializers)"
  shows "IsControllerEnabled (controller_context libs mgr p r cls) n {}"
proof -
  have names: "set (ControllerNames (libDeps libs) (controllers :: 'w Initializers)) =
      fst ` set (controllers :: 'w Initializers)"
    using assms(1) by (simp add: ControllerNames_def sets_okD)
  have "''-'' @ n \<notin> fst ` set (controllers :: 'w Initializers)"
    by (simp add: controllers_def)
  then show ?thesis
    using assms(2) by (simp add: IsControllerEnabled_def controller_context_def scan_controllers_listed names)
qed

text \<open>The start without the ways in which the process ends.\<close>

definition setup_steps :: "'w Context \<Rightarrow> 'w Initializers \<Rightarrow> ('w, error option) start" where
  "setup_steps ctx i = unless_err
     (lift_call (SetupServiceIndexesForMCI (libDeps (Libs ctx)) (GetFieldIndexer (Mgr ctx)))
       (FieldIndexed IndexKeyServiceRefName))
     (unless_err
       (lift_call (SetupSecretIndexesForMCI (libDeps (Libs ctx)) (GetFieldIndexer (Mgr ctx)))
         (FieldIndexed IndexKeySecretRefName))
       (StartControllers i ctx {}))"

lemma setupControllers_steps:
  assumes "run_state (setupControllers libs order_of mgr p r cls) s = (fatal, s')"
  obtains err where "run_state (setup_steps (controller_context libs mgr p r cls) (order_of controllers)) s = (err, s')"
    and "fatal = None \<longleftrightarrow> err = None"
proof -
  have "snd (run_state (setup_steps (controller_context libs mgr p r cls) (order_of controllers)) s) = s' \<and>
      (fatal = None \<longleftrightarrow> fst (run_state (setup_steps (controller_context libs mgr p r cls) (order_of controllers)) s) = None)"
    using assms
    by (auto simp: setupControllers_def setupIndexesForMCI_def setup_steps_def unless_err_def Let_def
        controller_context_def split: prod.splits if_splits)
  then show ?thesis using that by (metis prod.collapse)
qed

lemma makes_setup_steps:
  fixes libs :: "'w libs"
  assumes "sets_ok (libDeps libs)" and "mset i = mset controllers" and "offers p lb mcs_lb"
  shows "makes (setup_steps (controller_context libs mgr p r cls) i)
    ([FieldIndexed IndexKeyServiceRefName None, FieldIndexed IndexKeySecretRefName None] @
      concat (map (\<lambda>entry. starting (controller_context libs mgr p r cls) lb mcs_lb (fst entry)) i))"
proof -
  let ?ctx = "controller_context libs mgr p r cls"
  have "offers (CloudProvider ?ctx) lb mcs_lb" using assms(3) by (simp add: controller_context_def)
  moreover have "set i = set controllers" using assms(2) by (rule mset_eq_setD)
  moreover have "n \<in> fst ` set i \<Longrightarrow> IsControllerEnabled ?ctx n {}" for n
    using all_enabled [OF assms(1)] calculation(2) by metis
  ultimately have "makes (StartControllers i ?ctx {})
      (concat (map (\<lambda>entry. starting ?ctx lb mcs_lb (fst entry)) i))"
    by (intro makes_StartControllers) simp_all
  then have "makes (setup_steps ?ctx i) ([FieldIndexed IndexKeyServiceRefName None] @
      [FieldIndexed IndexKeySecretRefName None] @
      concat (map (\<lambda>entry. starting ?ctx lb mcs_lb (fst entry)) i))"
    unfolding setup_steps_def by (intro makes_unless makes_call) simp_all
  then show ?thesis by simp
qed

lemma setup_steps_fails:
  fixes libs :: "'w libs"
  assumes "sets_ok (libDeps libs)" and "mset i = mset controllers" and "\<nexists>lb mcs_lb. offers p lb mcs_lb"
  shows "fst (run_state (setup_steps (controller_context libs mgr p r cls) i) s) \<noteq> None"
proof -
  let ?ctx = "controller_context libs mgr p r cls"
  have "\<exists>n f. (n, f) \<in> set (controllers :: 'w Initializers) \<and> (\<forall>s. snd (fst (run_state (f ?ctx) s)) \<noteq> None)"
  proof (cases "\<exists>lb. ifLoadBalancer p = (Some lb, True)")
    case True
    with assms(3) have "\<forall>s. snd (fst (run_state (startMCSController ?ctx) s)) \<noteq> None"
      by (auto simp: startMCSController_def controller_context_def offers_def split: prod.splits option.splits)
    moreover have "(''multiclusterservice'', startMCSController) \<in> set (controllers :: 'w Initializers)"
      by (simp add: controllers_def)
    ultimately show ?thesis by blast
  next
    case False
    then have "\<forall>s. snd (fst (run_state (startMCIController ?ctx) s)) \<noteq> None"
      by (auto simp: startMCIController_def controller_context_def split: prod.splits option.splits)
    moreover have "(''multiclusteringress'', startMCIController) \<in> set (controllers :: 'w Initializers)"
      by (simp add: controllers_def)
    ultimately show ?thesis by blast
  qed
  then obtain n f where f: "(n, f) \<in> set (controllers :: 'w Initializers)"
    "\<And>s. snd (fst (run_state (f ?ctx) s)) \<noteq> None" by blast
  then have "n \<in> fst ` set (controllers :: 'w Initializers)" by (metis fst_conv image_eqI)
  then have "IsControllerEnabled ?ctx n {}" by (rule all_enabled [OF assms(1)])
  moreover have "(n, f) \<in> set i" using f(1) mset_eq_setD [OF assms(2)] by simp
  moreover note f(2)
  ultimately have "fst (run_state (StartControllers i ?ctx {}) s) \<noteq> None" for s
    by (intro StartControllers_fails)
  then show ?thesis
    by (auto simp: setup_steps_def unless_err_def split: prod.splits)
qed

text \<open>
  When the start succeeds, it made the following calls and no other: the two indexes of the cache,
  and for each of the five controllers, in some order, its creation followed by all its watches.
\<close>

lemma setupControllers_starts_all:
  fixes libs :: "'w libs"
  assumes "sets_ok (libDeps libs)" and "mset (order_of controllers) = mset controllers"
    and "run_state (setupControllers libs order_of mgr p r cls) s = (None, s')"
  shows "\<exists>lb mcs_lb order. offers p lb mcs_lb \<and> mset order = mset [''multiclusteringress'',
      ''multiclusterservice'', ''crd-installation'', ''serviceexport-propagation'', ''mci-service-locations''] \<and>
    calls s' = calls s @
      [FieldIndexed IndexKeyServiceRefName None, FieldIndexed IndexKeySecretRefName None] @
      concat (map (starting (controller_context libs mgr p r cls) lb mcs_lb) order)"
proof -
  obtain err where run: "run_state (setup_steps (controller_context libs mgr p r cls) (order_of controllers)) s = (err, s')"
    and "err = None"
    using setupControllers_steps [OF assms(3)] by blast
  then obtain lb mcs_lb where offers: "offers p lb mcs_lb"
    using setup_steps_fails [OF assms(1,2), of p mgr r cls s] by auto
  have "mset (map fst (order_of controllers)) = mset (map fst (controllers :: 'w Initializers))"
    using assms(2) by (simp only: mset_map)
  also have "map fst (controllers :: 'w Initializers) = [''multiclusteringress'', ''multiclusterservice'', ''crd-installation'',
      ''serviceexport-propagation'', ''mci-service-locations'']"
    by (simp add: controllers_def)
  finally have "mset (map fst (order_of controllers)) = mset [''multiclusteringress'', ''multiclusterservice'',
      ''crd-installation'', ''serviceexport-propagation'', ''mci-service-locations'']" .
  moreover have "calls s' = calls s @
      [FieldIndexed IndexKeyServiceRefName None, FieldIndexed IndexKeySecretRefName None] @
      concat (map (starting (controller_context libs mgr p r cls) lb mcs_lb) (map fst (order_of controllers)))"
    using makesD_None [OF makes_setup_steps [OF assms(1,2) offers, of mgr r cls], of s s'] run \<open>err = None\<close>
    by (simp add: comp_def)
  ultimately show ?thesis using offers by blast
qed

section \<open>A manager that accepts everything\<close>

definition test_manager :: "'x Testbed_scheme Manager" where
  "test_manager = \<lparr>GetClient = mem_server std_deps, GetFieldIndexer = \<lambda>k f w. (None, w),
     NewController = \<lambda>n r w. (None, w), Watch = \<lambda>n src w. (None, w),
     Complete = \<lambda>k ks r w. (None, w), AddHealthzCheck = \<lambda>n w. (None, w), Start = \<lambda>w. (None, w)\<rparr>"

definition test_libs :: "Testbed libs" where
  "test_libs = \<lparr>libDeps = std_deps, libMCIRetry = retry_upto 4, libBlockRetry = retry_upto 4,
     libMCSRetry = retry_upto 4\<rparr>"

definition fake_balancer :: "(MultiClusterIngress, Testbed) balancer" where
  "fake_balancer = fst (LoadBalancer std_deps)"

definition fake_mcs_balancer :: "(MultiClusterService, Testbed) balancer" where
  "fake_mcs_balancer = fst (MCSLoadBalancer std_deps)"

lemma fake_offers: "offers (fake_provider std_deps) fake_balancer fake_mcs_balancer"
  by (simp add: offers_def fake_provider_def fake_balancer_def fake_mcs_balancer_def LoadBalancer_def
      MCSLoadBalancer_def)

definition never_fails :: "('w, error option) start \<Rightarrow> bool" where
  "never_fails m \<longleftrightarrow> (\<forall>s. fst (run_state m s) = None)"

lemma never_fails_rules:
  "never_fails (ret None)"
  "never_fails m \<Longrightarrow> never_fails n \<Longrightarrow> never_fails (unless_err m n)"
  "never_fails (lift_call (\<lambda>w. (None, w)) entry)"
  unfolding never_fails_def unless_err_def
  by (simp_all add: run_lift_call split: prod.splits) (metis fst_conv option.distinct(1))

lemma never_fails_run: "never_fails m \<Longrightarrow> snd (fst (run_state (enabled_unless_err m) s)) = None"
  by (simp add: never_fails_def run_enabled_unless_err split: prod.splits) (metis fst_conv)

lemma never_fails_watch_all: "never_fails (watch_all test_manager name srcs)"
  by (induction srcs) (auto intro!: never_fails_rules simp: watch_def test_manager_def)

lemma StartControllers_returns:
  assumes "\<And>n f s. (n, f) \<in> set i \<Longrightarrow> snd (fst (run_state (f ctx) s)) = None"
  shows "fst (run_state (StartControllers i ctx dis) s) = None"
  using assms
proof (induction i arbitrary: s)
  case (Cons entry i)
  obtain n f where entry: "entry = (n, f)" by (cases entry)
  have "snd (fst (run_state (f ctx) s)) = None" using Cons.prems [of n f s] by (simp add: entry)
  moreover have "fst (run_state (StartControllers i ctx dis) s') = None" for s'
    by (rule Cons.IH) (use Cons.prems in \<open>auto simp: entry\<close>)
  ultimately show ?case by (auto simp: entry split: prod.splits)
qed simp

lemma test_complete: "never_fails (complete test_manager k ks r)"
  by (simp add: complete_def test_manager_def never_fails_rules)

lemma test_watches: "never_fails (unless_err (new_controller test_manager name r) (watch_all test_manager name srcs))"
  by (intro never_fails_rules never_fails_watch_all) (simp add: new_controller_def test_manager_def never_fails_rules)

abbreviation test_context :: "Testbed Context" where
  "test_context \<equiv> controller_context test_libs test_manager (fake_provider std_deps) '''' ''fake''"

lemma test_context_fields:
  "Mgr test_context = test_manager"
  "ifLoadBalancer (CloudProvider test_context) = (Some fake_balancer, True)"
  "ifMCSLoadBalancer (CloudProvider test_context) = (Some fake_mcs_balancer, True)"
  using fake_offers by (simp_all add: controller_context_def offers_def)

lemma test_starts:
  "snd (fst (run_state (startMCIController test_context) s)) = None"
  "snd (fst (run_state (startMCSController test_context) s)) = None"
  "snd (fst (run_state (startCRDInstallationController test_context) s)) = None"
  "snd (fst (run_state (startServiceExportPropagationController test_context) s)) = None"
  "snd (fst (run_state (startMCIServiceLocationsController test_context) s)) = None"
  unfolding startMCIController_def startMCSController_def startCRDInstallationController_def
    startServiceExportPropagationController_def startMCIServiceLocationsController_def
    mci_SetupWithManager_def mcs_SetupWithManager_def crd_SetupWithManager_def
    exp_SetupWithManager_def loc_SetupWithManager_def
  by (simp_all only: test_context_fields prod.case option.case if_False not_True_eq_False
      never_fails_run [OF test_watches] never_fails_run [OF test_complete])

lemma test_setup_starts:
  "fst (run_state (setup_steps test_context controllers) s) = None"
proof -
  have "snd (fst (run_state (f test_context) s)) = None" if "(n, f) \<in> set controllers" for n f s
    using that unfolding controllers_def list.set insert_iff empty_iff prod.inject simp_thms
    by (elim disjE conjE) (simp_all only: test_starts)
  then have "never_fails (StartControllers controllers test_context {})"
    unfolding never_fails_def using StartControllers_returns by blast
  moreover have indexes: "SetupServiceIndexesForMCI d (GetFieldIndexer test_manager) = (\<lambda>w. (None, w))"
    "SetupSecretIndexesForMCI d (GetFieldIndexer test_manager) = (\<lambda>w. (None, w))" for d
    by (rule ext; simp add: SetupServiceIndexesForMCI_def SetupSecretIndexesForMCI_def test_manager_def)+
  ultimately have "never_fails (setup_steps test_context controllers)"
    unfolding setup_steps_def test_context_fields indexes by (intro never_fails_rules)
  then show ?thesis by (simp only: never_fails_def)
qed

lemma run_test_setup:
  "fst (run_state (setupControllers test_libs (\<lambda>i. i) test_manager (fake_provider std_deps) '''' ''fake'') s) = None"
proof -
  obtain fatal s' where run: "run_state (setupControllers test_libs (\<lambda>i. i) test_manager
      (fake_provider std_deps) '''' ''fake'') s = (fatal, s')" by (rule prod.exhaust)
  obtain err where "run_state (setup_steps test_context controllers) s = (err, s')" and "fatal = None \<longleftrightarrow> err = None"
    using setupControllers_steps [OF run] by blast
  then show ?thesis using test_setup_starts [of s] run by simp
qed

section \<open>Properties\<close>

text \<open>
  The start succeeds exactly if the provider offers both load balancers, for ingresses and for
  services, and no call to the manager fails; otherwise the process ends. The order in which Go
  ranges over the table of controllers does not matter.
\<close>

lemma app_setup_succeeds_iff:
  assumes "sets_ok (libDeps libs)" and "mset (order_of controllers) = mset controllers"
    and "run_state (setupControllers libs order_of mgr p r cls) s = (fatal, s')"
  shows "fatal = None \<longleftrightarrow>
    (\<exists>lb mcs_lb. offers p lb mcs_lb) \<and> (\<exists>cs. calls s' = calls s @ cs \<and> (\<forall>c \<in> set cs. outcome c = None))"
proof -
  obtain err where run: "run_state (setup_steps (controller_context libs mgr p r cls) (order_of controllers)) s = (err, s')"
    and fatal: "fatal = None \<longleftrightarrow> err = None"
    using setupControllers_steps [OF assms(3)] by blast
  show ?thesis
  proof (cases "\<exists>lb mcs_lb. offers p lb mcs_lb")
    case True
    then obtain lb mcs_lb where "offers p lb mcs_lb" by blast
    note made = makes_setup_steps [OF assms(1,2) this, of mgr r cls]
    show ?thesis
    proof (cases err)
      case None
      then show ?thesis using makesD_None [OF made] run fatal True by (auto dest: outcome_starting)
    next
      case (Some e)
      then show ?thesis using makesD_Some [OF made] run fatal by fastforce
    qed
  next
    case False
    then show ?thesis
      using setup_steps_fails [OF assms(1,2) False, where s = s and mgr = mgr and r = r and cls = cls] run fatal by simp
  qed
qed

end
