(* ===== verification/Command.thy ===== *)
theory Command
  imports Startup
begin

text \<open>
  \<open>NewControllerManagerCommand\<close> and \<open>Run\<close> of app/manager.go: from the options of the command to
  the running manager. \<open>GetConfig\<close>, \<open>NewManager\<close> and the initialiser of the provider are
  parameters; a Go panic and a \<open>klog.Fatalf\<close> end the process.
\<close>

section \<open>Addresses\<close>

text \<open>\<open>strconv.Itoa\<close> and \<open>net.JoinHostPort\<close>: a host with a colon is put in brackets.\<close>

fun digits :: "nat \<Rightarrow> string" where
  "digits n = (if n < 10 then [char_of (48 + n)] else digits (n div 10) @ [char_of (48 + n mod 10)])"

declare digits.simps [simp del]

definition Itoa :: "int \<Rightarrow> string" where
  "Itoa i = (if i < 0 then CHR ''-'' # digits (nat (- i)) else digits (nat i))"

definition JoinHostPort :: "string \<Rightarrow> string \<Rightarrow> string" where
  "JoinHostPort host port =
     (if CHR '':'' \<in> set host then ''['' @ host @ '']:'' @ port else host @ '':'' @ port)"

section \<open>The command\<close>

record client_config =
  QPS :: rat
  Burst :: int
  ConfigRest :: rest

record 'w runtime =
  GetConfig :: "'w \<Rightarrow> (error + client_config) \<times> 'w"
  NewManager :: "client_config \<Rightarrow> manager_options \<Rightarrow> 'w \<Rightarrow> (error + 'w Manager) \<times> 'w"

type_synonym 'w InitProviderFunc = "string \<Rightarrow> string \<Rightarrow> 'w \<Rightarrow> (exit + 'w Interface) \<times> 'w"

fun exit_of :: "exit + 'a \<Rightarrow> exit option" where
  "exit_of (Inl x) = Some x"
| "exit_of (Inr _) = None"

definition manager_options_of :: "ManagerCommandOptions \<Rightarrow> manager_options" where
  "manager_options_of opts =
     \<lparr>Leader = LeaderElection opts, SyncPeriod = ResyncPeriod opts,
      HealthProbeBindAddress = JoinHostPort (BindAddress opts) (Itoa (SecurePort opts)),
      LivenessEndpointName = ''/healthz'', MetricsAddress = MetricsBindAddress opts\<rparr>"

definition Run ::
  "'w runtime \<Rightarrow> 'w libs \<Rightarrow> ('w Initializers \<Rightarrow> 'w Initializers) \<Rightarrow> ManagerCommandOptions
    \<Rightarrow> 'w Interface \<Rightarrow> ('w, exit + error option) start" where
  "Run rt libs order_of opts cloudProvider = do {
     r \<leftarrow> lift_call (GetConfig rt) (\<lambda>r. ConfigLoaded (error_of r));
     case r of
       Inl err \<Rightarrow> ret (Inl (Fatal ''panic''))
     | Inr config \<Rightarrow> do {
         let config = config\<lparr>QPS := KubeAPIQPS opts, Burst := KubeAPIBurst opts\<rparr>;
         r \<leftarrow> lift_call (NewManager rt config (manager_options_of opts))
           (\<lambda>r. ManagerMade (manager_options_of opts) (error_of r));
         case r of
           Inl err \<Rightarrow> ret (Inr (Some err))
         | Inr controllerManager \<Rightarrow> do {
             err \<leftarrow> lift_call (AddHealthzCheck controllerManager ''ping'') (HealthzAdded ''ping'');
             if err \<noteq> None then ret (Inr err)
             else do {
               fatal \<leftarrow> setupControllers libs order_of controllerManager cloudProvider
                 (RateLimiterOpts opts) (OptProviderClassName opts);
               case fatal of
                 Some x \<Rightarrow> ret (Inl x)
               | None \<Rightarrow> do {
                   err \<leftarrow> lift_call (Start controllerManager) Started;
                   ret (Inr err)
                 }
             }
           }
       }
   }"

definition RunE ::
  "'w runtime \<Rightarrow> 'w libs \<Rightarrow> ('w Initializers \<Rightarrow> 'w Initializers) \<Rightarrow> ManagerCommandOptions
    \<Rightarrow> 'w InitProviderFunc \<Rightarrow> ('w, exit + error option) start" where
  "RunE rt libs order_of opts providerInitializer =
     (if length (Validate opts) \<noteq> 0 then ret (Inr (Some (Errorf ''invalid options'')))
      else do {
        r \<leftarrow> lift_call (providerInitializer (OptName opts) (CloudConfigFile opts))
          (\<lambda>r. ProviderInitialized (OptName opts) (CloudConfigFile opts) (exit_of r));
        case r of
          Inl x \<Rightarrow> ret (Inl x)
        | Inr provider \<Rightarrow> Run rt libs order_of opts provider
      })"

text \<open>The command's own initialiser, as a function of the world.\<close>

definition initializer_of :: "'w files \<Rightarrow> (string \<rightharpoonup> 'w Factory) \<Rightarrow> 'w InitProviderFunc" where
  "initializer_of os providers name path w =
     (case run_state (cloudInitializer os providers name path) \<lparr>env = w, calls = []\<rparr> of
        (r, s) \<Rightarrow> (r, env s))"

section \<open>Lemmas\<close>

lemma Run_success:
  assumes "run_state (Run rt libs order_of opts p) s = (Inr None, s')"
  obtains config w1 mgr w2 w3 s2 where "GetConfig rt (env s) = (Inr config, w1)"
    and "NewManager rt (config\<lparr>QPS := KubeAPIQPS opts, Burst := KubeAPIBurst opts\<rparr>) (manager_options_of opts) w1 =
      (Inr mgr, w2)"
    and "run_state (setupControllers libs order_of mgr p (RateLimiterOpts opts) (OptProviderClassName opts))
      (s\<lparr>env := w3, calls := calls s @
        [ConfigLoaded None, ManagerMade (manager_options_of opts) None, HealthzAdded ''ping'' None]\<rparr>) = (None, s2)"
    and "calls s' = calls s2 @ [Started None]"
  using assms
  by (auto simp: Run_def run_lift_call Let_def split: prod.splits sum.splits if_splits option.splits)

lemma RunE_starts:
  fixes libs :: "'w libs"
  assumes "sets_ok (libDeps libs)" and "mset (order_of controllers) = mset controllers"
    and "run_state (RunE rt libs order_of opts providerInitializer) s = (Inr None, s')"
  shows "OptName opts \<noteq> '''' \<and> OptProviderClassName opts \<noteq> '''' \<and>
    (\<exists>p lb mcs_lb config mgr w order.
      fst (providerInitializer (OptName opts) (CloudConfigFile opts) (env s)) = Inr p \<and> offers p lb mcs_lb \<and>
      QPS config = KubeAPIQPS opts \<and> Burst config = KubeAPIBurst opts \<and>
      fst (NewManager rt config (manager_options_of opts) w) = Inr mgr \<and>
      mset order = mset [''multiclusteringress'', ''multiclusterservice'', ''crd-installation'',
        ''serviceexport-propagation'', ''mci-service-locations''] \<and>
      calls s' = calls s @
        [ProviderInitialized (OptName opts) (CloudConfigFile opts) None, ConfigLoaded None,
         ManagerMade (manager_options_of opts) None, HealthzAdded ''ping'' None,
         FieldIndexed IndexKeyServiceRefName None, FieldIndexed IndexKeySecretRefName None] @
        concat (map (starting (controller_context libs mgr p (RateLimiterOpts opts) (OptProviderClassName opts))
          lb mcs_lb) order) @
        [Started None])"
proof -
  from assms(3) obtain p w where valid: "Validate opts = []"
    and p: "providerInitializer (OptName opts) (CloudConfigFile opts) (env s) = (Inr p, w)"
    and run: "run_state (Run rt libs order_of opts p) (s\<lparr>env := w, calls := calls s @
      [ProviderInitialized (OptName opts) (CloudConfigFile opts) None]\<rparr>) = (Inr None, s')"
    by (auto simp: RunE_def run_lift_call split: prod.splits sum.splits if_splits)
  let ?s1 = "s\<lparr>env := w, calls := calls s @ [ProviderInitialized (OptName opts) (CloudConfigFile opts) None]\<rparr>"
  from run obtain config w1 mgr w2 w3 s3 where
    mgr: "NewManager rt (config\<lparr>QPS := KubeAPIQPS opts, Burst := KubeAPIBurst opts\<rparr>) (manager_options_of opts) w1 =
      (Inr mgr, w2)"
    and set_up: "run_state (setupControllers libs order_of mgr p (RateLimiterOpts opts) (OptProviderClassName opts))
      (?s1\<lparr>env := w3, calls := calls ?s1 @
        [ConfigLoaded None, ManagerMade (manager_options_of opts) None, HealthzAdded ''ping'' None]\<rparr>) = (None, s3)"
    and s': "calls s' = calls s3 @ [Started None]"
    by (rule Run_success)
  obtain lb mcs_lb order where "offers p lb mcs_lb"
    and "mset order = mset [''multiclusteringress'', ''multiclusterservice'', ''crd-installation'',
      ''serviceexport-propagation'', ''mci-service-locations'']"
    and "calls s' = calls s @
      [ProviderInitialized (OptName opts) (CloudConfigFile opts) None, ConfigLoaded None,
       ManagerMade (manager_options_of opts) None, HealthzAdded ''ping'' None] @
      [FieldIndexed IndexKeyServiceRefName None, FieldIndexed IndexKeySecretRefName None] @
      concat (map (starting (controller_context libs mgr p (RateLimiterOpts opts) (OptProviderClassName opts))
        lb mcs_lb) order) @ [Started None]"
    using setupControllers_starts_all [OF assms(1,2) set_up] unfolding s' by auto
  moreover have "OptName opts \<noteq> ''''" and "OptProviderClassName opts \<noteq> ''''"
    using valid by (simp_all add: Validate_ok)
  moreover have "fst (providerInitializer (OptName opts) (CloudConfigFile opts) (env s)) = Inr p"
    by (simp add: p)
  moreover have "fst (NewManager rt (config\<lparr>QPS := KubeAPIQPS opts, Burst := KubeAPIBurst opts\<rparr>)
      (manager_options_of opts) w1) = Inr mgr"
    and "QPS (config\<lparr>QPS := KubeAPIQPS opts, Burst := KubeAPIBurst opts\<rparr>) = KubeAPIQPS opts"
    and "Burst (config\<lparr>QPS := KubeAPIQPS opts, Burst := KubeAPIBurst opts\<rparr>) = KubeAPIBurst opts"
    by (simp_all add: mgr)
  ultimately show ?thesis
    unfolding append_assoc append_Cons append_Nil by blast
qed

section \<open>Properties\<close>

text \<open>
  C20: the command runs to a regular end only in one way: its options are valid; the provider they
  name is initialised and offers both load balancers; a manager is made with the address and the
  leader election of the options; the two indexes and then, in some order, the five controllers
  are set up with all their watches, each with that provider and the class name of the
  options; and only after all this is the manager started, as the last call.
\<close>

theorem command_starts_manager_last:
  fixes libs :: "'w libs"
  assumes "sets_ok (libDeps libs)" and "mset (order_of controllers) = mset controllers"
    and "run_state (RunE rt libs order_of opts providerInitializer) s = (Inr None, s')"
  shows "OptName opts \<noteq> '''' \<and> OptProviderClassName opts \<noteq> '''' \<and>
    (\<exists>p lb mcs_lb config mgr w order.
      fst (providerInitializer (OptName opts) (CloudConfigFile opts) (env s)) = Inr p \<and> offers p lb mcs_lb \<and>
      QPS config = KubeAPIQPS opts \<and> Burst config = KubeAPIBurst opts \<and>
      fst (NewManager rt config (manager_options_of opts) w) = Inr mgr \<and>
      mset order = mset [''multiclusteringress'', ''multiclusterservice'', ''crd-installation'',
        ''serviceexport-propagation'', ''mci-service-locations''] \<and>
      calls s' = calls s @
        [ProviderInitialized (OptName opts) (CloudConfigFile opts) None, ConfigLoaded None,
         ManagerMade (manager_options_of opts) None, HealthzAdded ''ping'' None,
         FieldIndexed IndexKeyServiceRefName None, FieldIndexed IndexKeySecretRefName None] @
        concat (map (starting (controller_context libs mgr p (RateLimiterOpts opts) (OptProviderClassName opts))
          lb mcs_lb) order) @
        [Started None])"
  using assms by (rule RunE_starts)

definition test_options :: ManagerCommandOptions where
  "test_options = (NewClusterControllerManagerOptions ''leases'' '''')
     \<lparr>OptName := ''fake'', OptProviderClassName := ''fake''\<rparr>"

definition test_runtime :: "Testbed runtime" where
  "test_runtime = \<lparr>GetConfig = \<lambda>w. (Inr \<lparr>QPS = 0, Burst = 0, ConfigRest = ''''\<rparr>, w),
     NewManager = \<lambda>config opts w. (Inr test_manager, w)\<rparr>"

definition test_initializer :: "Testbed InitProviderFunc" where
  "test_initializer = initializer_of test_files [''fake'' \<mapsto> fake_factory std_deps]"

lemma run_test_initializer: "fst (test_initializer ''fake'' '''' w) = Inr (fake_provider std_deps)"
  by (simp add: test_initializer_def initializer_of_def cloudInitializer_def InitMultiClusterProvider_def
      createMultiClusterProvider_def run_lift_call fake_factory_def checked_provider_def)

lemma run_test_command:
  assumes "OptName opts = ''fake''" and "CloudConfigFile opts = ''''" and "OptProviderClassName opts = ''fake''"
    and "RateLimiterOpts opts = ''''"
  shows "fst (run_state (RunE test_runtime test_libs (\<lambda>i. i) opts test_initializer) s) = Inr None"
proof -
  have set_up: "run_state (setupControllers test_libs (\<lambda>i. i) test_manager (fake_provider std_deps) '''' ''fake'') s \<noteq>
      (Some x, s')" for s x s'
    using run_test_setup [of s] by auto
  have "Validate opts = []" using assms by (simp add: Validate_ok)
  note fields = this assms
  have manager: "AddHealthzCheck test_manager n w = (None, w)" "Start test_manager w = (None, w)"
    for n and w :: Testbed by (simp_all add: test_manager_def)
  obtain w where "test_initializer ''fake'' '''' (env s) = (Inr (fake_provider std_deps), w)"
    using run_test_initializer [of "env s"] by (metis prod.collapse)
  then show ?thesis
    using set_up
    by (auto simp: RunE_def Run_def run_lift_call fields manager test_runtime_def split: prod.splits option.splits)
qed

lemma command_starts_manager_last_witness:
  "\<exists>s'. run_state (RunE test_runtime test_libs id test_options test_initializer)
      \<lparr>env = empty_testbed, calls = []\<rparr> = (Inr None, s') \<and>
    (\<exists>p lb mgr.
      ControllerMade ''multiclusteringress-controller''
        (ReconcilesMCI (mci_controller_of (controller_context test_libs mgr p '''' ''fake'') lb)) None \<in>
        set (butlast (calls s'))) \<and>
    last (calls s') = Started None"
proof -
  have hyps: "sets_ok (libDeps test_libs)" "mset (id controllers :: Testbed Initializers) = mset controllers"
    by (simp_all add: test_libs_def std_sets_ok)
  have "fst (run_state (RunE test_runtime test_libs id test_options test_initializer)
      \<lparr>env = empty_testbed, calls = []\<rparr>) = Inr None"
    unfolding id_def by (rule run_test_command)
      (simp_all add: test_options_def NewClusterControllerManagerOptions_def)
  then obtain s' where run: "run_state (RunE test_runtime test_libs id test_options test_initializer)
      \<lparr>env = empty_testbed, calls = []\<rparr> = (Inr None, s')"
    by (metis prod.collapse)
  from command_starts_manager_last [where order_of = id, OF hyps run] obtain p lb mcs_lb mgr order cs where
    order: "mset order = mset [''multiclusteringress'', ''multiclusterservice'', ''crd-installation'',
      ''serviceexport-propagation'', ''mci-service-locations'']" and
    calls: "calls s' = cs @ concat (map (starting (controller_context test_libs mgr p (RateLimiterOpts test_options)
      (OptProviderClassName test_options)) lb mcs_lb) order) @ [Started None]"
    by (metis append.assoc)
  have "''multiclusteringress'' \<in> set order" using mset_eq_setD [OF order] by simp
  then have "ControllerMade ''multiclusteringress-controller'' (ReconcilesMCI (mci_controller_of
      (controller_context test_libs mgr p (RateLimiterOpts test_options) (OptProviderClassName test_options)) lb)) None \<in>
      set (butlast (calls s'))"
    unfolding calls append_assoc [symmetric] butlast_snoc
    by (force simp: starting_def watches_def mci_ControllerName_def)
  moreover have "last (calls s') = Started None" unfolding calls by simp
  ultimately show ?thesis using run by (auto simp: test_options_def NewClusterControllerManagerOptions_def)
qed

end
