(* ===== verification/CommandLine.thy ===== *)
theory CommandLine
  imports Command
begin

text \<open>
  \<open>NewControllerManagerCommand\<close> of app/manager.go and \<open>main\<close>: the flags of the command, and a command
  line from its flags to the running manager. The flag library is pflag: declaring a flag twice in
  a set panics, and a set that is added to another does not replace flags that are there already.
  The command library is cobra: it parses the flags, then calls \<open>PersistentPreRunE\<close>, then \<open>RunE\<close>,
  and stops at the first error. Usage texts and the version command are left out.
\<close>

section \<open>The flags of the command\<close>

text \<open>
  Flags of other packages: those whose variables are not part of the options are given by their
  names, the others by what they do to a field of the options.
\<close>

record flag_libs =
  CommandLineFlags :: "string list"
  RateLimiterFlags :: add_flags
  ProfileFlags :: add_flags
  FeatureGateFlags :: add_flags
  LogsFlags :: "string list"
  LoggingFlags :: add_flags
  ValidateAndApply :: "rest \<Rightarrow> rest option \<Rightarrow> error option"
  AddFlagSet :: "ManagerCommandOptions flags \<Rightarrow> ManagerCommandOptions flags \<Rightarrow> ManagerCommandOptions flags"

text \<open>The documentation of \<open>FlagSet.AddFlagSet\<close>: a flag that is present already is not replaced.\<close>

definition flag_libs_ok :: "flag_libs \<Rightarrow> bool" where
  "flag_libs_ok fl \<longleftrightarrow> (\<forall>fs new. AddFlagSet fl fs new = fs @ filter (\<lambda>f. fst f \<notin> set (map fst fs)) new)"

definition foreign_flags :: "string list \<Rightarrow> 'o flags" where
  "foreign_flags names = map (\<lambda>n. (n, \<lambda>v. id)) names"

definition add_feature_gates ::
  "add_flags \<Rightarrow> ManagerCommandOptions \<times> ManagerCommandOptions flags
    \<Rightarrow> ManagerCommandOptions \<times> ManagerCommandOptions flags" where
  "add_feature_gates add s =
     (if FeatureGate (fst s) \<noteq> None
      then add_field_flags (the \<circ> FeatureGate) (FeatureGate_update \<circ> map_option) add s
      else s)"

text \<open>
  The result is the options and the flags of \<open>cmd.Flags()\<close>. A flag declared twice panics where it
  is declared; nothing after that is observable, so the sets are looked at once they are complete.
\<close>

definition NewControllerManagerCommand ::
  "flag_libs \<Rightarrow> ManagerCommandOptions \<Rightarrow> string list list
    \<Rightarrow> exit + ManagerCommandOptions \<times> ManagerCommandOptions flags" where
  "NewControllerManagerCommand fl opts additionalFlags = (
     let genericFlagSet = AddFlagSet fl [] (foreign_flags (CommandLineFlags fl))
     in if ''kubeconfig'' \<notin> set (map fst genericFlagSet) then Inl (Fatal ''panic'')
     else let
       s = AddFlags (RateLimiterFlags fl) (ProfileFlags fl) (opts, genericFlagSet);
       (opts, genericFlagSet) = add_feature_gates (FeatureGateFlags fl) s;
       (opts, logsFlagSet) = add_field_flags Logging Logging_update (LoggingFlags fl)
         (opts, foreign_flags (LogsFlags fl))
     in if \<not> distinct (map fst genericFlagSet) \<or> \<not> distinct (map fst logsFlagSet)
     then Inl (Fatal ''panic'')
     else let
       cmdFlags = AddFlagSet fl (AddFlagSet fl [] genericFlagSet) logsFlagSet;
       cmdFlags = fold (\<lambda>f fs. AddFlagSet fl fs (foreign_flags f)) additionalFlags cmdFlags
     in Inr (opts, cmdFlags))"

definition PersistentPreRunE :: "flag_libs \<Rightarrow> ManagerCommandOptions \<Rightarrow> error option" where
  "PersistentPreRunE fl opts =
     (case ValidateAndApply fl (Logging opts) (FeatureGate opts) of
        Some err \<Rightarrow> Some err
      | None \<Rightarrow> None)"

text \<open>
  What cobra does with the flags of a command line: their values come parsed, in order.
\<close>

definition Execute ::
  "flag_libs \<Rightarrow> 'w runtime \<Rightarrow> 'w libs \<Rightarrow> ('w Initializers \<Rightarrow> 'w Initializers) \<Rightarrow> 'w InitProviderFunc
    \<Rightarrow> ManagerCommandOptions \<times> ManagerCommandOptions flags \<Rightarrow> (string \<times> flag_value) list
    \<Rightarrow> ('w, exit + error option) start" where
  "Execute fl rt libs order_of providerInitializer cmd args =
     (if \<not> list_all (\<lambda>arg. fst arg \<in> set (map fst (snd cmd))) args
      then ret (Inr (Some (Errorf ''unknown flag'')))
      else let opts = fold (set_flag (snd cmd)) args (fst cmd)
      in case PersistentPreRunE fl opts of
           Some err \<Rightarrow> ret (Inr (Some err))
         | None \<Rightarrow> RunE rt libs order_of opts providerInitializer)"

text \<open>
  \<open>main\<close>: how the process ends, by \<open>os.Exit\<close> with the code that \<open>cli.Run\<close> makes of the command's
  error, or before that. \<open>AddFeatureGates\<close> makes the feature gates or fails.
\<close>

definition main_process ::
  "flag_libs \<Rightarrow> error + rest \<Rightarrow> (error option \<Rightarrow> nat) \<Rightarrow> string \<Rightarrow> rest \<Rightarrow> 'w runtime \<Rightarrow> 'w libs
    \<Rightarrow> ('w Initializers \<Rightarrow> 'w Initializers) \<Rightarrow> 'w InitProviderFunc \<Rightarrow> (string \<times> flag_value) list
    \<Rightarrow> ('w, exit + nat) start" where
  "main_process fl featureGates exitCode leasesLock newLogging rt libs order_of providerInitializer args =
     (let opts = NewClusterControllerManagerOptions leasesLock newLogging
      in case featureGates of
           Inl err \<Rightarrow> ret (Inl (Fatal ''Failed to add feature gates''))
         | Inr featureGate \<Rightarrow>
             (let opts = opts\<lparr>FeatureGate := Some featureGate\<rparr>
              in case NewControllerManagerCommand fl opts [] of
                   Inl x \<Rightarrow> ret (Inl x)
                 | Inr cmd \<Rightarrow> do {
                     r \<leftarrow> Execute fl rt libs order_of providerInitializer cmd args;
                     ret (case r of Inl x \<Rightarrow> Inl x | Inr err \<Rightarrow> Inr (exitCode err))
                   }))"

section \<open>Who sets the options\<close>

lemma foreign_flags_names [simp]: "map fst (foreign_flags names) = names"
  by (simp add: foreign_flags_def comp_def)

lemma stays_out_foreign [simp]: "stays_out (foreign_flags names)"
  by (auto simp: stays_out_def foreign_flags_def leaves_field_def)

lemma stays_out_filter: "stays_out fs \<Longrightarrow> stays_out (filter P fs)"
  by (auto simp: stays_out_def)

definition last_given :: "string \<Rightarrow> (string \<times> flag_value) list \<Rightarrow> string" where
  "last_given name args = (case given name args of None \<Rightarrow> [] | Some x \<Rightarrow> x)"

lemma stays_out_fields [simp]:
  "stays_out []" "stays_out (map (map_prod id (\<lambda>set_to v. FeatureGate_update (map_option (set_to v)))) fs)"
  "stays_out (map (map_prod id (\<lambda>set_to v. Logging_update (set_to v))) fs)"
  by (auto simp: stays_out_def leaves_field_def)

text \<open>Sets added later come behind, so they stay out if their flags do.\<close>

lemma flag_libs_okD: "flag_libs_ok fl \<Longrightarrow> AddFlagSet fl [] new = new"
  by (simp add: flag_libs_ok_def)

lemma AddFlagSet_behind: "flag_libs_ok fl \<Longrightarrow> stays_out new \<Longrightarrow> \<exists>fs1. AddFlagSet fl fs new = fs @ fs1 \<and> stays_out fs1"
  by (auto simp: flag_libs_ok_def stays_out_filter)

lemma additional_behind:
  assumes "flag_libs_ok fl"
  shows "\<exists>fs1. fold (\<lambda>f fs. AddFlagSet fl fs (foreign_flags f)) additional fs = fs @ fs1 \<and> stays_out fs1"
proof (induction additional arbitrary: fs)
  case (Cons f additional)
  obtain fs1 where "AddFlagSet fl fs (foreign_flags f) = fs @ fs1" "stays_out fs1"
    using AddFlagSet_behind [OF assms stays_out_foreign] by blast
  with Cons.IH [of "fs @ fs1"] show ?case by auto
qed (auto simp: stays_out_def)

text \<open>The flags of the command: the three required ones among flags that stay out.\<close>

lemma NewControllerManagerCommand_flags:
  assumes lib: "flag_libs_ok fl" and made: "NewControllerManagerCommand fl opts additional = Inr (opts', fs)"
  obtains fs0 fs1 where "fs = fs0 @ [(''multicluster-provider'', string_setter OptName_update),
      (''cloud-config'', string_setter CloudConfigFile_update),
      (''provider-ingress-class'', string_setter OptProviderClassName_update)] @ fs1"
    and "distinct (map fst fs0 @ [''multicluster-provider'', ''cloud-config'', ''provider-ingress-class''])"
    and "stays_out fs0" and "stays_out fs1"
    and "OptName opts' = OptName opts" and "CloudConfigFile opts' = CloudConfigFile opts"
    and "OptProviderClassName opts' = OptProviderClassName opts"
proof -
  let ?go = "foreign_flags (CommandLineFlags fl) :: ManagerCommandOptions flags"
  let ?three = "[(''multicluster-provider'', string_setter OptName_update),
      (''cloud-config'', string_setter CloudConfigFile_update),
      (''provider-ingress-class'', string_setter OptProviderClassName_update)]"
  obtain o1 g1 where a: "AddFlags (RateLimiterFlags fl) (ProfileFlags fl) (opts, ?go) = (o1, g1)" by fastforce
  obtain o2 g2 where g: "add_feature_gates (FeatureGateFlags fl) (o1, g1) = (o2, g2)" by fastforce
  obtain o3 l where l: "add_field_flags Logging Logging_update (LoggingFlags fl) (o2, foreign_flags (LogsFlags fl)) = (o3, l)"
    by fastforce
  from made have d: "distinct (map fst g2)" and res: "opts' = o3"
    "fs = fold (\<lambda>f fs. AddFlagSet fl fs (foreign_flags f)) additional (AddFlagSet fl g2 l)"
    by (auto simp: NewControllerManagerCommand_def flag_libs_okD [OF lib] a g l Let_def split: if_splits)
  obtain rate profile where g1: "g1 = ?go @ ?three @ own_flags @ other_flags rate profile"
    using AddFlags_flags [of "RateLimiterFlags fl" "ProfileFlags fl" opts ?go] a by auto
  have "\<exists>h. g2 = g1 @ h \<and> stays_out h"
    using g by (auto simp: add_feature_gates_def add_field_flags_def split: if_splits prod.splits)
  then obtain h where h: "g2 = g1 @ h" "stays_out h" by blast
  have "stays_out l" using l by (auto simp: add_field_flags_def split: prod.splits)
  then obtain fs1 where "AddFlagSet fl g2 l = g2 @ fs1" "stays_out fs1" using AddFlagSet_behind [OF lib] by blast
  with additional_behind [OF lib, of additional "g2 @ fs1"] res obtain fs2 where fs: "fs = g2 @ fs2" "stays_out fs2" by auto
  have "OptName o1 = OptName opts" "CloudConfigFile o1 = CloudConfigFile opts"
    "OptProviderClassName o1 = OptProviderClassName opts"
    using AddFlags_keeps(1-3) [of "RateLimiterFlags fl" "ProfileFlags fl" opts ?go] by (simp_all add: a)
  moreover have "OptName o3 = OptName o1" "CloudConfigFile o3 = CloudConfigFile o1"
    "OptProviderClassName o3 = OptProviderClassName o1"
    using g l by (auto simp: add_feature_gates_def add_field_flags_def split: if_splits prod.splits)
  moreover have "distinct (map fst ?go @ [''multicluster-provider'', ''cloud-config'', ''provider-ingress-class''])"
    using d h g1 by auto
  ultimately show thesis
    by (intro that [of ?go "own_flags @ other_flags rate profile @ h @ fs2"]) (use fs h g1 res in simp_all)
qed

text \<open>What a run of the command makes of its flags.\<close>

lemma Execute_decides:
  assumes "flag_libs_ok fl"
    and "NewControllerManagerCommand fl ((NewClusterControllerManagerOptions lock logging)\<lparr>FeatureGate := gate\<rparr>)
      additional = Inr cmd"
    and "sets_ok (libDeps libs)" and "mset (order_of controllers) = mset controllers"
    and "run_state (Execute fl rt libs order_of providerInitializer cmd args) s = (r, s')"
  defines "name \<equiv> last_given ''multicluster-provider'' args"
    and "class \<equiv> last_given ''provider-ingress-class'' args"
    and "file \<equiv> last_given ''cloud-config'' args"
  shows "(name = '''' \<or> class = '''' \<longrightarrow> (\<exists>e. r = Inr (Some e)) \<and> s' = s) \<and>
    (r = Inr None \<longrightarrow> (\<exists>q. calls s' = calls s @ ProviderInitialized name file None # q @ [Started None]))"
proof -
  obtain opts fs where cmd: "cmd = (opts, fs)" by (cases cmd)
  obtain fs0 fs1 where fs: "fs = fs0 @ [(''multicluster-provider'', string_setter OptName_update),
      (''cloud-config'', string_setter CloudConfigFile_update),
      (''provider-ingress-class'', string_setter OptProviderClassName_update)] @ fs1"
    and ok: "distinct (map fst fs0 @ [''multicluster-provider'', ''cloud-config'', ''provider-ingress-class''])"
      "stays_out fs0" "stays_out fs1"
    and zero: "OptName opts = ''''" "CloudConfigFile opts = ''''" "OptProviderClassName opts = ''''"
    using NewControllerManagerCommand_flags [OF assms(1) assms(2) [unfolded cmd]]
    by (auto simp: NewClusterControllerManagerOptions_def)
  let ?opts = "fold (set_flag fs) args opts"
  have fields: "OptName ?opts = name" "CloudConfigFile ?opts = file" "OptProviderClassName ?opts = class"
    using required_flags [OF ok, folded fs, THEN only_flag_fold] zero
    by (simp_all add: name_def file_def class_def last_given_def split: option.splits)
  consider (failed) e where "r = Inr (Some e)" "s' = s"
    | (run) "run_state (RunE rt libs order_of ?opts providerInitializer) s = (r, s')"
    using assms(5) by (auto simp: Execute_def cmd Let_def split: if_splits option.splits)
  then show ?thesis
  proof cases
    case run
    have "\<exists>e. r = Inr (Some e) \<and> s' = s" if "name = '''' \<or> class = ''''"
      using run that fields Validate_ok [of ?opts] by (auto simp: RunE_def)
    moreover have "\<exists>q. calls s' = calls s @ ProviderInitialized name file None # q @ [Started None]" if "r = Inr None"
      using RunE_starts [OF assms(3,4) run [unfolded that]] unfolding fields by (metis append_Cons append_assoc)
    ultimately show ?thesis by blast
  qed simp
qed

section \<open>Properties\<close>


definition test_flag_libs :: flag_libs where
  "test_flag_libs = \<lparr>CommandLineFlags = [''kubeconfig''], RateLimiterFlags = \<lambda>x. (x, []), ProfileFlags = \<lambda>x. (x, []),
     FeatureGateFlags = \<lambda>x. (x, [(''feature-gates'', string_setter (\<lambda>f. f))]), LogsFlags = [''log-flush-frequency''],
     LoggingFlags = \<lambda>x. (x, [(''logging-format'', string_setter (\<lambda>f. f))]), ValidateAndApply = \<lambda>_ _. None,
     AddFlagSet = \<lambda>fs new. fs @ filter (\<lambda>f. fst f \<notin> set (map fst fs)) new\<rparr>"

definition test_command :: "exit + ManagerCommandOptions \<times> ManagerCommandOptions flags" where
  "test_command = NewControllerManagerCommand test_flag_libs
     ((NewClusterControllerManagerOptions ''leases'' '''')\<lparr>FeatureGate := Some ''''\<rparr>) []"

definition test_args :: "(string \<times> flag_value) list" where
  "test_args = [(''multicluster-provider'', StringValue ''fake''), (''kubeconfig'', StringValue ''x''),
     (''provider-ingress-class'', StringValue ''fake'')]"

lemma test_command_made: "\<exists>opts fs. test_command = Inr (opts, fs) \<and>
    list_all (\<lambda>arg. fst arg \<in> set (map fst fs)) test_args \<and>
    OptName (fold (set_flag fs) test_args opts) = ''fake'' \<and>
    CloudConfigFile (fold (set_flag fs) test_args opts) = '''' \<and>
    OptProviderClassName (fold (set_flag fs) test_args opts) = ''fake'' \<and>
    RateLimiterOpts (fold (set_flag fs) test_args opts) = ''''"
  by (simp add: test_command_def NewControllerManagerCommand_def test_flag_libs_def foreign_flags_def
      AddFlags_def add_flag_def add_field_flags_def add_feature_gates_def NewClusterControllerManagerOptions_def
      setter_defs leader_upd_def test_args_def set_flag_def)


end
